(* ===== verification/Prelude.thy ===== *)
theory Prelude
  imports Main
begin

text \<open>
  Shared vocabulary of the development: the collections of simplification rules the
  component theories fill, the type synonyms for Go's basic types, and generic facts on
  lists, options and sums that no component owns.

  \<^item> \<open>go_string\<close>: a Go string is a sequence of bytes; a \<^typ>\<open>char\<close> of HOL is a
    byte, so a Go string is a \<^typ>\<open>string\<close>.
  \<^item> \<open>timestamp\<close>: a PostgreSQL \<open>timestamptz\<close>, in microseconds since the Unix epoch.
  \<^item> \<open>session\<close>: the identity of one request transaction.
\<close>

named_theorems handler_defs \<open>definitions of the HTTP handlers\<close>
named_theorems metric_defs \<open>the metric vectors\<close>
named_theorems process_defs \<open>results and traces of the processes\<close>

type_synonym go_string = string
type_synonym rune = int
type_synonym timestamp = int
type_synonym session = nat

section \<open>Lists with at most one matching element\<close>

text \<open>
  A table is a list of rows and a unique index is \<^const>\<open>distinct\<close> of the mapped key. The
  lemmas below are what a statement that touches the row of one key needs.
\<close>

lemma distinct_map_eqD:
  "\<lbrakk>distinct (map f xs); x \<in> set xs; y \<in> set xs; f x = f y\<rbrakk> \<Longrightarrow> x = y"
  by (auto simp: distinct_map dest: inj_onD)

lemma distinct_map_filterI [intro]: "distinct (map f xs) \<Longrightarrow> distinct (map f (filter P xs))"
  by (auto simp: distinct_map intro: inj_on_subset)

lemma map_key_stable [simp]:
  "(\<And>x. f (g x) = f x) \<Longrightarrow> map f (map g xs) = map f xs"
  by simp

lemma find_Some_conv: "List.find P xs = Some x \<Longrightarrow> x \<in> set xs \<and> P x"
  by (auto simp: find_Some_iff)

lemma find_None_conv: "List.find P xs = None \<longleftrightarrow> (\<forall>x \<in> set xs. \<not> P x)"
  by (auto simp: find_None_iff)

lemma find_unique:
  assumes "distinct (map f xs)" and "x \<in> set xs" and "f x = k"
  shows "List.find (\<lambda>y. f y = k) xs = Some x"
proof (cases "List.find (\<lambda>y. f y = k) xs")
  case None
  with assms show ?thesis by (auto simp: find_None_conv)
next
  case (Some y)
  then have "y \<in> set xs" and "f y = k" by (auto dest: find_Some_conv)
  with assms Some show ?thesis by (auto dest: distinct_map_eqD)
qed

lemma filter_key_le_one:
  "distinct (map f xs) \<Longrightarrow> length (filter (\<lambda>x. f x = k \<and> P x) xs) \<le> 1"
proof (induction xs)
  case (Cons a xs)
  show ?case
  proof (cases "f a = k \<and> P a")
    case True
    with Cons.prems have "filter (\<lambda>x. f x = k \<and> P x) xs = []"
      by (auto simp: filter_empty_conv image_iff)
    with True show ?thesis by simp
  qed (use Cons in auto)
qed simp

section \<open>Options and sums\<close>

lemma sum_case_Inr_iff:
  "(case s of Inl e \<Rightarrow> Inl e | Inr x \<Rightarrow> f x) = Inr y \<longleftrightarrow> (\<exists>x. s = Inr x \<and> f x = Inr y)"
  by (cases s) auto

lemma sum_case_Inl_iff:
  "(case s of Inl e \<Rightarrow> Inl e | Inr x \<Rightarrow> f x) = Inl e' \<longleftrightarrow>
     s = Inl e' \<or> (\<exists>x. s = Inr x \<and> f x = Inl e')"
  by (cases s) auto

text \<open>Go's \<^verbatim>\<open>if err != nil { return ..., err }\<close>: a step that fails ends the function with its error.\<close>

definition and_then :: "'e + 'a \<Rightarrow> ('a \<Rightarrow> 'e + 'b) \<Rightarrow> 'e + 'b" where
  "and_then r f = (case r of Inl e \<Rightarrow> Inl e | Inr x \<Rightarrow> f x)"

lemma and_then_simps [simp]: "and_then (Inl e) f = Inl e" "and_then (Inr x) f = f x"
  by (simp_all add: and_then_def)

lemma and_then_Inr_iff: "and_then r f = Inr y \<longleftrightarrow> (\<exists>x. r = Inr x \<and> f x = Inr y)"
  by (cases r) auto

lemmas sum_case_iffs = sum_case_Inr_iff sum_case_Inl_iff

section \<open>Transition systems\<close>

text \<open>
  The two state machines of the development (request transactions, outbox workers) and the
  system that runs them together are transition systems: a predicate for the initial states
  and a step relation. The reachable states are defined once, for any such pair.
\<close>

inductive reach :: "('s \<Rightarrow> bool) \<Rightarrow> ('s \<Rightarrow> 's \<Rightarrow> bool) \<Rightarrow> 's \<Rightarrow> bool"
  for init :: "'s \<Rightarrow> bool" and step :: "'s \<Rightarrow> 's \<Rightarrow> bool" where
  reach_init: "init s \<Longrightarrow> reach init step s"
| reach_step: "reach init step s \<Longrightarrow> step s t \<Longrightarrow> reach init step t"

locale invariant_system =
  fixes sys_init :: "'s \<Rightarrow> bool"
    and sys_step :: "'s \<Rightarrow> 's \<Rightarrow> bool"
    and sys_inv :: "'s \<Rightarrow> bool"
  assumes init_inv: "sys_init s \<Longrightarrow> sys_inv s"
    and step_inv: "sys_inv s \<Longrightarrow> sys_step s t \<Longrightarrow> sys_inv t"
begin

lemma reach_inv: "reach sys_init sys_step s \<Longrightarrow> sys_inv s"
  by (induction rule: reach.induct) (auto intro: init_inv step_inv)

lemma steps_inv: "sys_step\<^sup>*\<^sup>* s t \<Longrightarrow> sys_inv s \<Longrightarrow> sys_inv t"
  by (induction rule: rtranclp_induct) (auto intro: step_inv)

text \<open>A relation between the states of a run that every step from an invariant state has,
  and that composes, relates the ends of the run.\<close>

lemma steps_relation:
  assumes run: "sys_step\<^sup>*\<^sup>* s t" and inv: "sys_inv s"
    and one: "\<And>u v. sys_inv u \<Longrightarrow> sys_step u v \<Longrightarrow> R u v"
    and refl: "\<And>u. R u u" and trans: "\<And>u v w. R u v \<Longrightarrow> R v w \<Longrightarrow> R u w"
  shows "R s t"
  using run
proof (induction rule: rtranclp_induct)
  case base
  show ?case by (rule refl)
next
  case (step u v)
  from inv step.hyps(1) have "sys_inv u" by (blast intro: steps_inv)
  with step show ?case by (blast intro: one trans)
qed

end

end
