(* ===== verification/Go_Strings.thy ===== *)
theory Go_Strings
  imports Prelude "HOL-Library.Word"
begin

text \<open>
  The parts of Go's \<^verbatim>\<open>unicode/utf8\<close>, \<^verbatim>\<open>unicode\<close>, \<^verbatim>\<open>strings\<close> and \<^verbatim>\<open>encoding/hex\<close> packages
  that the service uses, on Go strings as byte lists:
  \<^item> \<open>decode_rune\<close> and \<open>decode_last_rune\<close> (\<^verbatim>\<open>utf8.DecodeRuneInString\<close>,
    \<^verbatim>\<open>utf8.DecodeLastRuneInString\<close>): an invalid encoding is \<open>rune_error\<close> of width 1;
  \<^item> \<open>runes\<close>: what \<^verbatim>\<open>for _, r := range s\<close> visits; its length is \<^verbatim>\<open>utf8.RuneCountInString\<close>;
  \<^item> \<open>valid_string\<close> (\<^verbatim>\<open>utf8.ValidString\<close>), \<open>contains_nul\<close>
    (\<^verbatim>\<open>strings.ContainsRune(s, 0)\<close>), \<open>trim_space\<close> (\<^verbatim>\<open>strings.TrimSpace\<close>),
    \<open>hex_encode\<close> (\<^verbatim>\<open>hex.EncodeToString\<close>).
  The main results are that trimming is idempotent and leaves a sublist of the bytes, for
  every byte string, valid UTF-8 or not.
\<close>

section \<open>Decoding\<close>

abbreviation byte_of :: "char \<Rightarrow> int" where
  "byte_of c \<equiv> of_char c"

definition rune_error :: rune where
  "rune_error = 65533"

text \<open>The lead bytes of a sequence of two to four bytes, with its length and the range of its
  second byte; \<open>None\<close> for a byte that starts no such sequence.\<close>

definition lead_class :: "int \<Rightarrow> (nat \<times> int \<times> int) option" where
  "lead_class b =
     (if b < 194 then None
      else if b < 224 then Some (2, 128, 191)
      else if b = 224 then Some (3, 160, 191)
      else if b = 237 then Some (3, 128, 159)
      else if b < 240 then Some (3, 128, 191)
      else if b = 240 then Some (4, 144, 191)
      else if b < 244 then Some (4, 128, 191)
      else if b = 244 then Some (4, 128, 143)
      else None)"

definition is_cont :: "int \<Rightarrow> bool" where
  "is_cont b \<longleftrightarrow> 128 \<le> b \<and> b < 192"

fun decode_multi :: "int \<Rightarrow> nat \<times> int \<times> int \<Rightarrow> go_string \<Rightarrow> rune \<times> nat" where
  "decode_multi b0 (n, lo, hi) (c1 # cs) =
     (let b1 = byte_of c1 in
      if b1 < lo \<or> hi < b1 then (rune_error, 1)
      else if n = 2 then ((b0 mod 32) * 64 + b1 mod 64, 2)
      else (case cs of
          [] \<Rightarrow> (rune_error, 1)
        | c2 # cs2 \<Rightarrow>
            (let b2 = byte_of c2 in
             if \<not> is_cont b2 then (rune_error, 1)
             else if n = 3 then ((b0 mod 16) * 4096 + (b1 mod 64) * 64 + b2 mod 64, 3)
             else (case cs2 of
                 [] \<Rightarrow> (rune_error, 1)
               | c3 # _ \<Rightarrow>
                   (let b3 = byte_of c3 in
                    if \<not> is_cont b3 then (rune_error, 1)
                    else ((b0 mod 8) * 262144 + (b1 mod 64) * 4096 + (b2 mod 64) * 64
                           + b3 mod 64, 4))))))"
| "decode_multi b0 cl [] = (rune_error, 1)"

fun decode_rune :: "go_string \<Rightarrow> rune \<times> nat" where
  "decode_rune [] = (rune_error, 0)"
| "decode_rune (c0 # cs) =
     (let b0 = byte_of c0 in
      if b0 < 128 then (b0, 1)
      else (case lead_class b0 of
          None \<Rightarrow> (rune_error, 1)
        | Some cl \<Rightarrow> decode_multi b0 cl cs))"

definition rune_start :: "char \<Rightarrow> bool" where
  "rune_start c \<longleftrightarrow> \<not> is_cont (byte_of c)"

text \<open>\<^verbatim>\<open>DecodeLastRuneInString\<close> steps back over at most three bytes to the nearest one that is
  not a continuation byte, decodes from there, and accepts the rune only if it ends where the
  string does.\<close>

definition decode_last_rune :: "go_string \<Rightarrow> rune \<times> nat" where
  "decode_last_rune s =
     (if s = [] then (rune_error, 0)
      else if byte_of (last s) < 128 then (byte_of (last s), 1)
      else (case List.find (\<lambda>k. k \<le> length s \<and> rune_start (s ! (length s - k))) [2, 3, 4] of
          None \<Rightarrow> (rune_error, 1)
        | Some k \<Rightarrow>
            (let (r, n) = decode_rune (drop (length s - k) s) in
             if n = k then (r, n) else (rune_error, 1))))"

lemma decode_multi_width: "snd (decode_multi b0 cl cs) \<in> {1, 2, 3, 4}"
  by (cases "(b0, cl, cs)" rule: decode_multi.cases)
     (auto simp: Let_def split: list.splits)

lemma decode_multi_width_pos: "0 < snd (decode_multi b0 cl cs)"
  using decode_multi_width[of b0 cl cs] by auto

lemma decode_rune_width_pos: "s \<noteq> [] \<Longrightarrow> 0 < snd (decode_rune s)"
  by (cases s) (auto simp: Let_def decode_multi_width_pos split: option.splits)

text \<open>A rune that decodes keeps decoding to the same value when bytes follow.\<close>

lemma decode_multi_append:
  "fst (decode_multi b0 cl s) \<noteq> rune_error \<Longrightarrow> decode_multi b0 cl (s @ t) = decode_multi b0 cl s"
  by (cases "(b0, cl, s)" rule: decode_multi.cases)
     (auto simp: Let_def split: if_splits list.splits)

lemma decode_rune_append:
  "fst (decode_rune s) \<noteq> rune_error \<Longrightarrow> decode_rune (s @ t) = decode_rune s"
  by (cases s) (auto simp: Let_def decode_multi_append split: if_splits option.splits)

lemma lead_class_SomeD:
  "lead_class b = Some (n, lo, hi) \<Longrightarrow>
     128 \<le> lo \<and> hi \<le> 191 \<and>
     (n = 2 \<and> 194 \<le> b \<and> b < 224 \<or>
      n = 3 \<and> 224 \<le> b \<and> b < 240 \<and> (b = 224 \<longrightarrow> lo = 160) \<or>
      n = 4 \<and> 240 \<le> b \<and> b \<le> 244 \<and> (b = 240 \<longrightarrow> lo = 144))"
  by (auto simp: lead_class_def split: if_splits)

lemma rune2_ge: "194 \<le> (b0::int) \<Longrightarrow> b0 < 224 \<Longrightarrow> 128 \<le> (b0 mod 32) * 64 + b1 mod 64"
proof -
  assume b: "194 \<le> b0" "b0 < 224"
  then have "b0 mod 32 = b0 - 192" by presburger
  with b show ?thesis using pos_mod_sign[of 64 b1] by linarith
qed

lemma rune3_ge:
  assumes "224 \<le> (b0::int)" "b0 < 240" "b0 = 224 \<longrightarrow> 160 \<le> b1" "128 \<le> b1" "b1 \<le> 191"
  shows "128 \<le> (b0 mod 16) * 4096 + (b1 mod 64) * 64 + b2 mod 64"
proof -
  from assms have "b0 mod 16 = b0 - 224" and "b1 mod 64 = b1 - 128" by presburger+
  with assms show ?thesis using pos_mod_sign[of 64 b2] by (cases "b0 = 224") auto
qed

lemma rune4_ge:
  assumes "240 \<le> (b0::int)" "b0 \<le> 244" "b0 = 240 \<longrightarrow> 144 \<le> b1" "128 \<le> b1" "b1 \<le> 191"
  shows "128 \<le> (b0 mod 8) * 262144 + (b1 mod 64) * 4096 + (b2 mod 64) * 64 + b3 mod 64"
proof -
  from assms have "b0 mod 8 = b0 - 240" and "b1 mod 64 = b1 - 128" by presburger+
  with assms show ?thesis using pos_mod_sign[of 64 b2] pos_mod_sign[of 64 b3]
    by (cases "b0 = 240") auto
qed

lemma decode_multi_cases:
  assumes cl: "lead_class b0 = Some cl" and d: "decode_multi b0 cl cs = (r, n)"
    and ne: "(r, n) \<noteq> (rune_error, 1)"
  shows "2 \<le> n \<and> n \<le> Suc (length cs) \<and> 128 \<le> r \<and> (\<forall>x \<in> set (take (n - 1) cs). 128 \<le> byte_of x)"
proof -
  obtain k lo hi where t: "cl = (k, lo, hi)" by (cases cl)
  note l = lead_class_SomeD[OF cl[unfolded t]]
  from d ne t obtain c1 cs1 where cs: "cs = c1 # cs1" by (cases cs) auto
  with d ne t have c1: "lo \<le> byte_of c1" "byte_of c1 \<le> hi" by (auto simp: Let_def split: if_splits)
  from l show ?thesis
  proof (elim conjE disjE, goal_cases)
    case 1
    with c1 cs t d ne show ?thesis by (auto simp: rune2_ge)
  next
    case 2
    with c1 cs t d ne obtain c2 cs2 where cs1: "cs1 = c2 # cs2" "is_cont (byte_of c2)"
      by (auto simp: Let_def split: if_splits list.splits)
    with 2 c1 cs t d ne show ?thesis by (auto simp: is_cont_def intro!: rune3_ge)
  next
    case 3
    with c1 cs t d ne obtain c2 c3 cs3 where cs1: "cs1 = c2 # c3 # cs3" "is_cont (byte_of c2)"
       "is_cont (byte_of c3)"
      by (auto simp: Let_def split: if_splits list.splits)
    with 3 c1 cs t d ne have "n = 4" by auto
    with 3 c1 cs t d ne cs1 show ?thesis by (auto simp: is_cont_def numeral_3_eq_3 intro!: rune4_ge)
  qed
qed

lemma decode_multi_take:
  assumes cl: "lead_class b0 = Some cl" and d: "decode_multi b0 cl cs = (r, n)"
    and ne: "(r, n) \<noteq> (rune_error, 1)"
  shows "decode_multi b0 cl (take (n - 1) cs @ t) = (r, n)"
proof -
  obtain k lo hi where t: "cl = (k, lo, hi)" by (cases cl)
  note l = lead_class_SomeD[OF cl[unfolded t]]
  from d ne t obtain c1 cs1 where cs: "cs = c1 # cs1" by (cases cs) auto
  from l show ?thesis
    using d ne t cs
    by (elim conjE disjE) (auto simp: Let_def split: if_splits list.splits)
qed

text \<open>A non-empty string starts with an ASCII byte, with a byte that decodes to nothing, or
  with a rune of two to four bytes, all of them at least 128.\<close>

lemma decode_rune_cases [consumes 1, case_names ascii invalid multi]:
  assumes "s \<noteq> []"
  obtains (ascii) c cs where "s = c # cs" and "byte_of c < 128" and "decode_rune s = (byte_of c, 1)"
  | (invalid) "decode_rune s = (rune_error, 1)"
  | (multi) r n where "decode_rune s = (r, n)" and "2 \<le> n" and "n \<le> length s" and "128 \<le> r"
      and "\<forall>x \<in> set (take n s). 128 \<le> byte_of x"
      and "\<And>t. decode_rune (take n s @ t) = (r, n)"
proof (cases "decode_rune s = (rune_error, 1)")
  case True
  then show ?thesis by (rule invalid)
next
  case False
  from assms obtain c cs where s: "s = c # cs" by (cases s) auto
  show ?thesis
  proof (cases "byte_of c < 128")
    case True
    with s show ?thesis by (intro ascii) (auto simp: Let_def)
  next
    case big: False
    with s False obtain cl where cl: "lead_class (byte_of c) = Some cl"
      by (auto simp: Let_def split: option.splits)
    obtain r n where rn: "decode_rune s = (r, n)" by fastforce
    with s big cl have d: "decode_multi (byte_of c) cl cs = (r, n)" by (simp add: Let_def)
    from False rn have ne: "(r, n) \<noteq> (rune_error, 1)" by simp
    note m = decode_multi_cases[OF cl d ne]
    then obtain k where k: "n = Suc k" by (cases n) auto
    from m k big s have "\<forall>x \<in> set (take n s). 128 \<le> byte_of x" by auto
    moreover have "decode_rune (take n s @ t) = (r, n)" for t
      using decode_multi_take[OF cl d ne] big cl s k by (simp add: Let_def)
    ultimately show ?thesis using m rn s by (intro multi) auto
  qed
qed

section \<open>Iteration, validity and length\<close>

function runes :: "go_string \<Rightarrow> rune list" where
  "runes s = (if s = [] then [] else fst (decode_rune s) # runes (drop (snd (decode_rune s)) s))"
  by pat_completeness auto
termination
  by (relation "measure length") (auto simp: decode_rune_width_pos)

function valid_string :: "go_string \<Rightarrow> bool" where
  "valid_string s =
     (if s = [] then True
      else decode_rune s \<noteq> (rune_error, 1) \<and> valid_string (drop (snd (decode_rune s)) s))"
  by pat_completeness auto
termination
  by (relation "measure length") (auto simp: decode_rune_width_pos)

declare runes.simps [simp del] valid_string.simps [simp del]

definition rune_count :: "go_string \<Rightarrow> nat" where
  "rune_count s = length (runes s)"

definition contains_nul :: "go_string \<Rightarrow> bool" where
  "contains_nul s \<longleftrightarrow> list_ex (\<lambda>c. byte_of c = 0) s"

lemma runes_Nil [simp]: "runes [] = []"
  by (simp add: runes.simps)

lemma valid_string_Nil [simp]: "valid_string []"
  by (simp add: valid_string.simps)

lemma runes_nonempty: "s \<noteq> [] \<Longrightarrow> runes s \<noteq> []"
  by (subst runes.simps) simp

lemma rune_count_pos: "s \<noteq> [] \<Longrightarrow> 0 < rune_count s"
  by (simp add: rune_count_def runes_nonempty)

lemma rune_count_le_length: "rune_count s \<le> length s"
proof (induction s rule: runes.induct)
  case (1 s)
  show ?case
  proof (cases "s = []")
    case False
    with decode_rune_width_pos[OF False]
    have "length (drop (snd (decode_rune s)) s) < length s" by simp
    with False "1.IH"[OF False] show ?thesis
      by (simp add: rune_count_def runes.simps[of s])
  qed (simp add: rune_count_def)
qed

lemma runes_ascii_Cons: "byte_of c < 128 \<Longrightarrow> runes (c # s) = byte_of c # runes s"
  by (subst runes.simps) (simp add: Let_def)

lemma valid_string_ascii_Cons [simp]: "byte_of c < 128 \<Longrightarrow> valid_string (c # s) = valid_string s"
  by (subst valid_string.simps) (simp add: Let_def rune_error_def)

lemma rune_count_ascii: "\<forall>c \<in> set s. byte_of c < 128 \<Longrightarrow> rune_count s = length s"
  by (induction s) (auto simp: rune_count_def runes_ascii_Cons)

lemma valid_string_ascii: "\<forall>c \<in> set s. byte_of c < 128 \<Longrightarrow> valid_string s"
  by (induction s) auto

section \<open>Trimming\<close>

text \<open>\<^verbatim>\<open>unicode.IsSpace\<close>: the White_Space code points.\<close>

definition is_space :: "rune \<Rightarrow> bool" where
  "is_space r \<longleftrightarrow>
     r \<in> {9, 10, 11, 12, 13, 32, 133, 160, 5760, 8232, 8233, 8239, 8287, 12288} \<or>
     (8192 \<le> r \<and> r \<le> 8202)"

lemma rune_error_not_space [simp]: "\<not> is_space rune_error"
  by (simp add: is_space_def rune_error_def)

lemma decode_last_rune_width_pos: "s \<noteq> [] \<Longrightarrow> 0 < snd (decode_last_rune s)"
  by (auto simp: decode_last_rune_def Let_def split: option.splits prod.splits if_splits)

function trim_left :: "go_string \<Rightarrow> go_string" where
  "trim_left s =
     (if s \<noteq> [] \<and> is_space (fst (decode_rune s))
      then trim_left (drop (snd (decode_rune s)) s) else s)"
  by pat_completeness auto
termination
  by (relation "measure length") (auto simp: decode_rune_width_pos)

function trim_right :: "go_string \<Rightarrow> go_string" where
  "trim_right s =
     (if s \<noteq> [] \<and> is_space (fst (decode_last_rune s))
      then trim_right (take (length s - snd (decode_last_rune s)) s) else s)"
  by pat_completeness auto
termination
  by (relation "measure length") (auto simp: decode_last_rune_width_pos)

declare trim_left.simps [simp del] trim_right.simps [simp del]

definition trim_space :: "go_string \<Rightarrow> go_string" where
  "trim_space s = trim_right (trim_left s)"

lemma trim_left_stop: "s = [] \<or> \<not> is_space (fst (decode_rune s)) \<Longrightarrow> trim_left s = s"
  by (auto simp: trim_left.simps[of s])

lemma trim_left_head:
  "trim_left s = [] \<or> \<not> is_space (fst (decode_rune (trim_left s)))"
proof (induction s rule: trim_left.induct)
  case (1 s)
  show ?case
  proof (cases "s \<noteq> [] \<and> is_space (fst (decode_rune s))")
    case True
    with "1.IH"[OF True] show ?thesis by (simp add: trim_left.simps[of s])
  next
    case False
    then have "trim_left s = s" by (auto intro: trim_left_stop)
    with False show ?thesis by auto
  qed
qed

lemma trim_left_idem [simp]: "trim_left (trim_left s) = trim_left s"
  using trim_left_head by (rule trim_left_stop)

lemma trim_right_stop: "s = [] \<or> \<not> is_space (fst (decode_last_rune s)) \<Longrightarrow> trim_right s = s"
  by (auto simp: trim_right.simps[of s])

lemma trim_right_last:
  "trim_right s = [] \<or> \<not> is_space (fst (decode_last_rune (trim_right s)))"
proof (induction s rule: trim_right.induct)
  case (1 s)
  show ?case
  proof (cases "s \<noteq> [] \<and> is_space (fst (decode_last_rune s))")
    case True
    with "1.IH"[OF True] show ?thesis by (simp add: trim_right.simps[of s])
  next
    case False
    then have "trim_right s = s" by (auto intro: trim_right_stop)
    with False show ?thesis by auto
  qed
qed

lemma trim_right_idem [simp]: "trim_right (trim_right s) = trim_right s"
  using trim_right_last by (rule trim_right_stop)

lemma trim_right_prefix: "\<exists>t. s = trim_right s @ t"
proof (induction s rule: trim_right.induct)
  case (1 s)
  show ?case
  proof (cases "s \<noteq> [] \<and> is_space (fst (decode_last_rune s))")
    case True
    let ?u = "take (length s - snd (decode_last_rune s)) s"
    from "1.IH"[OF True] obtain t where t: "?u = trim_right ?u @ t" ..
    have "s = ?u @ drop (length s - snd (decode_last_rune s)) s" by simp
    also have "\<dots> = trim_right ?u @ t @ drop (length s - snd (decode_last_rune s)) s"
      using t by (metis append_assoc)
    finally have "\<exists>t. s = trim_right ?u @ t" by blast
    moreover have "trim_right s = trim_right ?u" using True by (simp add: trim_right.simps[of s])
    ultimately show ?thesis by simp
  next
    case False
    then have "trim_right s = s" by (auto intro: trim_right_stop)
    then have "s = trim_right s @ []" by simp
    then show ?thesis by blast
  qed
qed

lemma trim_left_suffix: "\<exists>t. s = t @ trim_left s"
proof (induction s rule: trim_left.induct)
  case (1 s)
  show ?case
  proof (cases "s \<noteq> [] \<and> is_space (fst (decode_rune s))")
    case True
    let ?n = "snd (decode_rune s)"
    from "1.IH"[OF True] obtain t where t: "drop ?n s = t @ trim_left (drop ?n s)" ..
    have "s = take ?n s @ drop ?n s" by simp
    also have "\<dots> = (take ?n s @ t) @ trim_left (drop ?n s)" using t by (metis append_assoc)
    finally have "\<exists>t. s = t @ trim_left (drop ?n s)" by blast
    moreover have "trim_left s = trim_left (drop ?n s)" using True by (simp add: trim_left.simps[of s])
    ultimately show ?thesis by simp
  next
    case False
    then have "trim_left s = s" by (auto intro: trim_left_stop)
    then have "s = [] @ trim_left s" by simp
    then show ?thesis by blast
  qed
qed

text \<open>Trimming the right end uncovers no space at the left end: a space that decodes at the
  front of the shorter string would decode at the front of the longer one too.\<close>

lemma trim_left_trim_right:
  assumes "trim_left s = s"
  shows "trim_left (trim_right s) = trim_right s"
proof (rule trim_left_stop, rule disjCI)
  assume sp: "\<not> \<not> is_space (fst (decode_rune (trim_right s)))"
  obtain t where t: "s = trim_right s @ t" using trim_right_prefix by blast
  from sp have "fst (decode_rune (trim_right s)) \<noteq> rune_error" by auto
  with t have "decode_rune s = decode_rune (trim_right s)" by (metis decode_rune_append)
  with sp have "is_space (fst (decode_rune s))" by simp
  with trim_left_head[of s] assms have "s = []" by auto
  with t show "trim_right s = []" by simp
qed

lemma trim_space_idem [simp]: "trim_space (trim_space s) = trim_space s"
  by (simp add: trim_space_def trim_left_trim_right)

lemma trim_space_Nil [simp]: "trim_space [] = []"
  by (simp add: trim_space_def trim_left_stop trim_right_stop)

lemma trim_space_infix: "\<exists>t u. s = t @ trim_space s @ u"
proof -
  obtain t where "s = t @ trim_left s" using trim_left_suffix by blast
  moreover obtain u where "trim_left s = trim_space s @ u"
    using trim_right_prefix by (auto simp: trim_space_def)
  ultimately have "s = t @ trim_space s @ u" by metis
  then show ?thesis by blast
qed

lemma length_trim_space_le: "length (trim_space s) \<le> length s"
  by (metis trim_space_infix length_append le_add1 le_add2 le_trans)

text \<open>ASCII white space around a text that starts and ends with an ASCII byte that is none goes.\<close>

definition ascii_space :: "char \<Rightarrow> bool" where
  "ascii_space c \<longleftrightarrow> byte_of c < 128 \<and> is_space (byte_of c)"

definition plain_ends :: "go_string \<Rightarrow> bool" where
  "plain_ends s \<longleftrightarrow> s \<noteq> [] \<and> byte_of (hd s) < 128 \<and> \<not> is_space (byte_of (hd s)) \<and>
     byte_of (last s) < 128 \<and> \<not> is_space (byte_of (last s))"

lemma trim_left_spaces: "\<forall>c \<in> set p. ascii_space c \<Longrightarrow> trim_left (p @ s) = trim_left s"
  by (induction p) (auto simp: trim_left.simps[of "_ # _"] ascii_space_def Let_def)

lemma trim_right_spaces: "\<forall>c \<in> set q. ascii_space c \<Longrightarrow> trim_right (s @ q) = trim_right s"
proof (induction q rule: rev_induct)
  case (snoc c q)
  have "trim_right ((s @ q) @ [c]) = trim_right (s @ q)"
    using snoc.prems by (subst trim_right.simps) (simp add: decode_last_rune_def ascii_space_def)
  with snoc show ?case by simp
qed simp

lemma trim_space_plain:
  assumes "\<forall>c \<in> set p. ascii_space c" "\<forall>c \<in> set q. ascii_space c" "plain_ends s"
  shows "trim_space (p @ s @ q) = s"
proof -
  have "trim_left (p @ s @ q) = s @ q"
    using assms by (cases s) (auto simp: trim_left_spaces plain_ends_def Let_def intro!: trim_left_stop)
  moreover have "trim_right (s @ q) = s"
    using assms by (simp add: trim_right_spaces plain_ends_def decode_last_rune_def trim_right_stop)
  ultimately show ?thesis by (simp add: trim_space_def)
qed

section \<open>Hexadecimal\<close>

definition hex_digit :: "int \<Rightarrow> char" where
  "hex_digit n = ''0123456789abcdef'' ! nat (n mod 16)"

primrec hex_encode :: "8 word list \<Rightarrow> go_string" where
  "hex_encode [] = []"
| "hex_encode (b # bs) = hex_digit (uint b div 16) # hex_digit (uint b mod 16) # hex_encode bs"

lemma length_hex_encode [simp]: "length (hex_encode bs) = 2 * length bs"
  by (induction bs) auto

definition hex_chars :: "char list" where
  "hex_chars = ''0123456789abcdef''"

lemma hex_digit_in [simp]: "hex_digit n \<in> set hex_chars"
proof -
  have "nat (n mod 16) < length ''0123456789abcdef''" by (simp add: nat_less_iff)
  then have "''0123456789abcdef'' ! nat (n mod 16) \<in> set ''0123456789abcdef''" by (rule nth_mem)
  then show ?thesis by (simp only: hex_digit_def hex_chars_def)
qed

lemma hex_encode_chars: "set (hex_encode bs) \<subseteq> set hex_chars"
  by (induction bs) auto

end
