(* ===== verification/Go_Json.thy ===== *)
theory Go_Json
  imports Go_Strings
begin

text \<open>
  The parts of Go's \<^verbatim>\<open>encoding/json\<close>, \<^verbatim>\<open>strconv\<close> and \<^verbatim>\<open>time\<close> packages that the service uses.
  \<^item> \<open>json_print\<close> is \<^verbatim>\<open>json.Marshal\<close> on the values the service marshals (strings, integers,
    structs and string maps as objects in field order), with the HTML-safe escaping of
    \<^verbatim>\<open>json.Marshal\<close>; \<open>json_encode\<close> is \<^verbatim>\<open>Encoder.Encode\<close>, which adds a newline.
  \<^item> \<open>json_valid\<close> is \<^verbatim>\<open>json.Valid\<close>, a recogniser of one JSON value with white space
    around it.
  \<^item> \<open>rfc3339_nano\<close> is \<^verbatim>\<open>t.UTC().Format(time.RFC3339Nano)\<close> on a timestamp in microseconds.
  What is printed is valid JSON and valid UTF-8, whatever the strings in it hold.
\<close>

section \<open>Decimal numbers\<close>

definition dec_digit :: "int \<Rightarrow> char" where
  "dec_digit n = ''0123456789'' ! nat (n mod 10)"

function show_pos :: "int \<Rightarrow> go_string" where
  "show_pos n = (if n < 10 then [dec_digit n] else show_pos (n div 10) @ [dec_digit n])"
  by pat_completeness auto
termination
  by (relation "measure nat") auto

declare show_pos.simps [simp del]

definition show_int :: "int \<Rightarrow> go_string" where
  "show_int i = (if i < 0 then CHR ''-'' # show_pos (- i) else show_pos i)"

text \<open>Zero-padded to a width, as the date and time layouts print.\<close>

definition pad_int :: "nat \<Rightarrow> int \<Rightarrow> go_string" where
  "pad_int w n = replicate (w - length (show_pos n)) (CHR ''0'') @ show_pos n"

section \<open>Printing\<close>

datatype json =
    JString go_string
  | JInt int
  | JObject "(go_string \<times> json) list"

definition hex4 :: "int \<Rightarrow> go_string" where
  "hex4 n = CHR 0x5C # CHR ''u'' # hex_digit (n div 4096) # hex_digit (n div 256 mod 16)
              # hex_digit (n div 16 mod 16) # [hex_digit (n mod 16)]"

definition escape_rune :: "rune \<Rightarrow> nat \<Rightarrow> go_string \<Rightarrow> go_string" where
  "escape_rune r n bs =
     (if r = 34 \<or> r = 92 then CHR 0x5C # bs
      else if r = 8 then [CHR 0x5C, CHR ''b'']
      else if r = 12 then [CHR 0x5C, CHR ''f'']
      else if r = 10 then [CHR 0x5C, CHR ''n'']
      else if r = 13 then [CHR 0x5C, CHR ''r'']
      else if r = 9 then [CHR 0x5C, CHR ''t'']
      else if r < 32 \<or> r \<in> {60, 62, 38} \<or> r \<in> {8232, 8233} then hex4 r
      else if r = rune_error \<and> n = 1 then hex4 rune_error
      else bs)"

function json_escape :: "go_string \<Rightarrow> go_string" where
  "json_escape s =
     (if s = [] then []
      else escape_rune (fst (decode_rune s)) (snd (decode_rune s)) (take (snd (decode_rune s)) s)
             @ json_escape (drop (snd (decode_rune s)) s))"
  by pat_completeness auto
termination
  by (relation "measure length") (auto simp: decode_rune_width_pos)

declare json_escape.simps [simp del]

definition json_quote :: "go_string \<Rightarrow> go_string" where
  "json_quote s = CHR 0x22 # json_escape s @ [CHR 0x22]"

fun join_comma :: "go_string list \<Rightarrow> go_string" where
  "join_comma [] = []"
| "join_comma [x] = x"
| "join_comma (x # y # zs) = x @ CHR '','' # join_comma (y # zs)"

fun json_print :: "json \<Rightarrow> go_string" where
  "json_print (JString s) = json_quote s"
| "json_print (JInt i) = show_int i"
| "json_print (JObject kvs) =
     CHR ''{'' # join_comma (map (\<lambda>(k, v). json_quote k @ CHR '':'' # json_print v) kvs)
       @ [CHR ''}'']"

definition json_encode :: "json \<Rightarrow> go_string" where
  "json_encode v = json_print v @ [CHR 0x0A]"

section \<open>Recognising\<close>

definition is_json_ws :: "char \<Rightarrow> bool" where
  "is_json_ws c \<longleftrightarrow> c \<in> {CHR '' '', CHR 0x09, CHR 0x0A, CHR 0x0D}"

definition skip_ws :: "go_string \<Rightarrow> go_string" where
  "skip_ws s = dropWhile is_json_ws s"

definition is_digit :: "char \<Rightarrow> bool" where
  "is_digit c \<longleftrightarrow> 48 \<le> byte_of c \<and> byte_of c \<le> 57"

definition is_hex :: "char \<Rightarrow> bool" where
  "is_hex c \<longleftrightarrow> is_digit c \<or> (97 \<le> byte_of c \<and> byte_of c \<le> 102)
                \<or> (65 \<le> byte_of c \<and> byte_of c \<le> 70)"

definition simple_escape :: "char \<Rightarrow> bool" where
  "simple_escape e \<longleftrightarrow>
     e \<in> {CHR 0x22, CHR 0x5C, CHR ''/'', CHR ''b'', CHR ''f'', CHR ''n'', CHR ''r'', CHR ''t''}"

text \<open>The rest of the input after a string whose opening quote is consumed.\<close>

fun scan_string :: "go_string \<Rightarrow> go_string option" where
  "scan_string [] = None"
| "scan_string (c # s) =
     (if c = CHR 0x22 then Some s
      else if c = CHR 0x5C then
        (case s of
           [] \<Rightarrow> None
         | e # s1 \<Rightarrow>
             if simple_escape e then scan_string s1
             else if e = CHR ''u'' then
               (case s1 of
                  h1 # h2 # h3 # h4 # s2 \<Rightarrow>
                    if is_hex h1 \<and> is_hex h2 \<and> is_hex h3 \<and> is_hex h4 then scan_string s2
                    else None
                | _ \<Rightarrow> None)
             else None)
      else if byte_of c < 32 then None
      else scan_string s)"

definition scan_digits :: "go_string \<Rightarrow> go_string option" where
  "scan_digits s =
     (case s of [] \<Rightarrow> None | c # _ \<Rightarrow> if is_digit c then Some (dropWhile is_digit s) else None)"

definition scan_exponent :: "go_string \<Rightarrow> go_string option" where
  "scan_exponent s =
     (case s of
        e # s1 \<Rightarrow>
          if e = CHR ''e'' \<or> e = CHR ''E'' then
            scan_digits (case s1 of
                sg # s2 \<Rightarrow> if sg = CHR ''+'' \<or> sg = CHR ''-'' then s2 else s1
              | [] \<Rightarrow> s1)
          else Some s
      | [] \<Rightarrow> Some s)"

definition scan_fraction :: "go_string \<Rightarrow> go_string option" where
  "scan_fraction s =
     (case s of
        d # s1 \<Rightarrow>
          if d = CHR ''.'' then Option.bind (scan_digits s1) scan_exponent else scan_exponent s
      | [] \<Rightarrow> Some s)"

definition scan_unsigned :: "go_string \<Rightarrow> go_string option" where
  "scan_unsigned s =
     (case s of
        [] \<Rightarrow> None
      | c # t \<Rightarrow>
          if c = CHR ''0'' then scan_fraction t
          else Option.bind (scan_digits s) scan_fraction)"

definition scan_number :: "go_string \<Rightarrow> go_string option" where
  "scan_number s =
     scan_unsigned (case s of c # t \<Rightarrow> if c = CHR ''-'' then t else s | [] \<Rightarrow> s)"

definition scan_literal :: "string \<Rightarrow> go_string \<Rightarrow> go_string option" where
  "scan_literal l s = (if take (length l) s = l then Some (drop (length l) s) else None)"

lemma skip_ws_length: "length (skip_ws s) \<le> length s"
  by (simp add: skip_ws_def length_dropWhile_le)

lemma scan_string_length: "scan_string s = Some r \<Longrightarrow> length r < length s"
proof (induction s rule: scan_string.induct)
  case (2 c s)
  consider (quote) "c = CHR 0x22" | (esc) "c = CHR 0x5C" | (other) "c \<noteq> CHR 0x22" "c \<noteq> CHR 0x5C"
    by blast
  then show ?case
  proof cases
    case esc
    with 2 show ?thesis by (fastforce split: if_splits list.splits)
  qed (use 2 in \<open>auto split: if_splits\<close>)
qed simp

lemma skip_ws_ConsD: "skip_ws s = c # r \<Longrightarrow> length r < length s"
  using skip_ws_length[of s] by simp

text \<open>Every result of a recursive call is shorter than its input; the comparisons of lengths
  below only make that visible to the termination proof.\<close>

function scan_value :: "go_string \<Rightarrow> go_string option"
  and scan_members :: "go_string \<Rightarrow> go_string option"
  and scan_elements :: "go_string \<Rightarrow> go_string option" where
  "scan_value s =
     (case skip_ws s of
        [] \<Rightarrow> None
      | c # r \<Rightarrow>
          if c = CHR 0x22 then scan_string r
          else if c = CHR ''{'' then
            (case skip_ws r of
               q # r1 \<Rightarrow> if q = CHR ''}'' then Some r1 else scan_members r
             | [] \<Rightarrow> None)
          else if c = CHR ''['' then
            (case skip_ws r of
               q # r1 \<Rightarrow> if q = CHR '']'' then Some r1 else scan_elements r
             | [] \<Rightarrow> None)
          else if c = CHR ''t'' then scan_literal ''true'' (c # r)
          else if c = CHR ''f'' then scan_literal ''false'' (c # r)
          else if c = CHR ''n'' then scan_literal ''null'' (c # r)
          else scan_number (c # r))"
| "scan_members s =
     (case skip_ws s of
        [] \<Rightarrow> None
      | q # r \<Rightarrow>
          if q \<noteq> CHR 0x22 then None
          else (case scan_string r of
              None \<Rightarrow> None
            | Some r1 \<Rightarrow>
                (case skip_ws r1 of
                   [] \<Rightarrow> None
                 | k # r2 \<Rightarrow>
                     if k \<noteq> CHR '':'' \<or> length s \<le> length r2 then None
                     else (case scan_value r2 of
                         None \<Rightarrow> None
                       | Some r3 \<Rightarrow>
                           (case skip_ws r3 of
                              [] \<Rightarrow> None
                            | e # r4 \<Rightarrow>
                                if e = CHR ''}'' then Some r4
                                else if e = CHR '','' \<and> length r4 < length s then scan_members r4
                                else None)))))"
| "scan_elements s =
     (if length s = 0 then None
      else (case skip_ws s of
          [] \<Rightarrow> None
        | c # r \<Rightarrow>
            (if c = CHR 0x22 \<or> c = CHR ''{'' \<or> c = CHR ''['' \<or> c = CHR ''t'' \<or> c = CHR ''f''
                \<or> c = CHR ''n'' \<or> c = CHR ''-'' \<or> is_digit c
             then (case scan_value s of
                 None \<Rightarrow> None
               | Some r3 \<Rightarrow>
                   (case skip_ws r3 of
                      [] \<Rightarrow> None
                    | e # r4 \<Rightarrow>
                        if e = CHR '']'' then Some r4
                        else if e = CHR '','' \<and> length r4 < length s then scan_elements r4
                        else None))
             else None)))"
  by pat_completeness auto
termination
  by (relation "measure (case_sum (\<lambda>s. 2 * length s)
        (case_sum (\<lambda>s. 2 * length s) (\<lambda>s. 2 * length s + 1)))")
     (auto dest: skip_ws_ConsD)

declare scan_value.simps [simp del] scan_members.simps [simp del] scan_elements.simps [simp del]

definition json_valid :: "go_string \<Rightarrow> bool" where
  "json_valid s = (case scan_value s of None \<Rightarrow> False | Some r \<Rightarrow> skip_ws r = [])"

section \<open>Dates and times\<close>

text \<open>Year, month and day of a day number (days since 1970-01-01) in the proleptic Gregorian
  calendar, by eras of 400 years that begin in March.\<close>

definition civil_from_days :: "int \<Rightarrow> int \<times> int \<times> int" where
  "civil_from_days days =
     (let z = days + 719468;
          era = z div 146097;
          doe = z mod 146097;
          yoe = (doe - doe div 1460 + doe div 36524 - doe div 146096) div 365;
          doy = doe - (365 * yoe + yoe div 4 - yoe div 100);
          mp = (5 * doy + 2) div 153;
          d = doy - (153 * mp + 2) div 5 + 1;
          m = (if mp < 10 then mp + 3 else mp - 9);
          y = yoe + era * 400 + (if m \<le> 2 then 1 else 0)
      in (y, m, d))"

definition micros_per_day :: int where
  "micros_per_day = 86400000000"

definition year_of :: "timestamp \<Rightarrow> int" where
  "year_of t = fst (civil_from_days (t div micros_per_day))"

text \<open>Years are printed with at least four digits, the fraction without trailing zeros.\<close>

definition show_year :: "int \<Rightarrow> go_string" where
  "show_year y = (if y < 0 then CHR ''-'' # pad_int 4 (- y) else pad_int 4 y)"

definition show_fraction :: "int \<Rightarrow> go_string" where
  "show_fraction us =
     (if us = 0 then []
      else CHR ''.'' # rev (dropWhile (\<lambda>c. c = CHR ''0'') (rev (pad_int 6 us))))"

definition rfc3339_nano :: "timestamp \<Rightarrow> go_string" where
  "rfc3339_nano t =
     (let (y, m, d) = civil_from_days (t div micros_per_day);
          us = t mod micros_per_day;
          s = us div 1000000
      in show_year y @ ''-'' @ pad_int 2 m @ ''-'' @ pad_int 2 d @ ''T''
           @ pad_int 2 (s div 3600) @ '':'' @ pad_int 2 (s div 60 mod 60) @ '':''
           @ pad_int 2 (s mod 60) @ show_fraction (us mod 1000000) @ ''Z'')"

section \<open>What is printed is valid\<close>

lemma hex_chars_hex: "c \<in> set hex_chars \<Longrightarrow> is_hex c \<and> byte_of c < 128"
  by (auto simp: hex_chars_def is_hex_def is_digit_def)

lemma is_hex_hex_digit [simp]: "is_hex (hex_digit n)"
  using hex_chars_hex[OF hex_digit_in] by blast

lemma byte_hex_digit [simp]: "byte_of (hex_digit n) < 128"
  using hex_chars_hex[OF hex_digit_in] by blast

lemma scan_hex4 [simp]: "scan_string (hex4 n @ t) = scan_string t"
  by (simp add: hex4_def simple_escape_def)

lemma valid_hex4 [simp]: "valid_string (hex4 n @ t) = valid_string t"
  by (simp add: hex4_def)

lemma scan_string_high: "\<forall>x \<in> set bs. 128 \<le> byte_of x \<Longrightarrow> scan_string (bs @ t) = scan_string t"
proof (induction bs)
  case (Cons b bs)
  then have "b \<noteq> CHR 0x22" and "b \<noteq> CHR 0x5C" and "\<not> byte_of b < 32" by auto
  with Cons show ?case by simp
qed simp

lemma valid_string_rune:
  assumes "\<And>t. decode_rune (take n s @ t) = (r, n)" "2 \<le> n" "n \<le> length s"
  shows "valid_string (take n s @ t) = valid_string t"
proof -
  from assms have ne: "take n s @ t \<noteq> []" by auto
  show ?thesis using assms ne by (simp add: valid_string.simps[of "take n s @ t"])
qed

lemma escape_multi: "128 \<le> r \<Longrightarrow> 2 \<le> n \<Longrightarrow>
    escape_rune r n bs = (if r \<in> {8232, 8233} then hex4 r else bs)"
  by (auto simp: escape_rune_def)

lemma escape_piece:
  assumes "s \<noteq> []"
  defines "p \<equiv> escape_rune (fst (decode_rune s)) (snd (decode_rune s)) (take (snd (decode_rune s)) s)"
  shows "scan_string (p @ t) = scan_string t" and "valid_string (p @ t) = valid_string t"
proof -
  have "scan_string (p @ t) = scan_string t \<and> valid_string (p @ t) = valid_string t"
    using assms(1)
  proof (cases s rule: decode_rune_cases)
    case (ascii c cs)
    then have p: "p = escape_rune (byte_of c) 1 [c]" by (simp add: p_def)
    consider "byte_of c = 34" | "byte_of c = 92" | "byte_of c < 32"
      | "32 \<le> byte_of c" "byte_of c \<noteq> 34" "byte_of c \<noteq> 92" by linarith
    then show ?thesis
    proof cases
      case 1
      then have "byte_of c = byte_of (CHR 0x22)" by simp
      then have "c = CHR 0x22" by (simp only: of_char_eq_iff)
      then show ?thesis by (simp add: p escape_rune_def simple_escape_def)
    next
      case 2
      then have "byte_of c = byte_of (CHR 0x5C)" by simp
      then have "c = CHR 0x5C" by (simp only: of_char_eq_iff)
      then show ?thesis by (simp add: p escape_rune_def simple_escape_def)
    next
      case 3
      then show ?thesis by (simp add: p escape_rune_def simple_escape_def)
    next
      case 4
      then have "c \<noteq> CHR 0x22" "c \<noteq> CHR 0x5C" by auto
      with 4 ascii show ?thesis by (auto simp: p escape_rune_def rune_error_def)
    qed
  next
    case invalid
    then have "p = hex4 rune_error" by (simp add: p_def escape_rune_def rune_error_def)
    then show ?thesis by simp
  next
    case (multi r n)
    then have "p = (if r \<in> {8232, 8233} then hex4 r else take n s)"
      by (simp add: p_def escape_multi)
    with multi show ?thesis by (simp add: scan_string_high valid_string_rune)
  qed
  then show "scan_string (p @ t) = scan_string t" and "valid_string (p @ t) = valid_string t"
    by simp_all
qed

lemma scan_json_escape: "scan_string (json_escape s @ CHR 0x22 # t) = Some t"
proof (induction s rule: json_escape.induct)
  case (1 s)
  show ?case
  proof (cases "s = []")
    case False
    with 1 show ?thesis by (simp add: json_escape.simps[of s] escape_piece)
  qed (simp add: json_escape.simps)
qed

lemma valid_json_escape: "valid_string (json_escape s @ t) = valid_string t"
proof (induction s rule: json_escape.induct)
  case (1 s)
  show ?case
  proof (cases "s = []")
    case False
    with 1 show ?thesis by (simp add: json_escape.simps[of s] escape_piece)
  qed (simp add: json_escape.simps)
qed

lemma valid_json_quote [simp]: "valid_string (json_quote s @ t) = valid_string t"
  by (simp add: json_quote_def valid_json_escape)

lemma dec_digit_in: "dec_digit n \<in> set ''0123456789''"
proof -
  have "nat (n mod 10) < length ''0123456789''" by (simp add: nat_less_iff)
  then show ?thesis unfolding dec_digit_def by (rule nth_mem)
qed

lemma dec_digit_simps [simp]: "is_digit (dec_digit n)" "byte_of (dec_digit n) < 128"
  using dec_digit_in[of n] by (auto simp: is_digit_def)

lemma dec_digit_zero: "dec_digit n = CHR ''0'' \<Longrightarrow> n mod 10 = 0"
proof -
  assume "dec_digit n = CHR ''0''"
  moreover have "n mod 10 = 0 \<or> n mod 10 = 1 \<or> n mod 10 = 2 \<or> n mod 10 = 3 \<or> n mod 10 = 4 \<or>
      n mod 10 = 5 \<or> n mod 10 = 6 \<or> n mod 10 = 7 \<or> n mod 10 = 8 \<or> n mod 10 = 9"
    by presburger
  ultimately show ?thesis by (auto simp: dec_digit_def)
qed

lemma show_pos_digits: "\<forall>c \<in> set (show_pos n). is_digit c \<and> byte_of c < 128"
proof (induction n rule: show_pos.induct)
  case (1 n)
  then show ?case by (cases "n < 10") (auto simp: show_pos.simps[of n])
qed

lemma show_pos_nonempty: "show_pos n \<noteq> []"
  by (subst show_pos.simps) simp

lemma show_pos_hd: "0 < n \<Longrightarrow> hd (show_pos n) \<noteq> CHR ''0''"
proof (induction n rule: show_pos.induct)
  case (1 n)
  then show ?case
    using dec_digit_zero[of n]
    by (cases "n < 10") (auto simp: show_pos.simps[of n] hd_append show_pos_nonempty)
qed

text \<open>What may follow a printed number.\<close>

definition number_end :: "go_string \<Rightarrow> bool" where
  "number_end t \<longleftrightarrow> t = [] \<or> hd t \<in> {CHR '','', CHR ''}''}"

lemma scan_fraction_end: "number_end t \<Longrightarrow> scan_fraction t = Some t"
  by (auto simp: number_end_def scan_fraction_def scan_exponent_def neq_Nil_conv split: list.splits)

lemma dropWhile_digits:
  "\<forall>c \<in> set ds. is_digit c \<Longrightarrow> number_end t \<Longrightarrow> dropWhile is_digit (ds @ t) = t"
  by (induction ds) (auto simp: number_end_def neq_Nil_conv is_digit_def dropWhile_eq_self_iff)

lemma scan_show_pos:
  assumes n: "0 \<le> n" and t: "number_end t"
  shows "scan_unsigned (show_pos n @ t) = Some t"
proof (cases "n = 0")
  case True
  have "show_pos 0 = ''0''" by (subst show_pos.simps) (simp add: dec_digit_def)
  with True t show ?thesis by (simp add: scan_unsigned_def scan_fraction_end)
next
  case False
  obtain c u where cu: "show_pos n = c # u" using show_pos_nonempty by (cases "show_pos n") auto
  moreover have "dropWhile is_digit ((c # u) @ t) = t"
    using show_pos_digits[of n] t cu by (intro dropWhile_digits) auto
  moreover have "c \<noteq> CHR ''0''" and "is_digit c"
    using show_pos_hd[of n] show_pos_digits[of n] n False cu by auto
  ultimately show ?thesis using t by (simp add: scan_unsigned_def scan_digits_def scan_fraction_end)
qed

lemma scan_show_int: "number_end t \<Longrightarrow> scan_number (show_int i @ t) = Some t"
proof -
  assume t: "number_end t"
  obtain c u where cu: "show_pos i = c # u" using show_pos_nonempty by (cases "show_pos i") auto
  with show_pos_digits[of i] have "c \<noteq> CHR ''-''" by (auto simp: is_digit_def)
  with cu t scan_show_pos[of i t] scan_show_pos[of "- i" t] show ?thesis
    by (auto simp: scan_number_def show_int_def)
qed

lemma skip_ws_stop: "\<not> is_json_ws c \<Longrightarrow> skip_ws (c # s) = c # s"
  by (simp add: skip_ws_def)

lemma show_int_hd:
  obtains c u where "show_int i = c # u" and "c = CHR ''-'' \<or> is_digit c"
proof (cases "i < 0")
  case False
  obtain c u where cu: "show_pos i = c # u" using show_pos_nonempty by (cases "show_pos i") auto
  with show_pos_digits[of i] False show ?thesis by (intro that[of c u]) (auto simp: show_int_def)
qed (auto simp: show_int_def intro: that)

lemma scan_value_quote: "scan_value (json_quote s @ t) = Some t"
  by (simp add: scan_value.simps json_quote_def skip_ws_stop is_json_ws_def scan_json_escape)

lemma scan_value_int: "number_end t \<Longrightarrow> scan_value (show_int i @ t) = Some t"
proof -
  assume t: "number_end t"
  obtain c u where cu: "show_int i = c # u" and c: "c = CHR ''-'' \<or> is_digit c"
    by (rule show_int_hd)
  from c have "\<not> is_json_ws c" and
    "c \<notin> {CHR 0x22, CHR ''{'', CHR ''['', CHR ''t'', CHR ''f'', CHR ''n''}"
    by (auto simp: is_json_ws_def is_digit_def)
  with cu scan_show_int[OF t, of i] show ?thesis
    by (simp add: scan_value.simps[of "c # u @ t"] skip_ws_stop)
qed

abbreviation print_member :: "go_string \<times> json \<Rightarrow> go_string" where
  "print_member kv \<equiv> json_quote (fst kv) @ CHR '':'' # json_print (snd kv)"

lemma scan_member_step:
  assumes "\<And>u. number_end u \<Longrightarrow> scan_value (json_print (snd kv) @ u) = Some u"
    and "t = CHR ''}'' # r \<or> t = CHR '','' # r"
  shows "scan_members (print_member kv @ t) =
    (if hd t = CHR ''}'' then Some r else scan_members r)"
proof -
  have v: "scan_value (json_print (snd kv) @ t) = Some t"
    using assms by (auto simp: number_end_def)
  show ?thesis using assms(2) v
    by (subst scan_members.simps)
       (auto simp: json_quote_def skip_ws_stop is_json_ws_def scan_json_escape)
qed

lemma scan_members_print:
  assumes "\<And>kv u. kv \<in> set kvs \<Longrightarrow> number_end u \<Longrightarrow> scan_value (json_print (snd kv) @ u) = Some u"
    and "kvs \<noteq> []"
  shows "scan_members (join_comma (map print_member kvs) @ CHR ''}'' # t) = Some t"
  using assms
proof (induction kvs rule: induct_list012)
  case (2 kv)
  then show ?case using scan_member_step[of kv "CHR ''}'' # t" t] by simp
next
  case (3 kv kv2 kvs)
  then show ?case
    using scan_member_step[of kv "CHR '','' # join_comma (map print_member (kv2 # kvs)) @ CHR ''}'' # t"
        "join_comma (map print_member (kv2 # kvs)) @ CHR ''}'' # t"]
    by simp
qed simp

lemma join_comma_hd: "kvs \<noteq> [] \<Longrightarrow> \<exists>u. join_comma (map print_member kvs) = CHR 0x22 # u"
  by (induction kvs rule: induct_list012) (auto simp: json_quote_def)

lemma scan_json_print: "number_end t \<Longrightarrow> scan_value (json_print v @ t) = Some t"
proof (induction v arbitrary: t rule: json_print.induct)
  case (3 kvs)
  have p: "json_print (JObject kvs) = CHR ''{'' # join_comma (map print_member kvs) @ [CHR ''}'']"
    by (simp add: case_prod_unfold)
  show ?case
  proof (cases "kvs = []")
    case True
    then show ?thesis by (simp add: scan_value.simps skip_ws_stop is_json_ws_def)
  next
    case False
    then obtain u where u: "join_comma (map print_member kvs) = CHR 0x22 # u"
      using join_comma_hd by blast
    have "scan_members (join_comma (map print_member kvs) @ CHR ''}'' # t) = Some t"
      using 3 False by (intro scan_members_print) (metis prod.collapse)+
    with u show ?thesis unfolding p
      by (simp add: scan_value.simps skip_ws_stop is_json_ws_def)
  qed
qed (simp_all add: scan_value_quote scan_value_int)

lemma json_valid_print: "json_valid (json_print v)"
  using scan_json_print[of "[]" v] by (simp add: json_valid_def number_end_def skip_ws_def)

lemma valid_show_int: "valid_string (show_int i @ t) = valid_string t"
proof -
  have "\<forall>c \<in> set s. byte_of c < 128 \<Longrightarrow> valid_string (s @ t) = valid_string t" for s
    by (induction s) auto
  then show ?thesis using show_pos_digits by (auto simp: show_int_def)
qed

lemma valid_join_comma:
  assumes "\<And>x t. x \<in> set xs \<Longrightarrow> valid_string (x @ t) = valid_string t"
  shows "valid_string (join_comma xs @ t) = valid_string t"
  using assms by (induction xs rule: join_comma.induct) auto

lemma valid_json_print: "valid_string (json_print v @ t) = valid_string t"
proof (induction v arbitrary: t rule: json_print.induct)
  case (3 kvs)
  have "valid_string (join_comma (map print_member kvs) @ t) = valid_string t" for t
    using 3 by (intro valid_join_comma) fastforce
  from this[of "CHR ''}'' # t"] show ?case by (simp add: case_prod_unfold)
qed (simp_all add: valid_show_int)

lemma valid_string_json_print: "valid_string (json_print v)"
  using valid_json_print[of v "[]"] by simp

lemma json_print_nonempty [simp]: "json_print v \<noteq> []"
  by (cases v) (auto simp: json_quote_def show_int_def show_pos_nonempty)

declare json_print.simps [simp del]

text \<open>Escaping makes a string at most six times as long.\<close>

lemma length_escape_rune: "bs \<noteq> [] \<Longrightarrow> length (escape_rune r n bs) \<le> 6 * length bs"
  by (cases bs) (simp_all add: escape_rune_def hex4_def)

lemma length_json_escape: "length (json_escape s) \<le> 6 * length s"
proof (induction s rule: json_escape.induct)
  case (1 s)
  show ?case
  proof (cases "s = []")
    case True
    then show ?thesis by (simp add: json_escape.simps)
  next
    case False
    let ?n = "snd (decode_rune s)"
    have "take ?n s \<noteq> []" using decode_rune_width_pos[OF False] False by simp
    from length_escape_rune[OF this, of "fst (decode_rune s)" ?n]
    have "length (escape_rune (fst (decode_rune s)) ?n (take ?n s)) \<le> 6 * min ?n (length s)"
      by (simp add: min.commute)
    moreover have "length s = min ?n (length s) + length (drop ?n s)" by simp
    ultimately show ?thesis using "1.IH"[OF False] False
      by (subst json_escape.simps) simp
  qed
qed

lemma length_json_quote: "length (json_quote s) \<le> 6 * length s + 2"
  using length_json_escape[of s] by (simp add: json_quote_def)

end
