(* ===== verification/Go_Errors.thy ===== *)
theory Go_Errors
  imports Prelude
begin

text \<open>
  Go error values and contexts.

  An error is a tree: a value of a sentinel variable, a typed error, or a wrapper around
  other errors (\<^verbatim>\<open>fmt.Errorf\<close> with \<^verbatim>\<open>%w\<close>, \<^verbatim>\<open>errors.Join\<close>, an \<^verbatim>\<open>Unwrap\<close> method).
  \<open>error_chain\<close> lists a tree in the order \<^verbatim>\<open>errors.Is\<close> and \<^verbatim>\<open>errors.AsType\<close> visit it;
  \<open>errors_is\<close> asks for a node that is the sentinel, \<open>as_pg_error\<close> and its kin return the
  first node of a type. A message that no code inspects is the format string it is built from.

  A context is what a call sees of it at one moment: still live, or ended with the values of
  \<^verbatim>\<open>ctx.Err()\<close> and \<^verbatim>\<open>context.Cause(ctx)\<close>.
\<close>

section \<open>Errors\<close>

datatype sentinel =
    Canceled | DeadlineExceeded
  | ErrNoRows | ErrConnClosed | NetErrClosed | IoEOF | IoErrUnexpectedEOF
  | ErrServerClosed
  | RewardsErrUnavailable | RewardsErrInternal | ErrIdempotencyKeyReused
  | RewardsErrQueryTimeout
  | ErrLeaseLost | ErrStoreUnavailable | ErrStoreInternal | OutboxErrQueryTimeout
  | ErrWorkerFatal

text \<open>The operations of the outbox worker, as \<^verbatim>\<open>internal/outbox/observer.go\<close> names them; they
  are here because the worker's error type carries one.\<close>

datatype operation =
  OperationClaim | OperationMarkPublished | OperationScheduleRetry | OperationMarkDeadLetter

text \<open>
  \<open>ForeignError t ss es\<close> stands for any other error value of a library: \<open>t\<close> is its
  \<^verbatim>\<open>Timeout()\<close> if it implements \<^verbatim>\<open>net.Error\<close>, \<open>ss\<close> the sentinels its \<^verbatim>\<open>Is\<close> method accepts,
  \<open>es\<close> the errors it wraps. The flags of \<open>DNSError\<close> and \<open>OpError\<close> are their
  \<^verbatim>\<open>Timeout()\<close>; \<open>PgError\<close> carries its SQLSTATE.
\<close>

datatype goerror =
    Sentinel sentinel
  | Plain string
  | PgError string
  | DNSError bool
  | OpError bool "goerror list"
  | ForeignError "bool option" "sentinel list" "goerror list"
  | InvalidInputError string
  | WorkerOperationError operation goerror
  | Wrapf string goerror
  | Joined "goerror list"

primrec error_chain :: "goerror \<Rightarrow> goerror list" where
  "error_chain (Sentinel s) = [Sentinel s]"
| "error_chain (Plain m) = [Plain m]"
| "error_chain (PgError c) = [PgError c]"
| "error_chain (DNSError t) = [DNSError t]"
| "error_chain (OpError t es) = OpError t es # concat (map error_chain es)"
| "error_chain (ForeignError t ss es) = ForeignError t ss es # concat (map error_chain es)"
| "error_chain (InvalidInputError m) = [InvalidInputError m]"
| "error_chain (WorkerOperationError oper e) = WorkerOperationError oper e # error_chain e"
| "error_chain (Wrapf m e) = Wrapf m e # error_chain e"
| "error_chain (Joined es) = Joined es # concat (map error_chain es)"

fun node_is :: "sentinel \<Rightarrow> goerror \<Rightarrow> bool" where
  "node_is s (Sentinel s') \<longleftrightarrow> s = s'"
| "node_is s (ForeignError _ ss _) \<longleftrightarrow> s \<in> set ss"
| "node_is s _ \<longleftrightarrow> False"

definition errors_is :: "goerror \<Rightarrow> sentinel \<Rightarrow> bool" where
  "errors_is e s \<longleftrightarrow> list_ex (node_is s) (error_chain e)"

text \<open>\<^verbatim>\<open>errors.AsType\<close>: the first node of the wanted type, by what a test of the node returns.\<close>

primrec first_some :: "('a \<Rightarrow> 'b option) \<Rightarrow> 'a list \<Rightarrow> 'b option" where
  "first_some f [] = None"
| "first_some f (x # xs) = (case f x of Some y \<Rightarrow> Some y | None \<Rightarrow> first_some f xs)"

definition errors_as :: "(goerror \<Rightarrow> 'b option) \<Rightarrow> goerror \<Rightarrow> 'b option" where
  "errors_as f e = first_some f (error_chain e)"

fun node_pg_error :: "goerror \<Rightarrow> string option" where
  "node_pg_error (PgError c) = Some c"
| "node_pg_error _ = None"

fun node_invalid_input :: "goerror \<Rightarrow> string option" where
  "node_invalid_input (InvalidInputError m) = Some m"
| "node_invalid_input _ = None"

fun node_operation :: "goerror \<Rightarrow> operation option" where
  "node_operation (WorkerOperationError oper _) = Some oper"
| "node_operation _ = None"

text \<open>\<^verbatim>\<open>net.Error\<close> is an interface: DNS and operation errors, \<^verbatim>\<open>context.DeadlineExceeded\<close> and
  \<^verbatim>\<open>net.ErrClosed\<close> implement it too. The value is \<^verbatim>\<open>Timeout()\<close>.\<close>

fun node_net_error :: "goerror \<Rightarrow> bool option" where
  "node_net_error (DNSError t) = Some t"
| "node_net_error (OpError t _) = Some t"
| "node_net_error (ForeignError t _ _) = t"
| "node_net_error (Sentinel DeadlineExceeded) = Some True"
| "node_net_error (Sentinel NetErrClosed) = Some False"
| "node_net_error _ = None"

fun node_dns_error :: "goerror \<Rightarrow> unit option" where
  "node_dns_error (DNSError _) = Some ()"
| "node_dns_error _ = None"

fun node_op_error :: "goerror \<Rightarrow> unit option" where
  "node_op_error (OpError _ _) = Some ()"
| "node_op_error _ = None"

lemma errors_is_simps [simp]:
  "errors_is (Sentinel s') s \<longleftrightarrow> s = s'"
  "\<not> errors_is (Plain m) s"
  "\<not> errors_is (PgError c) s"
  "\<not> errors_is (DNSError t) s"
  "\<not> errors_is (InvalidInputError m) s"
  "errors_is (WorkerOperationError oper e) s \<longleftrightarrow> errors_is e s"
  "errors_is (Wrapf m e) s \<longleftrightarrow> errors_is e s"
  "errors_is (Joined es) s \<longleftrightarrow> (\<exists>e \<in> set es. errors_is e s)"
  "errors_is (OpError t es) s \<longleftrightarrow> (\<exists>e \<in> set es. errors_is e s)"
  "errors_is (ForeignError t' ss es) s \<longleftrightarrow> s \<in> set ss \<or> (\<exists>e \<in> set es. errors_is e s)"
  by (auto simp: errors_is_def list_ex_iff)

lemma errors_as_Wrapf [simp]:
  "errors_as f (Wrapf m e) = (case f (Wrapf m e) of Some y \<Rightarrow> Some y | None \<Rightarrow> errors_as f e)"
  by (simp add: errors_as_def split: option.split)

lemma errors_as_WorkerOperationError [simp]:
  "errors_as f (WorkerOperationError oper e) =
     (case f (WorkerOperationError oper e) of Some y \<Rightarrow> Some y | None \<Rightarrow> errors_as f e)"
  by (simp add: errors_as_def split: option.split)

lemma errors_as_leaf [simp]:
  "errors_as f (Sentinel s) = f (Sentinel s)"
  "errors_as f (Plain m) = f (Plain m)"
  "errors_as f (PgError c) = f (PgError c)"
  "errors_as f (DNSError t) = f (DNSError t)"
  "errors_as f (InvalidInputError m) = f (InvalidInputError m)"
  by (auto simp: errors_as_def split: option.splits)

section \<open>Contexts\<close>

datatype ctx_end = CtxCanceled | CtxDeadlineExceeded

fun ctx_sentinel :: "ctx_end \<Rightarrow> sentinel" where
  "ctx_sentinel CtxCanceled = Canceled"
| "ctx_sentinel CtxDeadlineExceeded = DeadlineExceeded"

datatype context_state = Live | Ended ctx_end goerror

definition ctx_err :: "context_state \<Rightarrow> sentinel option" where
  "ctx_err c = (case c of Live \<Rightarrow> None | Ended e _ \<Rightarrow> Some (ctx_sentinel e))"

definition ctx_cause_is :: "context_state \<Rightarrow> sentinel \<Rightarrow> bool" where
  "ctx_cause_is c s = (case c of Live \<Rightarrow> False | Ended _ cause \<Rightarrow> errors_is cause s)"

text \<open>\<^verbatim>\<open>ctx.Err() != nil && errors.Is(err, ctx.Err())\<close>: the caller gave up and the error says so.\<close>

definition is_ctx_error :: "context_state \<Rightarrow> goerror \<Rightarrow> bool" where
  "is_ctx_error c e = (case ctx_err c of None \<Rightarrow> False | Some s \<Rightarrow> errors_is e s)"

text \<open>\<^verbatim>\<open>context.WithTimeoutCause(ctx, timeout, cause)\<close> seen at one moment: \<open>expired\<close> says that its
  own timer fired before the parent ended.\<close>

definition with_timeout_cause :: "sentinel \<Rightarrow> bool \<Rightarrow> context_state \<Rightarrow> context_state" where
  "with_timeout_cause cause expired parent =
     (if expired then Ended CtxDeadlineExceeded (Sentinel cause) else parent)"

definition with_timeout :: "bool \<Rightarrow> context_state \<Rightarrow> context_state" where
  "with_timeout expired parent = with_timeout_cause DeadlineExceeded expired parent"

lemma ctx_simps [simp]:
  "ctx_err Live = None" "ctx_err (Ended s e) = Some (ctx_sentinel s)"
  "\<not> ctx_cause_is Live t" "ctx_cause_is (Ended s' e) t \<longleftrightarrow> errors_is e t"
  "\<not> is_ctx_error Live e" "is_ctx_error (Ended s e') e \<longleftrightarrow> errors_is e (ctx_sentinel s)"
  by (simp_all add: ctx_err_def ctx_cause_is_def is_ctx_error_def)

end
