(* ===== verification/Go_Sha256.thy ===== *)
theory Go_Sha256
  imports Go_Strings
begin

unbundle bit_operations_syntax

text \<open>
  \<^verbatim>\<open>crypto/sha256\<close>: the digest \<^verbatim>\<open>sha256.Sum256\<close> of a byte string (FIPS 180-4), on 32-bit words
  with wrap-around addition. The development uses of it that a digest has 32 bytes and that
  equal keys have equal digests.
\<close>

type_synonym w32 = "32 word"

definition sha_ch :: "w32 \<Rightarrow> w32 \<Rightarrow> w32 \<Rightarrow> w32" where
  "sha_ch x y z = (x AND y) XOR (NOT x AND z)"

definition sha_maj :: "w32 \<Rightarrow> w32 \<Rightarrow> w32 \<Rightarrow> w32" where
  "sha_maj x y z = (x AND y) XOR (x AND z) XOR (y AND z)"

definition big_sigma0 :: "w32 \<Rightarrow> w32" where
  "big_sigma0 x = word_rotr 2 x XOR word_rotr 13 x XOR word_rotr 22 x"

definition big_sigma1 :: "w32 \<Rightarrow> w32" where
  "big_sigma1 x = word_rotr 6 x XOR word_rotr 11 x XOR word_rotr 25 x"

definition small_sigma0 :: "w32 \<Rightarrow> w32" where
  "small_sigma0 x = word_rotr 7 x XOR word_rotr 18 x XOR drop_bit 3 x"

definition small_sigma1 :: "w32 \<Rightarrow> w32" where
  "small_sigma1 x = word_rotr 17 x XOR word_rotr 19 x XOR drop_bit 10 x"

definition sha_k :: "w32 list" where
  "sha_k =
    [1116352408, 1899447441, 3049323471, 3921009573, 961987163, 1508970993, 2453635748, 2870763221,
     3624381080, 310598401, 607225278, 1426881987, 1925078388, 2162078206, 2614888103, 3248222580,
     3835390401, 4022224774, 264347078, 604807628, 770255983, 1249150122, 1555081692, 1996064986,
     2554220882, 2821834349, 2952996808, 3210313671, 3336571891, 3584528711, 113926993, 338241895,
     666307205, 773529912, 1294757372, 1396182291, 1695183700, 1986661051, 2177026350, 2456956037,
     2730485921, 2820302411, 3259730800, 3345764771, 3516065817, 3600352804, 4094571909, 275423344,
     430227734, 506948616, 659060556, 883997877, 958139571, 1322822218, 1537002063, 1747873779,
     1955562222, 2024104815, 2227730452, 2361852424, 2428436474, 2756734187, 3204031479, 3329325298]"

definition sha_init :: "w32 list" where
  "sha_init = [1779033703, 3144134277, 1013904242, 2773480762,
               1359893119, 2600822924, 528734635, 1541459225]"

definition be_word :: "int list \<Rightarrow> w32" where
  "be_word bs = word_of_int (foldl (\<lambda>a b. a * 256 + b) 0 bs)"

definition be_bytes :: "nat \<Rightarrow> int \<Rightarrow> int list" where
  "be_bytes n v = map (\<lambda>i. v div 256 ^ (n - 1 - i) mod 256) [0..<n]"

fun chunks :: "nat \<Rightarrow> 'a list \<Rightarrow> 'a list list" where
  "chunks n xs = (if n = 0 \<or> length xs < n then [] else take n xs # chunks n (drop n xs))"

declare chunks.simps [simp del]

definition sha_pad :: "int list \<Rightarrow> int list" where
  "sha_pad bs =
     bs @ [128] @ replicate ((119 - length bs mod 64) mod 64) 0 @ be_bytes 8 (int (8 * length bs))"

text \<open>The message schedule, newest word first.\<close>

primrec sha_schedule :: "nat \<Rightarrow> w32 list \<Rightarrow> w32 list" where
  "sha_schedule 0 ws = ws"
| "sha_schedule (Suc n) ws =
     sha_schedule n
       ((small_sigma1 (ws ! 1) + ws ! 6 + small_sigma0 (ws ! 14) + ws ! 15) # ws)"

fun sha_round :: "w32 list \<Rightarrow> w32 \<times> w32 \<Rightarrow> w32 list" where
  "sha_round [a, b, c, d, e, f, g, h] (k, w) =
     (let t1 = h + big_sigma1 e + sha_ch e f g + k + w;
          t2 = big_sigma0 a + sha_maj a b c
      in [t1 + t2, a, b, c, d + t1, e, f, g])"
| "sha_round st _ = st"

definition sha_block :: "w32 list \<Rightarrow> int list \<Rightarrow> w32 list" where
  "sha_block st blk =
     (let ws = rev (sha_schedule 48 (rev (map be_word (chunks 4 blk))))
      in map2 (+) st (foldl sha_round st (zip sha_k ws)))"

definition Sum256 :: "go_string \<Rightarrow> go_string" where
  "Sum256 s =
     map char_of
       (concat (map (\<lambda>w. be_bytes 4 (uint w))
          (foldl sha_block sha_init (chunks 64 (sha_pad (map byte_of s))))))"

lemma length_sha_round: "length (sha_round st kw) = length st"
  by (cases "(st, kw)" rule: sha_round.cases) (auto simp: Let_def)

lemma length_foldl_round: "length (foldl sha_round st kws) = length st"
  by (induction kws arbitrary: st) (simp_all add: length_sha_round)

lemma length_foldl_block: "length (foldl sha_block st bs) = length st"
  by (induction bs arbitrary: st) (simp_all add: sha_block_def Let_def length_foldl_round)

lemma length_Sum256 [simp]: "length (Sum256 s) = 32"
  by (simp add: Sum256_def length_concat comp_def be_bytes_def sum_list_triv length_foldl_block
      sha_init_def)

end
