(* ===== verification/Schema.thy ===== *)
theory Schema
  imports Go_Strings Go_Errors
begin

text \<open>
  The database: the three tables of \<^verbatim>\<open>migrations/000001_create_schema.up.sql\<close>, their CHECK
  constraints, and what PostgreSQL's READ COMMITTED isolation makes of them.

  A table is a list of rows. Every row carries, beside its columns, its \<open>owner\<close>: \<open>None\<close> for
  a committed row, \<open>Some s\<close> for a row that the open transaction \<open>s\<close> has inserted. A
  transaction sees the committed rows and its own; a unique index covers every row, so an
  insertion that meets a row of another open transaction waits until that transaction ends.
  Committing makes the rows of a transaction committed, rolling back removes them.

  A statement has three outcomes: it waits (\<open>Blocked\<close>), it fails (\<open>Failed\<close>, with the SQLSTATE
  of the violated constraint), or it returns a value and a new database (\<open>Done\<close>).
\<close>

section \<open>Rows\<close>

record claim_row =
  rc_id :: string
  rc_player_id :: go_string
  rc_campaign_id :: go_string
  rc_reward_id :: go_string
  rc_created_at :: timestamp
  rc_owner :: "session option"

record idem_row =
  ik_key_hash :: go_string
  ik_player_id :: go_string
  ik_campaign_id :: go_string
  ik_reward_id :: go_string
  ik_response_status :: "int option"
  ik_response_body :: "go_string option"
  ik_reward_claim_id :: "string option"
  ik_created_at :: timestamp
  ik_owner :: "session option"

datatype outbox_status = Pending | Processing | Published | DeadLetter

record outbox_row =
  ob_id :: string
  ob_aggregate_type :: string
  ob_aggregate_id :: string
  ob_event_type :: string
  ob_payload :: go_string
  ob_status :: outbox_status
  ob_failed_attempts :: int
  ob_available_at :: timestamp
  ob_last_failure_reason :: "string option"
  ob_locked_by :: "go_string option"
  ob_locked_until :: "timestamp option"
  ob_created_at :: timestamp
  ob_updated_at :: timestamp
  ob_published_at :: "timestamp option"
  ob_dead_lettered_at :: "timestamp option"
  ob_owner :: "session option"

record db =
  reward_claims :: "claim_row list"
  idem_keys :: "idem_row list"
  outbox_events :: "outbox_row list"

definition empty_db :: db where
  "empty_db = \<lparr>reward_claims = [], idem_keys = [], outbox_events = []\<rparr>"

text \<open>The columns of the unique indexes.\<close>

definition rc_identity :: "claim_row \<Rightarrow> go_string \<times> go_string \<times> go_string" where
  "rc_identity r = (rc_player_id r, rc_campaign_id r, rc_reward_id r)"

definition ob_identity :: "outbox_row \<Rightarrow> string \<times> string \<times> string" where
  "ob_identity r = (ob_aggregate_type r, ob_aggregate_id r, ob_event_type r)"

section \<open>CHECK constraints\<close>

text \<open>\<^verbatim>\<open>length(text)\<close> counts characters, \<^verbatim>\<open>octet_length(bytea)\<close> bytes.\<close>

definition text_between :: "nat \<Rightarrow> nat \<Rightarrow> go_string \<Rightarrow> bool" where
  "text_between lo hi s \<longleftrightarrow> lo \<le> rune_count s \<and> rune_count s \<le> hi"

definition claim_row_chk :: "claim_row \<Rightarrow> bool" where
  "claim_row_chk r \<longleftrightarrow>
     text_between 1 128 (rc_player_id r) \<and> text_between 1 128 (rc_campaign_id r) \<and>
     text_between 1 128 (rc_reward_id r)"

definition response_shape_chk :: "idem_row \<Rightarrow> bool" where
  "response_shape_chk r =
     (case ik_response_status r of
        None \<Rightarrow> ik_response_body r = None \<and> ik_reward_claim_id r = None
      | Some st \<Rightarrow>
          (if st = 201 then
             (case ik_response_body r of None \<Rightarrow> False | Some b \<Rightarrow> 0 < length b) \<and>
             ik_reward_claim_id r \<noteq> None
           else if st = 409 then
             (case ik_response_body r of None \<Rightarrow> False | Some b \<Rightarrow> 0 < length b) \<and>
             ik_reward_claim_id r = None
           else False))"

definition idem_row_chk :: "idem_row \<Rightarrow> bool" where
  "idem_row_chk r \<longleftrightarrow>
     length (ik_key_hash r) = 32 \<and>
     text_between 1 128 (ik_player_id r) \<and> text_between 1 128 (ik_campaign_id r) \<and>
     text_between 1 128 (ik_reward_id r) \<and> response_shape_chk r"

definition failure_reasons :: "string set" where
  "failure_reasons = {''failed'', ''timeout'', ''canceled''}"

definition failure_state_chk :: "outbox_row \<Rightarrow> bool" where
  "failure_state_chk r =
     (if ob_status r = DeadLetter
      then 0 < ob_failed_attempts r \<and> ob_last_failure_reason r \<noteq> None
      else (ob_failed_attempts r = 0 \<and> ob_last_failure_reason r = None) \<or>
           (0 < ob_failed_attempts r \<and> ob_last_failure_reason r \<noteq> None))"

definition processing_lock_chk :: "outbox_row \<Rightarrow> bool" where
  "processing_lock_chk r =
     ((ob_status r = Processing \<and> ob_locked_by r \<noteq> None \<and> ob_locked_until r \<noteq> None) \<or>
      (ob_status r \<noteq> Processing \<and> ob_locked_by r = None \<and> ob_locked_until r = None))"

text \<open>The payload column is \<^verbatim>\<open>jsonb\<close> and is kept as its text form; the text of an object starts
  with a brace, and no other text does.\<close>

definition payload_object_chk :: "go_string \<Rightarrow> bool" where
  "payload_object_chk payload \<longleftrightarrow> take 1 payload = ''{''"

text \<open>The bound on \<^verbatim>\<open>failed_attempts\<close> is that of its type, \<^verbatim>\<open>integer\<close>.\<close>

definition outbox_row_chk :: "outbox_row \<Rightarrow> bool" where
  "outbox_row_chk r \<longleftrightarrow>
     text_between 1 64 (ob_aggregate_type r) \<and> text_between 1 128 (ob_event_type r) \<and>
     payload_object_chk (ob_payload r) \<and>
     0 \<le> ob_failed_attempts r \<and> ob_failed_attempts r < 2 ^ 31 \<and>
     (case ob_last_failure_reason r of None \<Rightarrow> True | Some x \<Rightarrow> x \<in> failure_reasons) \<and>
     failure_state_chk r \<and>
     (case ob_locked_by r of None \<Rightarrow> True | Some w \<Rightarrow> text_between 1 128 w) \<and>
     ob_created_at r \<le> ob_updated_at r \<and>
     (ob_status r = Published \<longleftrightarrow> ob_published_at r \<noteq> None) \<and>
     processing_lock_chk r \<and>
     (ob_status r = DeadLetter \<longleftrightarrow> ob_dead_lettered_at r \<noteq> None)"

section \<open>Statements, visibility and the end of a transaction\<close>

datatype 'a stmt = Blocked | Failed goerror | Done 'a db

definition visible :: "session \<Rightarrow> session option \<Rightarrow> bool" where
  "visible sid ow \<longleftrightarrow> ow = None \<or> ow = Some sid"

definition held_by_other :: "session \<Rightarrow> session option \<Rightarrow> bool" where
  "held_by_other sid ow = (case ow of None \<Rightarrow> False | Some s \<Rightarrow> s \<noteq> sid)"

definition unique_violation :: goerror where
  "unique_violation = PgError ''23505''"

definition check_violation :: goerror where
  "check_violation = PgError ''23514''"

definition foreign_key_violation :: goerror where
  "foreign_key_violation = PgError ''23503''"

definition numeric_out_of_range :: goerror where
  "numeric_out_of_range = PgError ''22003''"

definition invalid_text :: goerror where
  "invalid_text = PgError ''22P02''"

definition commit_rows :: "session \<Rightarrow> db \<Rightarrow> db" where
  "commit_rows sid d = d\<lparr>
     reward_claims :=
       map (\<lambda>r. if rc_owner r = Some sid then r\<lparr>rc_owner := None\<rparr> else r) (reward_claims d),
     idem_keys :=
       map (\<lambda>r. if ik_owner r = Some sid then r\<lparr>ik_owner := None\<rparr> else r) (idem_keys d),
     outbox_events :=
       map (\<lambda>r. if ob_owner r = Some sid then r\<lparr>ob_owner := None\<rparr> else r) (outbox_events d)\<rparr>"

definition rollback_rows :: "session \<Rightarrow> db \<Rightarrow> db" where
  "rollback_rows sid d = d\<lparr>
     reward_claims := filter (\<lambda>r. rc_owner r \<noteq> Some sid) (reward_claims d),
     idem_keys := filter (\<lambda>r. ik_owner r \<noteq> Some sid) (idem_keys d),
     outbox_events := filter (\<lambda>r. ob_owner r \<noteq> Some sid) (outbox_events d)\<rparr>"

lemma visible_simps [simp]:
  "visible sid None" "visible sid (Some sid') \<longleftrightarrow> sid' = sid"
  "\<not> held_by_other sid None" "held_by_other sid (Some sid') \<longleftrightarrow> sid' \<noteq> sid"
  by (auto simp: visible_def held_by_other_def)

lemma visible_iff: "visible sid ow \<longleftrightarrow> \<not> held_by_other sid ow"
  by (cases ow) auto

text \<open>Committing keeps every column; it only changes the owner.\<close>

lemma commit_rows_columns [simp]:
  "map ik_key_hash (idem_keys (commit_rows sid d)) = map ik_key_hash (idem_keys d)"
  "map rc_identity (reward_claims (commit_rows sid d)) = map rc_identity (reward_claims d)"
  "map rc_id (reward_claims (commit_rows sid d)) = map rc_id (reward_claims d)"
  "map ob_id (outbox_events (commit_rows sid d)) = map ob_id (outbox_events d)"
  "map ob_identity (outbox_events (commit_rows sid d)) = map ob_identity (outbox_events d)"
  by (simp_all add: commit_rows_def rc_identity_def ob_identity_def)

lemmas row_chk_defs =
  claim_row_chk_def idem_row_chk_def response_shape_chk_def outbox_row_chk_def failure_state_chk_def
  processing_lock_chk_def failure_reasons_def

end
