(* ===== verification/Rewards.thy ===== *)
theory Rewards
  imports Go_Json Go_Errors Go_Sha256 Schema
begin

unbundle bit_operations_syntax

text \<open>
  \<^verbatim>\<open>internal/rewards\<close> without its SQL: the data types (\<^verbatim>\<open>claim.go\<close>), the validation and
  normalisation of a command (\<^verbatim>\<open>service.go\<close>), identifiers (\<^verbatim>\<open>uuid.go\<close>), the stored responses
  (\<^verbatim>\<open>response.go\<close>) and the outbox event (\<^verbatim>\<open>event.go\<close>). The random bytes an identifier is made
  of are an argument.
\<close>

section \<open>Data types\<close>

definition maxIDLength :: nat where
  "maxIDLength = 128"

definition maxIdempotencyKeyLength :: nat where
  "maxIdempotencyKeyLength = 255"

definition createClaimStatusCreated :: int where
  "createClaimStatusCreated = 201"

definition createClaimStatusConflict :: int where
  "createClaimStatusConflict = 409"

record claim =
  cl_ID :: string
  cl_PlayerID :: go_string
  cl_CampaignID :: go_string
  cl_RewardID :: go_string
  cl_CreatedAt :: timestamp

record CreateClaimCommand =
  cmd_PlayerID :: go_string
  cmd_CampaignID :: go_string
  cmd_RewardID :: go_string
  cmd_IdempotencyKey :: go_string

record CreateClaimResult =
  res_StatusCode :: int
  res_ResponseBody :: go_string
  res_Replayed :: bool

record createClaimParams =
  par_PlayerID :: go_string
  par_CampaignID :: go_string
  par_RewardID :: go_string
  par_KeyHash :: go_string

definition par_identity :: "createClaimParams \<Rightarrow> go_string \<times> go_string \<times> go_string" where
  "par_identity p = (par_PlayerID p, par_CampaignID p, par_RewardID p)"

section \<open>Validation\<close>

definition validateClaimID :: "string \<Rightarrow> go_string \<Rightarrow> goerror option" where
  "validateClaimID field value =
     (if value = '''' then Some (InvalidInputError (field @ '' is required''))
      else if \<not> valid_string value then Some (InvalidInputError (field @ '' must be valid UTF-8''))
      else if contains_nul value
        then Some (InvalidInputError (field @ '' must not contain NUL characters''))
      else if rune_count value > maxIDLength
        then Some (InvalidInputError
               (field @ '' must be at most '' @ show_int (int maxIDLength) @ '' characters''))
      else None)"

definition is_control :: "rune \<Rightarrow> bool" where
  "is_control r \<longleftrightarrow> r < 32 \<or> r = 127"

definition validateIdempotencyKey :: "go_string \<Rightarrow> goerror option" where
  "validateIdempotencyKey key =
     (if key = '''' then Some (InvalidInputError ''idempotency key is required'')
      else if length key > maxIdempotencyKeyLength
        then Some (InvalidInputError ''idempotency key is invalid'')
      else if list_ex is_control (runes key)
        then Some (InvalidInputError ''idempotency key is invalid'')
      else None)"

definition validateCreateClaimCommand :: "CreateClaimCommand \<Rightarrow> goerror option" where
  "validateCreateClaimCommand cmd =
     (case validateClaimID ''player_id'' (cmd_PlayerID cmd) of
        Some e \<Rightarrow> Some e
      | None \<Rightarrow>
          (case validateClaimID ''campaign_id'' (cmd_CampaignID cmd) of
             Some e \<Rightarrow> Some e
           | None \<Rightarrow>
               (case validateClaimID ''reward_id'' (cmd_RewardID cmd) of
                  Some e \<Rightarrow> Some e
                | None \<Rightarrow> validateIdempotencyKey (cmd_IdempotencyKey cmd))))"

definition trim_command :: "CreateClaimCommand \<Rightarrow> CreateClaimCommand" where
  "trim_command cmd = cmd\<lparr>
     cmd_PlayerID := trim_space (cmd_PlayerID cmd),
     cmd_CampaignID := trim_space (cmd_CampaignID cmd),
     cmd_RewardID := trim_space (cmd_RewardID cmd),
     cmd_IdempotencyKey := trim_space (cmd_IdempotencyKey cmd)\<rparr>"

definition prepareCreateClaim :: "CreateClaimCommand \<Rightarrow> goerror + createClaimParams" where
  "prepareCreateClaim cmd0 =
     (let cmd = trim_command cmd0 in
      case validateCreateClaimCommand cmd of
        Some e \<Rightarrow> Inl e
      | None \<Rightarrow> Inr \<lparr>
          par_PlayerID = cmd_PlayerID cmd,
          par_CampaignID = cmd_CampaignID cmd,
          par_RewardID = cmd_RewardID cmd,
          par_KeyHash = Sum256 (cmd_IdempotencyKey cmd)\<rparr>)"

section \<open>Identifiers\<close>

definition newUUIDV4 :: "8 word list \<Rightarrow> string" where
  "newUUIDV4 rnd =
     (let b = rnd[6 := (rnd ! 6 AND 0x0f) OR 0x40];
          b' = b[8 := (b ! 8 AND 0x3f) OR 0x80]
      in hex_encode (take 4 b') @ ''-'' @ hex_encode (take 2 (drop 4 b')) @ ''-''
           @ hex_encode (take 2 (drop 6 b')) @ ''-'' @ hex_encode (take 2 (drop 8 b')) @ ''-''
           @ hex_encode (take 6 (drop 10 b')))"

section \<open>Responses and the event\<close>

text \<open>\<^verbatim>\<open>json.Marshal\<close> of a struct of strings cannot fail, so the two responses have no error
  case.\<close>

definition marshalCreatedClaimResponse :: "claim \<Rightarrow> go_string" where
  "marshalCreatedClaimResponse c = json_print (JObject
     [(''claim_id'', JString (cl_ID c)),
      (''player_id'', JString (cl_PlayerID c)),
      (''campaign_id'', JString (cl_CampaignID c)),
      (''reward_id'', JString (cl_RewardID c)),
      (''claimed_at'', JString (rfc3339_nano (cl_CreatedAt c)))])"

definition marshalDuplicateClaimResponse :: go_string where
  "marshalDuplicateClaimResponse = json_print (JObject
     [(''error'', JObject
        [(''code'', JString ''reward_already_claimed''),
         (''message'', JString ''Reward has already been claimed'')])])"

definition rewardClaimedSchemaVersion :: int where
  "rewardClaimedSchemaVersion = 1"

definition outboxAggregateTypeRewardClaim :: string where
  "outboxAggregateTypeRewardClaim = ''reward_claim''"

definition outboxEventTypeRewardClaimed :: string where
  "outboxEventTypeRewardClaimed = ''RewardClaimed''"

definition newRewardClaimedEvent :: "string \<Rightarrow> claim \<Rightarrow> json" where
  "newRewardClaimedEvent eventID c = JObject
     [(''schema_version'', JInt rewardClaimedSchemaVersion),
      (''event_id'', JString eventID),
      (''event_type'', JString outboxEventTypeRewardClaimed),
      (''occurred_at'', JString (rfc3339_nano (cl_CreatedAt c))),
      (''claim'', JObject
        [(''claim_id'', JString (cl_ID c)),
         (''player_id'', JString (cl_PlayerID c)),
         (''campaign_id'', JString (cl_CampaignID c)),
         (''reward_id'', JString (cl_RewardID c)),
         (''claimed_at'', JString (rfc3339_nano (cl_CreatedAt c)))])]"

text \<open>\<^verbatim>\<open>json.Marshal\<close> of a \<^verbatim>\<open>time.Time\<close> fails when the year is outside \<open>[0, 9999]\<close>.\<close>

definition marshal_event :: "string \<Rightarrow> claim \<Rightarrow> go_string option" where
  "marshal_event eventID c =
     (if 0 \<le> year_of (cl_CreatedAt c) \<and> year_of (cl_CreatedAt c) \<le> 9999
      then Some (json_print (newRewardClaimedEvent eventID c)) else None)"

section \<open>Facts\<close>

lemmas validate_defs =
  validateCreateClaimCommand_def validateClaimID_def validateIdempotencyKey_def

lemma validateClaimID_None:
  "validateClaimID f v = None \<longleftrightarrow>
     v \<noteq> '''' \<and> valid_string v \<and> \<not> contains_nul v \<and> rune_count v \<le> maxIDLength"
  by (auto simp: validateClaimID_def)

lemma validateClaimID_text_between:
  "validateClaimID f v = None \<Longrightarrow> text_between 1 128 v"
  using rune_count_pos[of v]
  by (auto simp: validateClaimID_None text_between_def maxIDLength_def)

lemma validateClaimID_error:
  "validateClaimID f v = Some e \<Longrightarrow> \<exists>m. e = InvalidInputError m"
  by (auto simp: validateClaimID_def split: if_splits)

lemma validateIdempotencyKey_error:
  "validateIdempotencyKey k = Some e \<Longrightarrow> \<exists>m. e = InvalidInputError m"
  by (auto simp: validateIdempotencyKey_def split: if_splits)

lemma validateIdempotencyKey_None:
  "validateIdempotencyKey k = None \<longleftrightarrow>
     k \<noteq> [] \<and> length k \<le> 255 \<and> list_all (\<lambda>r. 32 \<le> r \<and> r \<noteq> 127) (runes k)"
proof -
  have "list_ex is_control (runes k) \<longleftrightarrow> \<not> list_all (\<lambda>r. 32 \<le> r \<and> r \<noteq> 127) (runes k)"
    by (auto simp: list_ex_iff list_all_iff is_control_def not_le)
  then show ?thesis by (simp add: validateIdempotencyKey_def maxIdempotencyKeyLength_def not_less)
qed

lemma validateCreateClaimCommand_None:
  "validateCreateClaimCommand cmd = None \<longleftrightarrow>
     validateClaimID ''player_id'' (cmd_PlayerID cmd) = None \<and>
     validateClaimID ''campaign_id'' (cmd_CampaignID cmd) = None \<and>
     validateClaimID ''reward_id'' (cmd_RewardID cmd) = None \<and>
     validateIdempotencyKey (cmd_IdempotencyKey cmd) = None"
  by (auto simp: validateCreateClaimCommand_def split: option.splits)

lemma validateCreateClaimCommand_error:
  "validateCreateClaimCommand cmd = Some e \<Longrightarrow> \<exists>m. e = InvalidInputError m"
  by (auto simp: validateCreateClaimCommand_def split: option.splits
      dest: validateClaimID_error validateIdempotencyKey_error)

lemma trim_command_idem [simp]: "trim_command (trim_command cmd) = trim_command cmd"
  by (simp add: trim_command_def)

lemma prepareCreateClaim_InrD:
  assumes "prepareCreateClaim cmd = Inr p"
  shows "validateCreateClaimCommand (trim_command cmd) = None"
    and "p = \<lparr>par_PlayerID = trim_space (cmd_PlayerID cmd),
              par_CampaignID = trim_space (cmd_CampaignID cmd),
              par_RewardID = trim_space (cmd_RewardID cmd),
              par_KeyHash = Sum256 (trim_space (cmd_IdempotencyKey cmd))\<rparr>"
  using assms
  by (auto simp: prepareCreateClaim_def trim_command_def Let_def split: option.splits)

text \<open>The parameters that reach the database: what a prepared command guarantees.\<close>

definition params_ok :: "createClaimParams \<Rightarrow> bool" where
  "params_ok p \<longleftrightarrow>
     (\<forall>v \<in> {par_PlayerID p, par_CampaignID p, par_RewardID p}.
        valid_string v \<and> \<not> contains_nul v \<and> text_between 1 128 v) \<and>
     length (par_KeyHash p) = 32"

lemma prepareCreateClaim_params_ok: "prepareCreateClaim cmd = Inr p \<Longrightarrow> params_ok p"
  using prepareCreateClaim_InrD[of cmd p] validateClaimID_text_between
  by (auto simp: params_ok_def validateCreateClaimCommand_None trim_command_def
      validateClaimID_None dest!: validateClaimID_text_between)

lemma marshalCreatedClaimResponse_valid:
  "valid_string (marshalCreatedClaimResponse c)" "json_valid (marshalCreatedClaimResponse c)"
  "marshalCreatedClaimResponse c \<noteq> []"
  unfolding marshalCreatedClaimResponse_def
  by (rule valid_string_json_print json_valid_print json_print_nonempty)+

lemma marshalDuplicateClaimResponse_valid:
  "valid_string marshalDuplicateClaimResponse" "json_valid marshalDuplicateClaimResponse"
  "marshalDuplicateClaimResponse \<noteq> []"
  unfolding marshalDuplicateClaimResponse_def
  by (rule valid_string_json_print json_valid_print json_print_nonempty)+

section \<open>The form of an identifier\<close>

text \<open>The textual form of a version 4 UUID (RFC 9562).\<close>

definition uuid_v4_format :: "string \<Rightarrow> bool" where
  "uuid_v4_format s \<longleftrightarrow> length s = 36 \<and>
     list_all (\<lambda>i. if i \<in> {8, 13, 18, 23} then s ! i = CHR ''-'' else s ! i \<in> set hex_chars) [0..<36] \<and>
     s ! 14 = CHR ''4'' \<and> s ! 19 \<in> set ''89ab''"

lemma drop_bit_nibble: "uint (w :: 8 word) div 16 = uint (drop_bit 4 w)"
  by (simp add: drop_bit_eq_div uint_div)

lemma version_nibble: "uint ((w AND 0x0f) OR 0x40 :: 8 word) div 16 = 4"
proof -
  have "drop_bit 4 ((w AND 0x0f) OR 0x40 :: 8 word) = 4"
    by (simp add: drop_bit_or drop_bit_and)
  then show ?thesis by (simp add: drop_bit_nibble)
qed

lemma and_3_cases: "(w AND 3 :: 8 word) \<in> {0, 1, 2, 3}"
proof -
  have "w AND 3 = take_bit 2 w" by (simp add: take_bit_eq_mask mask_eq_exp_minus_1)
  then have "uint (w AND 3) = uint w mod 4" by (simp add: take_bit_eq_mod uint_mod)
  then have "uint (w AND 3) \<in> {0, 1, 2, 3}" by auto
  then show ?thesis by (auto simp: word_uint_eq_iff)
qed

lemma variant_nibble: "hex_digit (uint ((w AND 0x3f) OR 0x80 :: 8 word) div 16) \<in> set ''89ab''"
proof -
  have "drop_bit 4 ((w AND 0x3f) OR 0x80 :: 8 word) = (drop_bit 4 w AND 3) OR 8"
    by (simp add: drop_bit_or drop_bit_and)
  with and_3_cases[of "drop_bit 4 w"] show ?thesis
    by (auto simp: drop_bit_nibble hex_digit_def)
qed

text \<open>C20. Claim and event identifiers are well-formed version 4 UUIDs, whatever the random bytes.\<close>

theorem newUUIDV4_format:
  assumes "length rnd = 16"
  shows "uuid_v4_format (newUUIDV4 rnd)"
proof -
  obtain b0 b1 b2 b3 b4 b5 b6 b7 b8 b9 ba bb bc bd be bf
    where rnd: "rnd = [b0, b1, b2, b3, b4, b5, b6, b7, b8, b9, ba, bb, bc, bd, be, bf]"
    using assms by (auto simp: eval_nat_numeral length_Suc_conv)
  have four: "hex_digit 4 = CHR ''4''" "CHR ''4'' \<in> set hex_chars"
    by (simp_all add: hex_digit_def hex_chars_def)
  have upt: "[0..<36] = [0, 1, 2, 3, 4, 5, 6, 7, 8, 9, 10, 11, 12, 13, 14, 15, 16, 17, 18, 19, 20,
      21, 22, 23, 24, 25, 26, 27, 28, 29, 30, 31, 32, 33, 34, 35 :: nat]"
    by (simp add: upt_rec)
  have id: "newUUIDV4 rnd = hex_encode [b0, b1, b2, b3] @ ''-'' @ hex_encode [b4, b5] @ ''-'' @
      hex_encode [(b6 AND 0x0f) OR 0x40, b7] @ ''-'' @ hex_encode [(b8 AND 0x3f) OR 0x80, b9] @ ''-'' @
      hex_encode [ba, bb, bc, bd, be, bf]"
    by (simp add: rnd newUUIDV4_def)
  show ?thesis
    using variant_nibble[of b8]
    by (simp add: id uuid_v4_format_def upt version_nibble four)
qed

theorem newUUIDV4_format_witness: "uuid_v4_format (newUUIDV4 (replicate 16 0xff))"
  by (rule newUUIDV4_format) simp

end
