(* ===== verification/Postgres.thy ===== *)
theory Postgres
  imports Go_Errors
begin

text \<open>
  \<^verbatim>\<open>internal/postgres\<close>: the classification of availability failures
  (\<^verbatim>\<open>availability.go\<close>) and the health check of the pool (\<^verbatim>\<open>pool.go\<close>).

  \<^verbatim>\<open>pgconn.Timeout\<close> belongs to pgx and is the parameter \<open>pgconn_timeout\<close>; the pool's
  ping is the parameter \<open>pool_ping\<close>.
\<close>

definition isUnavailableSQLState :: "string \<Rightarrow> bool" where
  "isUnavailableSQLState code \<longleftrightarrow>
     code \<in> {''08000'', ''08003'', ''08006'', ''08001'', ''08004'', ''08007'', ''53300'',
             ''57P01'', ''57P02'', ''57P03'', ''57P05''}"

definition isNetworkUnavailableError :: "goerror \<Rightarrow> bool" where
  "isNetworkUnavailableError err =
     (if errors_is err NetErrClosed \<or> errors_is err IoEOF \<or> errors_is err IoErrUnexpectedEOF
      then True
      else if errors_as node_net_error err = Some True then True
      else if errors_as node_dns_error err \<noteq> None then True
      else errors_as node_op_error err \<noteq> None)"

definition IsUnavailable :: "(goerror \<Rightarrow> bool) \<Rightarrow> goerror \<Rightarrow> bool" where
  "IsUnavailable pgconn_timeout err =
     (case errors_as node_pg_error err of
        Some code \<Rightarrow> isUnavailableSQLState code
      | None \<Rightarrow>
          if errors_is err ErrConnClosed \<or> pgconn_timeout err then True
          else if errors_is err Canceled \<or> errors_is err DeadlineExceeded then False
          else isNetworkUnavailableError err)"

text \<open>The pool is a pointer that may be nil; \<open>pool_ping\<close> is what the pool's own ping returns
  within the timeout.\<close>

definition Ping :: "('p \<Rightarrow> goerror option) \<Rightarrow> 'p option \<Rightarrow> goerror option" where
  "Ping pool_ping pool =
     (case pool of
        None \<Rightarrow> Some (Plain ''postgres pool is nil'')
      | Some p \<Rightarrow> map_option (Wrapf ''ping postgres: %w'') (pool_ping p))"

text \<open>The steps of opening a pool are pgx's: \<open>parse\<close> is \<^verbatim>\<open>pgxpool.ParseConfig\<close> and
  \<open>open_with\<close> is \<^verbatim>\<open>pgxpool.NewWithConfig\<close>. The parse error is not wrapped: it could quote
  the connection string.\<close>

definition OpenPool ::
  "(string \<Rightarrow> goerror + 'c) \<Rightarrow> ('c \<Rightarrow> goerror + 'p) \<Rightarrow> string \<Rightarrow> goerror + 'p" where
  "OpenPool parse open_with databaseURL =
     (case parse databaseURL of
        Inl _ \<Rightarrow> Inl (Plain ''parse database config: invalid database configuration'')
      | Inr cfg \<Rightarrow>
          (case open_with cfg of
             Inl e \<Rightarrow> Inl (Wrapf ''open database pool: %w'' e)
           | Inr p \<Rightarrow> Inr p))"

lemma IsUnavailable_PgError [simp]:
  "IsUnavailable tmo (PgError code) = isUnavailableSQLState code"
  by (simp add: IsUnavailable_def)

lemma IsUnavailable_Wrapf_PgError [simp]:
  "IsUnavailable tmo (Wrapf m (PgError code)) = isUnavailableSQLState code"
  by (simp add: IsUnavailable_def)

end
