(* ===== verification/Reward_Store.thy ===== *)
theory Reward_Store
  imports Rewards Postgres
begin

text \<open>
  \<^verbatim>\<open>internal/rewards/postgres.go\<close> and the entry point \<^verbatim>\<open>CreateClaim\<close> of \<^verbatim>\<open>service.go\<close>.

  The function \<open>createClaim\<close> runs against a script of \<^emph>\<open>ticks\<close>, one per call to the driver. A
  tick says what other transactions did to the database before the call took effect
  (\<open>t_others\<close>), whether the call failed in the driver or the network (\<open>t_fault\<close>), what the
  request's context was at that moment, and, for a failed commit, whether the server had
  committed all the same (\<open>t_landed\<close>). A call that is still waiting for another transaction
  after \<open>t_others\<close>, or a script that ends, leaves the function without a result (\<open>None\<close>). The
  retry loop of \<^verbatim>\<open>createClaim\<close> is a recursion on the script.

  PostgreSQL's \<^verbatim>\<open>jsonb\<close> input function and pgx's \<^verbatim>\<open>pgconn.Timeout\<close> are parameters, fields of the
  record \<open>tx\<close>, which also holds the transaction's identity, its \<^verbatim>\<open>now()\<close>, and the random bytes
  of the two identifiers.
\<close>

section \<open>Programs over a script of driver calls\<close>

record tick =
  t_others :: "db \<Rightarrow> db"
  t_fault :: "goerror option"
  t_parent :: context_state
  t_expired :: bool
  t_landed :: bool

record tx =
  tx_sid :: session
  tx_now :: timestamp
  tx_rand_claim :: "8 word list"
  tx_rand_event :: "8 word list"
  tx_jsonb_in :: "go_string \<Rightarrow> go_string option"
  tx_pgconn_timeout :: "goerror \<Rightarrow> bool"

type_synonym 'a call = "tick \<Rightarrow> db \<Rightarrow> ((goerror + 'a) \<times> db) option"
type_synonym 'a prog = "tick list \<Rightarrow> db \<Rightarrow> ((goerror + 'a) \<times> tick list \<times> db) option"

definition prog_return :: "'a \<Rightarrow> 'a prog" where
  "prog_return x = (\<lambda>tks d. Some (Inr x, tks, d))"

definition prog_bind :: "'a prog \<Rightarrow> ('a \<Rightarrow> 'b prog) \<Rightarrow> 'b prog" where
  "prog_bind m f = (\<lambda>tks d.
     case m tks d of
       None \<Rightarrow> None
     | Some (r, tks', d') \<Rightarrow>
         (case r of Inl e \<Rightarrow> Some (Inl e, tks', d') | Inr x \<Rightarrow> f x tks' d'))"

definition lift_call :: "'a call \<Rightarrow> 'a prog" where
  "lift_call c = (\<lambda>tks d.
     case tks of
       [] \<Rightarrow> None
     | tk # tks' \<Rightarrow> (case c tk d of None \<Rightarrow> None | Some (r, d') \<Rightarrow> Some (r, tks', d')))"

definition run_stmt :: "(db \<Rightarrow> 'a stmt) \<Rightarrow> 'a call" where
  "run_stmt st = (\<lambda>tk d.
     let d1 = t_others tk d in
     case t_fault tk of
       Some e \<Rightarrow> Some (Inl e, d1)
     | None \<Rightarrow>
         (case st d1 of
            Blocked \<Rightarrow> None
          | Failed e \<Rightarrow> Some (Inl e, d1)
          | Done x d2 \<Rightarrow> Some (Inr x, d2)))"

definition queryContext :: "tick \<Rightarrow> context_state" where
  "queryContext tk = with_timeout_cause RewardsErrQueryTimeout (t_expired tk) (t_parent tk)"

definition rewards_mapPostgresError ::
  "(goerror \<Rightarrow> bool) \<Rightarrow> context_state \<Rightarrow> goerror \<Rightarrow> goerror" where
  "rewards_mapPostgresError tmo c err =
     (if errors_is err ErrNoRows
      then Wrapf ''postgres reward claim operation returned no row: %w'' (Sentinel RewardsErrInternal)
      else if is_ctx_error c err then
        (if ctx_cause_is c RewardsErrQueryTimeout
         then Wrapf ''postgres reward claim operation: %w'' (Sentinel RewardsErrUnavailable)
         else Sentinel (the (ctx_err c)))
      else if IsUnavailable tmo err
      then Wrapf ''postgres reward claim operation: %w'' (Sentinel RewardsErrUnavailable)
      else Wrapf ''postgres reward claim operation: %w'' (Sentinel RewardsErrInternal))"

definition map_err :: "tx \<Rightarrow> tick \<Rightarrow> goerror \<Rightarrow> goerror" where
  "map_err tx tk e = rewards_mapPostgresError (tx_pgconn_timeout tx) (queryContext tk) e"

section \<open>The statements\<close>

definition reserved_row :: "tx \<Rightarrow> createClaimParams \<Rightarrow> idem_row" where
  "reserved_row tx p = \<lparr>
     ik_key_hash = par_KeyHash p, ik_player_id = par_PlayerID p,
     ik_campaign_id = par_CampaignID p, ik_reward_id = par_RewardID p,
     ik_response_status = None, ik_response_body = None, ik_reward_claim_id = None,
     ik_created_at = tx_now tx, ik_owner = Some (tx_sid tx)\<rparr>"

text \<open>\<^verbatim>\<open>INSERT ... ON CONFLICT (key_hash) DO NOTHING\<close>; the value is the number of rows.\<close>

definition sql_reserve :: "tx \<Rightarrow> createClaimParams \<Rightarrow> db \<Rightarrow> int stmt" where
  "sql_reserve tx p d =
     (if \<not> idem_row_chk (reserved_row tx p) then Failed check_violation
      else (case List.find (\<lambda>r. ik_key_hash r = par_KeyHash p) (idem_keys d) of
          Some r \<Rightarrow> if held_by_other (tx_sid tx) (ik_owner r) then Blocked else Done 0 d
        | None \<Rightarrow> Done 1 (d\<lparr>idem_keys := idem_keys d @ [reserved_row tx p]\<rparr>)))"

definition sql_load :: "tx \<Rightarrow> createClaimParams \<Rightarrow> db \<Rightarrow> idem_row stmt" where
  "sql_load tx p d =
     (case List.find (\<lambda>r. visible (tx_sid tx) (ik_owner r) \<and> ik_key_hash r = par_KeyHash p)
             (idem_keys d) of
        Some r \<Rightarrow> Done r d
      | None \<Rightarrow> Failed (Sentinel ErrNoRows))"

definition inserted_claim_row :: "tx \<Rightarrow> createClaimParams \<Rightarrow> claim_row" where
  "inserted_claim_row tx p = \<lparr>
     rc_id = newUUIDV4 (tx_rand_claim tx), rc_player_id = par_PlayerID p,
     rc_campaign_id = par_CampaignID p, rc_reward_id = par_RewardID p,
     rc_created_at = tx_now tx, rc_owner = Some (tx_sid tx)\<rparr>"

text \<open>\<^verbatim>\<open>INSERT ... ON CONFLICT (player_id, campaign_id, reward_id) DO NOTHING RETURNING ...\<close>: the
  conflict target does not cover the primary key, whose violation is an error.\<close>

definition sql_insert_claim :: "tx \<Rightarrow> createClaimParams \<Rightarrow> db \<Rightarrow> claim_row stmt" where
  "sql_insert_claim tx p d =
     (let row = inserted_claim_row tx p in
      if \<not> claim_row_chk row then Failed check_violation
      else (case List.find (\<lambda>r. rc_identity r = rc_identity row) (reward_claims d) of
          Some r \<Rightarrow>
            if held_by_other (tx_sid tx) (rc_owner r) then Blocked else Failed (Sentinel ErrNoRows)
        | None \<Rightarrow>
            (case List.find (\<lambda>r. rc_id r = rc_id row) (reward_claims d) of
               Some r \<Rightarrow>
                 if held_by_other (tx_sid tx) (rc_owner r) then Blocked else Failed unique_violation
             | None \<Rightarrow> Done row (d\<lparr>reward_claims := reward_claims d @ [row]\<rparr>))))"

definition inserted_outbox_row :: "tx \<Rightarrow> claim \<Rightarrow> string \<Rightarrow> go_string \<Rightarrow> outbox_row" where
  "inserted_outbox_row tx c eventID payload = \<lparr>
     ob_id = eventID, ob_aggregate_type = outboxAggregateTypeRewardClaim,
     ob_aggregate_id = cl_ID c, ob_event_type = outboxEventTypeRewardClaimed,
     ob_payload = payload, ob_status = Pending, ob_failed_attempts = 0,
     ob_available_at = tx_now tx, ob_last_failure_reason = None, ob_locked_by = None,
     ob_locked_until = None, ob_created_at = tx_now tx, ob_updated_at = tx_now tx,
     ob_published_at = None, ob_dead_lettered_at = None, ob_owner = Some (tx_sid tx)\<rparr>"

definition sql_insert_outbox :: "tx \<Rightarrow> claim \<Rightarrow> string \<Rightarrow> go_string \<Rightarrow> db \<Rightarrow> unit stmt" where
  "sql_insert_outbox tx c eventID payload d =
     (case tx_jsonb_in tx payload of
        None \<Rightarrow> Failed invalid_text
      | Some stored \<Rightarrow>
          (let row = inserted_outbox_row tx c eventID stored in
           if \<not> outbox_row_chk row then Failed check_violation
           else (case List.find (\<lambda>r. ob_id r = ob_id row \<or> ob_identity r = ob_identity row)
                        (outbox_events d) of
               Some r \<Rightarrow>
                 if held_by_other (tx_sid tx) (ob_owner r) then Blocked else Failed unique_violation
             | None \<Rightarrow> Done () (d\<lparr>outbox_events := outbox_events d @ [row]\<rparr>))))"

definition open_row :: "tx \<Rightarrow> createClaimParams \<Rightarrow> idem_row \<Rightarrow> bool" where
  "open_row tx p r \<longleftrightarrow>
     visible (tx_sid tx) (ik_owner r) \<and> ik_key_hash r = par_KeyHash p \<and>
     ik_player_id r = par_PlayerID p \<and> ik_campaign_id r = par_CampaignID p \<and>
     ik_reward_id r = par_RewardID p \<and>
     ik_response_status r = None \<and> ik_response_body r = None \<and> ik_reward_claim_id r = None"

definition completed_row :: "int \<Rightarrow> go_string \<Rightarrow> string \<Rightarrow> idem_row \<Rightarrow> idem_row" where
  "completed_row statusCode body claimID r = r\<lparr>
     ik_response_status := Some statusCode, ik_response_body := Some body,
     ik_reward_claim_id := (if claimID = '''' then None else Some claimID)\<rparr>"

text \<open>The \<^verbatim>\<open>UPDATE\<close> that stores the response, with its constraint and its foreign key. It runs
  after a successful reservation, so that the row it matches is the transaction's own.\<close>

definition sql_complete ::
  "tx \<Rightarrow> createClaimParams \<Rightarrow> int \<Rightarrow> go_string \<Rightarrow> string \<Rightarrow> db \<Rightarrow> int stmt" where
  "sql_complete tx p statusCode body claimID d =
     (let upd = completed_row statusCode body claimID;
          matched = filter (open_row tx p) (idem_keys d)
      in if list_ex (\<lambda>r. \<not> idem_row_chk (upd r)) matched then Failed check_violation
         else if matched \<noteq> [] \<and> claimID \<noteq> '''' \<and>
                 \<not> list_ex (\<lambda>c. visible (tx_sid tx) (rc_owner c) \<and> rc_id c = claimID)
                     (reward_claims d)
         then Failed foreign_key_violation
         else Done (int (length matched))
                (d\<lparr>idem_keys := map (\<lambda>r. if open_row tx p r then upd r else r) (idem_keys d)\<rparr>))"

section \<open>The functions of postgres.go\<close>

definition begin_tx :: "tx \<Rightarrow> unit call" where
  "begin_tx tx = (\<lambda>tk d.
     case run_stmt (Done ()) tk d of
       None \<Rightarrow> None
     | Some (Inl e, d') \<Rightarrow> Some (Inl (map_err tx tk e), d')
     | Some (Inr u, d') \<Rightarrow> Some (Inr u, d'))"

definition tx_commit :: "tx \<Rightarrow> unit call" where
  "tx_commit tx = (\<lambda>tk d.
     let d1 = t_others tk d in
     case t_fault tk of
       None \<Rightarrow> Some (Inr (), commit_rows (tx_sid tx) d1)
     | Some e \<Rightarrow>
         Some (Inl (map_err tx tk e), if t_landed tk then commit_rows (tx_sid tx) d1 else d1))"

definition tryReserveIdempotencyKey :: "tx \<Rightarrow> createClaimParams \<Rightarrow> bool call" where
  "tryReserveIdempotencyKey tx p = (\<lambda>tk d.
     case run_stmt (sql_reserve tx p) tk d of
       None \<Rightarrow> None
     | Some (Inl e, d') \<Rightarrow> Some (Inl (map_err tx tk e), d')
     | Some (Inr n, d') \<Rightarrow> Some (Inr (n = 1), d'))"

definition check_stored :: "createClaimParams \<Rightarrow> idem_row \<Rightarrow> goerror + CreateClaimResult" where
  "check_stored p r =
     (case (ik_response_status r, ik_response_body r) of
        (Some st, Some body) \<Rightarrow>
          if body = [] then
            Inl (Wrapf ''committed idempotency key missing stored response: %w''
                   (Sentinel RewardsErrInternal))
          else if ik_player_id r \<noteq> par_PlayerID p \<or> ik_campaign_id r \<noteq> par_CampaignID p
                  \<or> ik_reward_id r \<noteq> par_RewardID p
          then Inl (Sentinel ErrIdempotencyKeyReused)
          else if st \<noteq> createClaimStatusCreated \<and> st \<noteq> createClaimStatusConflict
          then Inl (Wrapf ''unexpected stored reward claim response status %d: %w''
                      (Sentinel RewardsErrInternal))
          else if \<not> valid_string body \<or> \<not> json_valid body
          then Inl (Wrapf ''invalid stored reward claim response body: %w''
                      (Sentinel RewardsErrInternal))
          else Inr \<lparr>res_StatusCode = st, res_ResponseBody = body, res_Replayed = True\<rparr>
      | _ \<Rightarrow> Inl (Wrapf ''committed idempotency key missing stored response: %w''
                   (Sentinel RewardsErrInternal)))"

definition tryLoadIdempotentClaimResult ::
  "tx \<Rightarrow> createClaimParams \<Rightarrow> CreateClaimResult option call" where
  "tryLoadIdempotentClaimResult tx p = (\<lambda>tk d.
     case run_stmt (sql_load tx p) tk d of
       None \<Rightarrow> None
     | Some (Inl e, d') \<Rightarrow>
         if errors_is e ErrNoRows then Some (Inr None, d') else Some (Inl (map_err tx tk e), d')
     | Some (Inr r, d') \<Rightarrow>
         (case check_stored p r of Inl e \<Rightarrow> Some (Inl e, d') | Inr res \<Rightarrow> Some (Inr (Some res), d')))"

definition claim_of_row :: "claim_row \<Rightarrow> claim" where
  "claim_of_row r = \<lparr>cl_ID = rc_id r, cl_PlayerID = rc_player_id r,
     cl_CampaignID = rc_campaign_id r, cl_RewardID = rc_reward_id r,
     cl_CreatedAt = rc_created_at r\<rparr>"

definition tryInsertClaim :: "tx \<Rightarrow> createClaimParams \<Rightarrow> claim option call" where
  "tryInsertClaim tx p = (\<lambda>tk d.
     case run_stmt (sql_insert_claim tx p) tk d of
       None \<Rightarrow> None
     | Some (Inl e, d') \<Rightarrow>
         if errors_is e ErrNoRows then Some (Inr None, d') else Some (Inl (map_err tx tk e), d')
     | Some (Inr r, d') \<Rightarrow> Some (Inr (Some (claim_of_row r)), d'))"

definition insertRewardClaimedOutboxEvent :: "tx \<Rightarrow> claim \<Rightarrow> unit prog" where
  "insertRewardClaimedOutboxEvent tx c =
     (let eventID = newUUIDV4 (tx_rand_event tx) in
      case marshal_event eventID c of
        None \<Rightarrow> (\<lambda>tks d. Some (Inl (Wrapf ''marshal reward claimed outbox payload: %w''
                                     (Sentinel RewardsErrInternal)), tks, d))
      | Some payload \<Rightarrow> lift_call (\<lambda>tk d.
          case run_stmt (sql_insert_outbox tx c eventID payload) tk d of
            None \<Rightarrow> None
          | Some (Inl e, d') \<Rightarrow> Some (Inl (map_err tx tk e), d')
          | Some (Inr u, d') \<Rightarrow> Some (Inr u, d')))"

definition completeIdempotencyKey ::
  "tx \<Rightarrow> createClaimParams \<Rightarrow> int \<Rightarrow> go_string \<Rightarrow> string \<Rightarrow> unit call" where
  "completeIdempotencyKey tx p statusCode body claimID = (\<lambda>tk d.
     case run_stmt (sql_complete tx p statusCode body claimID) tk d of
       None \<Rightarrow> None
     | Some (Inl e, d') \<Rightarrow> Some (Inl (map_err tx tk e), d')
     | Some (Inr n, d') \<Rightarrow>
         if n \<noteq> 1
         then Some (Inl (Wrapf ''complete idempotency key affected %d rows: %w''
                           (Sentinel RewardsErrInternal)), d')
         else Some (Inr (), d'))"

definition completeCreatedClaim :: "tx \<Rightarrow> createClaimParams \<Rightarrow> claim \<Rightarrow> CreateClaimResult prog" where
  "completeCreatedClaim tx p c =
     (let body = marshalCreatedClaimResponse c in
      prog_bind (insertRewardClaimedOutboxEvent tx c) (\<lambda>_.
      prog_bind (lift_call (completeIdempotencyKey tx p createClaimStatusCreated body (cl_ID c)))
        (\<lambda>_. prog_return \<lparr>res_StatusCode = createClaimStatusCreated, res_ResponseBody = body,
                res_Replayed = False\<rparr>)))"

definition completeDuplicateClaim :: "tx \<Rightarrow> createClaimParams \<Rightarrow> CreateClaimResult prog" where
  "completeDuplicateClaim tx p =
     (let body = marshalDuplicateClaimResponse in
      prog_bind (lift_call (completeIdempotencyKey tx p createClaimStatusConflict body ''''))
        (\<lambda>_. prog_return \<lparr>res_StatusCode = createClaimStatusConflict, res_ResponseBody = body,
                res_Replayed = False\<rparr>))"

text \<open>The \<^verbatim>\<open>for\<close> loop: \<open>None\<close> when it leaves by \<^verbatim>\<open>break\<close> with the key reserved, \<open>Some result\<close>
  when a stored response was found and is about to be committed and returned.\<close>

fun reserve_loop :: "tx \<Rightarrow> createClaimParams \<Rightarrow> CreateClaimResult option prog" where
  "reserve_loop tx p [] d = None"
| "reserve_loop tx p (tk # tks) d =
     (case tryReserveIdempotencyKey tx p tk d of
        None \<Rightarrow> None
      | Some (Inl e, d1) \<Rightarrow> Some (Inl e, tks, d1)
      | Some (Inr reserved, d1) \<Rightarrow>
          if reserved then Some (Inr None, tks, d1)
          else (case tks of
              [] \<Rightarrow> None
            | tk2 # tks2 \<Rightarrow>
                (case tryLoadIdempotentClaimResult tx p tk2 d1 of
                   None \<Rightarrow> None
                 | Some (Inl e, d2) \<Rightarrow> Some (Inl e, tks2, d2)
                 | Some (Inr None, d2) \<Rightarrow> reserve_loop tx p tks2 d2
                 | Some (Inr (Some result), d2) \<Rightarrow> Some (Inr (Some result), tks2, d2))))"

declare reserve_loop.simps [simp del]

definition commit_result :: "tx \<Rightarrow> CreateClaimResult \<Rightarrow> CreateClaimResult prog" where
  "commit_result tx result = prog_bind (lift_call (tx_commit tx)) (\<lambda>_. prog_return result)"

definition createClaim_body :: "tx \<Rightarrow> createClaimParams \<Rightarrow> CreateClaimResult prog" where
  "createClaim_body tx p =
     prog_bind (reserve_loop tx p) (\<lambda>found.
       case found of
         Some result \<Rightarrow> commit_result tx result
       | None \<Rightarrow>
           prog_bind (lift_call (tryInsertClaim tx p)) (\<lambda>created.
             case created of
               None \<Rightarrow> prog_bind (completeDuplicateClaim tx p) (commit_result tx)
             | Some c \<Rightarrow> prog_bind (completeCreatedClaim tx p c) (commit_result tx)))"

text \<open>The deferred \<^verbatim>\<open>rollbackTransaction\<close>: whatever the outcome, the rows that are still
  uncommitted go. After a commit there are none.\<close>

definition rollbackTransaction :: "tx \<Rightarrow> 'a prog \<Rightarrow> 'a prog" where
  "rollbackTransaction tx m = (\<lambda>tks d.
     case m tks d of
       None \<Rightarrow> None
     | Some (r, tks', d') \<Rightarrow> Some (r, tks', rollback_rows (tx_sid tx) d'))"

definition createClaim :: "tx \<Rightarrow> createClaimParams \<Rightarrow> CreateClaimResult prog" where
  "createClaim tx p =
     prog_bind (lift_call (begin_tx tx)) (\<lambda>_. rollbackTransaction tx (createClaim_body tx p))"

text \<open>\<^verbatim>\<open>NewService\<close>: the pool may be absent (\<open>None\<close>), the timeout is in nanoseconds.\<close>

definition NewService :: "'pool option \<Rightarrow> int \<Rightarrow> goerror + ('pool \<times> int)" where
  "NewService pool queryTimeout =
     (case pool of
        None \<Rightarrow> Inl (Plain ''reward claim pool is required'')
      | Some p \<Rightarrow>
          if queryTimeout \<le> 0
          then Inl (Plain ''reward claim query timeout must be greater than zero'')
          else Inr (p, queryTimeout))"

definition CreateClaim :: "tx \<Rightarrow> CreateClaimCommand \<Rightarrow> CreateClaimResult prog" where
  "CreateClaim tx cmd =
     (case prepareCreateClaim cmd of
        Inl e \<Rightarrow> (\<lambda>tks d. Some (Inl e, tks, d))
      | Inr p \<Rightarrow> (\<lambda>tks d.
          case createClaim tx p tks d of
            None \<Rightarrow> None
          | Some (Inl e, tks', d') \<Rightarrow> Some (Inl (Wrapf ''create reward claim: %w'' e), tks', d')
          | Some (Inr r, tks', d') \<Rightarrow> Some (Inr r, tks', d')))"

end
