(* ===== verification/Reward_Claims.thy ===== *)
theory Reward_Claims
  imports Reward_Store
begin

text \<open>
  What a reward-claim request does to the database, for one request at a time: the functional
  behaviour of \<open>createClaim\<close> on each of its branches.
\<close>

section \<open>Quiet ticks\<close>

text \<open>A tick is quiet when no other transaction does anything and the call does not fail.\<close>

definition quiet :: "tick \<Rightarrow> bool" where
  "quiet tk \<longleftrightarrow> (\<forall>d. t_others tk d = d) \<and> t_fault tk = None"

definition quiet_tick :: tick where
  "quiet_tick = \<lparr>t_others = (\<lambda>d. d), t_fault = None, t_parent = Live, t_expired = False,
     t_landed = False\<rparr>"

lemma quiet_quiet_tick [simp]: "quiet quiet_tick"
  by (simp add: quiet_def quiet_tick_def)

lemma run_stmt_quiet:
  "quiet tk \<Longrightarrow> run_stmt st tk d =
     (case st d of Blocked \<Rightarrow> None | Failed e \<Rightarrow> Some (Inl e, d) | Done x d2 \<Rightarrow> Some (Inr x, d2))"
  by (simp add: run_stmt_def quiet_def)

lemma tx_commit_quiet: "quiet tk \<Longrightarrow> tx_commit tx tk d = Some (Inr (), commit_rows (tx_sid tx) d)"
  by (simp add: tx_commit_def quiet_def)

lemma begin_tx_quiet: "quiet tk \<Longrightarrow> begin_tx tx tk d = Some (Inr (), d)"
  by (simp add: begin_tx_def run_stmt_quiet)

lemma lift_call_Cons [simp]:
  "lift_call c (tk # tks) d = (case c tk d of None \<Rightarrow> None | Some (r, d') \<Rightarrow> Some (r, tks, d'))"
  by (simp add: lift_call_def)

lemma commit_result_quiet:
  "quiet tk \<Longrightarrow> commit_result tx r (tk # tks) d = Some (Inr r, tks, commit_rows (tx_sid tx) d)"
  by (simp add: commit_result_def prog_bind_def prog_return_def tx_commit_quiet)

lemma createClaim_quiet:
  "quiet tk \<Longrightarrow> createClaim_body tx p tks d = Some (r, tks', d') \<Longrightarrow>
     createClaim tx p (tk # tks) d = Some (r, tks', rollback_rows (tx_sid tx) d')"
  by (simp add: createClaim_def prog_bind_def begin_tx_quiet rollbackTransaction_def)

lemmas quiet_calls = run_stmt_quiet tx_commit_quiet begin_tx_quiet

section \<open>States a request starts from\<close>

definition idle_session :: "session \<Rightarrow> db \<Rightarrow> bool" where
  "idle_session sid d \<longleftrightarrow>
     (\<forall>r \<in> set (reward_claims d). rc_owner r \<noteq> Some sid) \<and>
     (\<forall>r \<in> set (idem_keys d). ik_owner r \<noteq> Some sid) \<and>
     (\<forall>r \<in> set (outbox_events d). ob_owner r \<noteq> Some sid)"

definition key_free :: "createClaimParams \<Rightarrow> db \<Rightarrow> bool" where
  "key_free p d \<longleftrightarrow> (\<forall>r \<in> set (idem_keys d). ik_key_hash r \<noteq> par_KeyHash p)"

definition identity_free :: "createClaimParams \<Rightarrow> db \<Rightarrow> bool" where
  "identity_free p d \<longleftrightarrow> (\<forall>r \<in> set (reward_claims d). rc_identity r \<noteq> par_identity p)"

text \<open>The two identifiers drawn for the request are new.\<close>

definition event_free :: "tx \<Rightarrow> db \<Rightarrow> bool" where
  "event_free tx d \<longleftrightarrow>
     (\<forall>r \<in> set (outbox_events d).
        ob_id r \<noteq> newUUIDV4 (tx_rand_event tx) \<and>
        ob_aggregate_id r \<noteq> newUUIDV4 (tx_rand_claim tx))"

definition ids_free :: "tx \<Rightarrow> db \<Rightarrow> bool" where
  "ids_free tx d \<longleftrightarrow>
     (\<forall>r \<in> set (reward_claims d). rc_id r \<noteq> newUUIDV4 (tx_rand_claim tx)) \<and> event_free tx d"

definition year_ok :: "tx \<Rightarrow> bool" where
  "year_ok tx \<longleftrightarrow> 0 \<le> year_of (tx_now tx) \<and> year_of (tx_now tx) \<le> 9999"

text \<open>The rows a new claim leaves, and its response.\<close>

definition new_claim :: "tx \<Rightarrow> createClaimParams \<Rightarrow> claim" where
  "new_claim tx p = claim_of_row (inserted_claim_row tx p)"

definition event_payload :: "tx \<Rightarrow> createClaimParams \<Rightarrow> go_string" where
  "event_payload tx p = json_print (newRewardClaimedEvent (newUUIDV4 (tx_rand_event tx)) (new_claim tx p))"

definition created_result :: "tx \<Rightarrow> createClaimParams \<Rightarrow> CreateClaimResult" where
  "created_result tx p = \<lparr>res_StatusCode = createClaimStatusCreated,
     res_ResponseBody = marshalCreatedClaimResponse (new_claim tx p), res_Replayed = False\<rparr>"

definition conflict_result :: CreateClaimResult where
  "conflict_result = \<lparr>res_StatusCode = createClaimStatusConflict,
     res_ResponseBody = marshalDuplicateClaimResponse, res_Replayed = False\<rparr>"

definition stored_created_row :: "tx \<Rightarrow> createClaimParams \<Rightarrow> idem_row" where
  "stored_created_row tx p = (completed_row createClaimStatusCreated
     (marshalCreatedClaimResponse (new_claim tx p)) (cl_ID (new_claim tx p)) (reserved_row tx p))
     \<lparr>ik_owner := None\<rparr>"

definition stored_conflict_row :: "tx \<Rightarrow> createClaimParams \<Rightarrow> idem_row" where
  "stored_conflict_row tx p =
     (completed_row createClaimStatusConflict marshalDuplicateClaimResponse '''' (reserved_row tx p))
     \<lparr>ik_owner := None\<rparr>"

section \<open>The statements in those states\<close>

lemma newUUIDV4_nonempty [simp]: "newUUIDV4 rnd \<noteq> ''''"
  by (simp add: newUUIDV4_def Let_def)

lemma reserved_row_chk: "params_ok p \<Longrightarrow> idem_row_chk (reserved_row tx p)"
  by (auto simp: params_ok_def idem_row_chk_def reserved_row_def response_shape_chk_def)

lemma inserted_claim_row_chk: "params_ok p \<Longrightarrow> claim_row_chk (inserted_claim_row tx p)"
  by (auto simp: params_ok_def claim_row_chk_def inserted_claim_row_def)

lemma inserted_outbox_row_chk:
  "outbox_row_chk (inserted_outbox_row tx c e payload) \<longleftrightarrow> payload_object_chk payload"
  by (simp add: inserted_outbox_row_def row_chk_defs text_between_def rune_count_ascii
      outboxAggregateTypeRewardClaim_def outboxEventTypeRewardClaimed_def)

lemma find_key_free:
  "key_free p d \<Longrightarrow> List.find (\<lambda>r. ik_key_hash r = par_KeyHash p) (idem_keys d) = None"
  by (simp add: key_free_def find_None_conv)

lemma reserve_key_free:
  assumes "params_ok p" and "key_free p d" and "quiet tk"
  shows "tryReserveIdempotencyKey tx p tk d =
    Some (Inr True, d\<lparr>idem_keys := idem_keys d @ [reserved_row tx p]\<rparr>)"
  using assms
  by (simp add: tryReserveIdempotencyKey_def quiet_calls sql_reserve_def reserved_row_chk
      find_key_free)

lemma rc_identity_inserted [simp]: "rc_identity (inserted_claim_row tx p) = par_identity p"
  by (simp add: rc_identity_def inserted_claim_row_def par_identity_def)

lemma rc_id_inserted [simp]: "rc_id (inserted_claim_row tx p) = newUUIDV4 (tx_rand_claim tx)"
  by (simp add: inserted_claim_row_def)

lemma insert_claim_free:
  assumes "params_ok p" and "identity_free p d" and "ids_free tx d" and "quiet tk"
  shows "tryInsertClaim tx p tk d =
    Some (Inr (Some (new_claim tx p)),
          d\<lparr>reward_claims := reward_claims d @ [inserted_claim_row tx p]\<rparr>)"
proof -
  have "List.find (\<lambda>r. rc_identity r = par_identity p) (reward_claims d) = None"
    and "List.find (\<lambda>r. rc_id r = newUUIDV4 (tx_rand_claim tx)) (reward_claims d) = None"
    using assms by (auto simp: find_None_conv identity_free_def ids_free_def)
  with assms show ?thesis
    by (simp add: tryInsertClaim_def quiet_calls sql_insert_claim_def Let_def
        inserted_claim_row_chk new_claim_def)
qed

lemma insert_claim_taken:
  assumes "params_ok p" and "\<not> identity_free p d" and "\<forall>r \<in> set (reward_claims d). rc_owner r = None"
    and "quiet tk"
  shows "tryInsertClaim tx p tk d = Some (Inr None, d)"
proof -
  from assms(2) obtain r where "List.find (\<lambda>r. rc_identity r = par_identity p) (reward_claims d) = Some r"
    by (cases "List.find (\<lambda>r. rc_identity r = par_identity p) (reward_claims d)")
       (auto simp: find_None_conv identity_free_def)
  moreover from this have "rc_owner r = None" using assms(3) by (auto dest: find_Some_conv)
  ultimately show ?thesis using assms
    by (simp add: tryInsertClaim_def quiet_calls sql_insert_claim_def Let_def
        inserted_claim_row_chk)
qed

lemma cl_ID_new_claim [simp]: "cl_ID (new_claim tx p) = newUUIDV4 (tx_rand_claim tx)"
  by (simp add: new_claim_def claim_of_row_def)

lemma cl_CreatedAt_new_claim [simp]: "cl_CreatedAt (new_claim tx p) = tx_now tx"
  by (simp add: new_claim_def claim_of_row_def inserted_claim_row_def)

lemma insert_event_free:
  assumes "event_free tx d" and "year_ok tx" and "tx_jsonb_in tx (event_payload tx p) = Some stored"
    and "payload_object_chk stored" and "quiet tk"
  shows "insertRewardClaimedOutboxEvent tx (new_claim tx p) (tk # tks) d =
    Some (Inr (), tks, d\<lparr>outbox_events := outbox_events d @
       [inserted_outbox_row tx (new_claim tx p) (newUUIDV4 (tx_rand_event tx)) stored]\<rparr>)"
proof -
  let ?row = "inserted_outbox_row tx (new_claim tx p) (newUUIDV4 (tx_rand_event tx)) stored"
  have "List.find (\<lambda>r. ob_id r = ob_id ?row \<or> ob_identity r = ob_identity ?row) (outbox_events d) = None"
    using assms(1)
    by (auto simp: find_None_conv event_free_def ob_identity_def inserted_outbox_row_def)
  moreover have "marshal_event (newUUIDV4 (tx_rand_event tx)) (new_claim tx p) = Some (event_payload tx p)"
    using assms(2) by (simp add: marshal_event_def event_payload_def year_ok_def)
  ultimately show ?thesis using assms
    by (simp add: insertRewardClaimedOutboxEvent_def Let_def quiet_calls sql_insert_outbox_def
        inserted_outbox_row_chk)
qed

lemma open_reserved_row [simp]: "open_row tx p (reserved_row tx p)"
  by (simp add: open_row_def reserved_row_def)

lemma filter_open_key_free: "key_free p d \<Longrightarrow> filter (open_row tx p) (idem_keys d) = []"
  by (auto simp: filter_empty_conv key_free_def open_row_def)

lemma map_open_key_free:
  "key_free p d \<Longrightarrow> map (\<lambda>r. if open_row tx p r then f r else r) (idem_keys d) = idem_keys d"
  by (rule map_idI) (auto simp: key_free_def open_row_def)

lemma completed_created_chk:
  "params_ok p \<Longrightarrow> idem_row_chk (completed_row createClaimStatusCreated
     (marshalCreatedClaimResponse c) (newUUIDV4 rnd) (reserved_row tx p))"
  using reserved_row_chk[of p tx] marshalCreatedClaimResponse_valid(3)[of c]
  by (simp add: idem_row_chk_def completed_row_def response_shape_chk_def createClaimStatusCreated_def)

lemma completed_conflict_chk:
  "params_ok p \<Longrightarrow> idem_row_chk (completed_row createClaimStatusConflict
     marshalDuplicateClaimResponse '''' (reserved_row tx p))"
  using reserved_row_chk[of p tx] marshalDuplicateClaimResponse_valid(3)
  by (simp add: idem_row_chk_def completed_row_def response_shape_chk_def createClaimStatusConflict_def)

text \<open>Storing the response completes exactly the reserved row.\<close>

lemma complete_reserved:
  assumes "key_free p d" and "d'  = d1\<lparr>idem_keys := idem_keys d @ [reserved_row tx p]\<rparr>"
    and "idem_row_chk (completed_row st body cid (reserved_row tx p))"
    and "cid = '''' \<or> (\<exists>c \<in> set (reward_claims d1). visible (tx_sid tx) (rc_owner c) \<and> rc_id c = cid)"
    and "quiet tk"
  shows "completeIdempotencyKey tx p st body cid tk d' =
    Some (Inr (), d1\<lparr>idem_keys := idem_keys d @ [completed_row st body cid (reserved_row tx p)]\<rparr>)"
proof -
  have "cid = '''' \<or> list_ex (\<lambda>c. visible (tx_sid tx) (rc_owner c) \<and> rc_id c = cid) (reward_claims d1)"
    using assms(4) by (auto simp: list_ex_iff)
  with assms show ?thesis
    by (simp add: completeIdempotencyKey_def quiet_calls sql_complete_def Let_def
        filter_open_key_free map_open_key_free)
qed

section \<open>A new claim\<close>

lemma idle_session_rollback: "idle_session sid d \<Longrightarrow> rollback_rows sid d = d"
  by (auto simp: idle_session_def rollback_rows_def filter_id_conv intro!: db.equality)

lemma idle_session_commit: "idle_session sid d \<Longrightarrow> commit_rows sid d = d"
  by (auto simp: idle_session_def commit_rows_def intro!: db.equality map_idI)

lemma idle_session_maps:
  assumes "idle_session sid d"
  shows "map (\<lambda>r. if rc_owner r = Some sid then r\<lparr>rc_owner := None\<rparr> else r) (reward_claims d) = reward_claims d"
    and "map (\<lambda>r. if ik_owner r = Some sid then r\<lparr>ik_owner := None\<rparr> else r) (idem_keys d) = idem_keys d"
    and "map (\<lambda>r. if ob_owner r = Some sid then r\<lparr>ob_owner := None\<rparr> else r) (outbox_events d) = outbox_events d"
  using assms by (auto simp: idle_session_def intro!: map_idI)

lemma idle_session_filters:
  assumes "idle_session sid d"
  shows "filter (\<lambda>r. rc_owner r \<noteq> Some sid) (reward_claims d) = reward_claims d"
    and "filter (\<lambda>r. ik_owner r \<noteq> Some sid) (idem_keys d) = idem_keys d"
    and "filter (\<lambda>r. ob_owner r \<noteq> Some sid) (outbox_events d) = outbox_events d"
  using assms by (auto simp: idle_session_def filter_id_conv)

definition created_db :: "tx \<Rightarrow> createClaimParams \<Rightarrow> go_string \<Rightarrow> db \<Rightarrow> db" where
  "created_db tx p stored d = d\<lparr>
     reward_claims := reward_claims d @ [(inserted_claim_row tx p)\<lparr>rc_owner := None\<rparr>],
     idem_keys := idem_keys d @ [stored_created_row tx p],
     outbox_events := outbox_events d @
       [(inserted_outbox_row tx (new_claim tx p) (newUUIDV4 (tx_rand_event tx)) stored)
          \<lparr>ob_owner := None\<rparr>]\<rparr>"

lemma owner_simps [simp]:
  "ik_owner (reserved_row tx p) = Some (tx_sid tx)"
  "ik_owner (completed_row st body cid r) = ik_owner r"
  "rc_owner (inserted_claim_row tx p) = Some (tx_sid tx)"
  "ob_owner (inserted_outbox_row tx c e s) = Some (tx_sid tx)"
  by (simp_all add: reserved_row_def completed_row_def inserted_claim_row_def inserted_outbox_row_def)

lemma createClaim_new:
  assumes "params_ok p" "key_free p d" "identity_free p d" "ids_free tx d" "year_ok tx"
    "idle_session (tx_sid tx) d" "tx_jsonb_in tx (event_payload tx p) = Some stored"
    "payload_object_chk stored"
    "quiet q1" "quiet q2" "quiet q3" "quiet q4" "quiet q5" "quiet q6"
  shows "createClaim tx p (q1 # q2 # q3 # q4 # q5 # q6 # tks) d =
    Some (Inr (created_result tx p), tks, created_db tx p stored d)"
proof -
  let ?d1 = "d\<lparr>idem_keys := idem_keys d @ [reserved_row tx p]\<rparr>"
  let ?d2 = "?d1\<lparr>reward_claims := reward_claims d @ [inserted_claim_row tx p]\<rparr>"
  let ?row = "inserted_outbox_row tx (new_claim tx p) (newUUIDV4 (tx_rand_event tx)) stored"
  let ?d3 = "?d2\<lparr>outbox_events := outbox_events d @ [?row]\<rparr>"
  let ?done = "completed_row createClaimStatusCreated (marshalCreatedClaimResponse (new_claim tx p))
     (newUUIDV4 (tx_rand_claim tx)) (reserved_row tx p)"
  have reserve: "reserve_loop tx p (q2 # q3 # q4 # q5 # q6 # tks) d =
      Some (Inr None, q3 # q4 # q5 # q6 # tks, ?d1)"
    using assms by (simp add: reserve_loop.simps reserve_key_free)
  have insert: "tryInsertClaim tx p q3 ?d1 = Some (Inr (Some (new_claim tx p)), ?d2)"
    using insert_claim_free[of p ?d1 tx q3] assms by (simp add: identity_free_def ids_free_def event_free_def)
  have event: "insertRewardClaimedOutboxEvent tx (new_claim tx p) (q4 # q5 # q6 # tks) ?d2 =
      Some (Inr (), q5 # q6 # tks, ?d3)"
    using insert_event_free[of tx ?d2 p stored q4] assms by (simp add: ids_free_def event_free_def)
  have complete: "completeIdempotencyKey tx p createClaimStatusCreated
      (marshalCreatedClaimResponse (new_claim tx p)) (newUUIDV4 (tx_rand_claim tx)) q5 ?d3 =
      Some (Inr (), ?d3\<lparr>idem_keys := idem_keys d @ [?done]\<rparr>)"
    using assms by (intro complete_reserved) (auto simp: completed_created_chk)
  have created: "completeCreatedClaim tx p (new_claim tx p) (q4 # q5 # q6 # tks) ?d2 =
      Some (Inr (created_result tx p), q6 # tks, ?d3\<lparr>idem_keys := idem_keys d @ [?done]\<rparr>)"
    by (simp add: completeCreatedClaim_def Let_def event complete
        prog_bind_def prog_return_def created_result_def)
  have "createClaim_body tx p (q2 # q3 # q4 # q5 # q6 # tks) d =
      Some (Inr (created_result tx p), tks,
            commit_rows (tx_sid tx) (?d3\<lparr>idem_keys := idem_keys d @ [?done]\<rparr>))"
    using assms
    by (simp add: createClaim_body_def prog_bind_def reserve insert created commit_result_quiet)
  from createClaim_quiet[OF _ this] assms show ?thesis
    by (simp add: created_db_def stored_created_row_def commit_rows_def rollback_rows_def
        idle_session_maps idle_session_filters)
qed

section \<open>A reward that is taken\<close>

definition conflict_db :: "tx \<Rightarrow> createClaimParams \<Rightarrow> db \<Rightarrow> db" where
  "conflict_db tx p d = d\<lparr>idem_keys := idem_keys d @ [stored_conflict_row tx p]\<rparr>"

lemma createClaim_taken:
  assumes "params_ok p" "key_free p d" "\<not> identity_free p d"
    "\<forall>r \<in> set (reward_claims d). rc_owner r = None" "idle_session (tx_sid tx) d"
    "quiet q1" "quiet q2" "quiet q3" "quiet q4" "quiet q5"
  shows "createClaim tx p (q1 # q2 # q3 # q4 # q5 # tks) d =
    Some (Inr conflict_result, tks, conflict_db tx p d)"
proof -
  let ?d1 = "d\<lparr>idem_keys := idem_keys d @ [reserved_row tx p]\<rparr>"
  let ?done = "completed_row createClaimStatusConflict marshalDuplicateClaimResponse ''''
     (reserved_row tx p)"
  have reserve: "reserve_loop tx p (q2 # q3 # q4 # q5 # tks) d =
      Some (Inr None, q3 # q4 # q5 # tks, ?d1)"
    using assms by (simp add: reserve_loop.simps reserve_key_free)
  have insert: "tryInsertClaim tx p q3 ?d1 = Some (Inr None, ?d1)"
    using insert_claim_taken[of p ?d1 q3 tx] assms by (simp add: identity_free_def)
  have complete: "completeIdempotencyKey tx p createClaimStatusConflict
      marshalDuplicateClaimResponse '''' q4 ?d1 =
      Some (Inr (), d\<lparr>idem_keys := idem_keys d @ [?done]\<rparr>)"
    using assms by (intro complete_reserved) (auto simp: completed_conflict_chk)
  have "createClaim_body tx p (q2 # q3 # q4 # q5 # tks) d =
      Some (Inr conflict_result, tks,
            commit_rows (tx_sid tx) (d\<lparr>idem_keys := idem_keys d @ [?done]\<rparr>))"
    using assms
    by (simp add: createClaim_body_def completeDuplicateClaim_def Let_def prog_bind_def
        prog_return_def reserve insert complete commit_result_quiet conflict_result_def)
  from createClaim_quiet[OF _ this] assms show ?thesis
    by (simp add: conflict_db_def stored_conflict_row_def commit_rows_def rollback_rows_def
        idle_session_maps idle_session_filters)
qed

section \<open>A key that is stored\<close>

definition unique_keys :: "db \<Rightarrow> bool" where
  "unique_keys d \<longleftrightarrow> distinct (map ik_key_hash (idem_keys d))"

text \<open>The row a committed key finds.\<close>

definition stored_under :: "createClaimParams \<Rightarrow> idem_row \<Rightarrow> db \<Rightarrow> bool" where
  "stored_under p r d \<longleftrightarrow>
     unique_keys d \<and> r \<in> set (idem_keys d) \<and> ik_key_hash r = par_KeyHash p \<and> ik_owner r = None"

lemma stored_under_find:
  assumes "stored_under p r d"
  shows "List.find (\<lambda>r. ik_key_hash r = par_KeyHash p) (idem_keys d) = Some r"
    and "List.find (\<lambda>r. visible sid (ik_owner r) \<and> ik_key_hash r = par_KeyHash p) (idem_keys d) = Some r"
proof -
  have *: "List.find P (idem_keys d) = Some r"
    if "P r" and "\<And>x. P x \<Longrightarrow> ik_key_hash x = par_KeyHash p" for P
  proof (cases "List.find P (idem_keys d)")
    case None
    with assms that show ?thesis by (auto simp: find_None_conv stored_under_def)
  next
    case (Some x)
    then have "x \<in> set (idem_keys d)" and "P x" by (auto dest: find_Some_conv)
    with that assms have "x = r"
      unfolding stored_under_def unique_keys_def by (metis distinct_map_eqD)
    with Some show ?thesis by simp
  qed
  show "List.find (\<lambda>r. ik_key_hash r = par_KeyHash p) (idem_keys d) = Some r"
    using assms by (intro *) (auto simp: stored_under_def)
  show "List.find (\<lambda>r. visible sid (ik_owner r) \<and> ik_key_hash r = par_KeyHash p) (idem_keys d) = Some r"
    using assms by (intro *) (auto simp: stored_under_def)
qed

lemma reserve_loop_stored:
  assumes "params_ok p" "stored_under p r d" "quiet q1" "quiet q2"
  shows "reserve_loop tx p (q1 # q2 # tks) d =
    (case check_stored p r of
       Inl e \<Rightarrow> Some (Inl e, tks, d) | Inr res \<Rightarrow> Some (Inr (Some res), tks, d))"
proof -
  have "tryReserveIdempotencyKey tx p q1 d = Some (Inr False, d)"
    using assms
    by (simp add: tryReserveIdempotencyKey_def run_stmt_quiet sql_reserve_def reserved_row_chk
        stored_under_find) (simp add: stored_under_def)
  moreover have "tryLoadIdempotentClaimResult tx p q2 d =
      (case check_stored p r of
         Inl e \<Rightarrow> Some (Inl e, d) | Inr res \<Rightarrow> Some (Inr (Some res), d))"
    using assms
    by (simp add: tryLoadIdempotentClaimResult_def run_stmt_quiet sql_load_def stored_under_find)
  ultimately show ?thesis
    by (simp add: reserve_loop.simps split: sum.splits)
qed

lemma createClaim_stored:
  assumes "params_ok p" "stored_under p r d" "idle_session (tx_sid tx) d"
    and "check_stored p r = Inr res" "quiet q1" "quiet q2" "quiet q3" "quiet q4"
  shows "createClaim tx p (q1 # q2 # q3 # q4 # tks) d = Some (Inr res, tks, d)"
proof -
  have "createClaim_body tx p (q2 # q3 # q4 # tks) d = Some (Inr res, tks, commit_rows (tx_sid tx) d)"
    using assms
    by (simp add: createClaim_body_def prog_bind_def reserve_loop_stored commit_result_quiet)
  from createClaim_quiet[OF _ this] assms show ?thesis
    by (simp add: idle_session_rollback idle_session_commit)
qed

lemma createClaim_stored_error:
  assumes "params_ok p" "stored_under p r d" "idle_session (tx_sid tx) d"
    and "check_stored p r = Inl e" "quiet q1" "quiet q2" "quiet q3"
  shows "createClaim tx p (q1 # q2 # q3 # tks) d = Some (Inl e, tks, d)"
proof -
  have "createClaim_body tx p (q2 # q3 # tks) d = Some (Inl e, tks, d)"
    using assms by (simp add: createClaim_body_def prog_bind_def reserve_loop_stored)
  from createClaim_quiet[OF _ this] assms show ?thesis
    by (simp add: idle_session_rollback)
qed

lemma check_stored_replay:
  assumes "ik_response_status r = Some st" "ik_response_body r = Some body" "body \<noteq> []"
    "st = 201 \<or> st = 409" "valid_string body" "json_valid body"
    "ik_player_id r = par_PlayerID p" "ik_campaign_id r = par_CampaignID p" "ik_reward_id r = par_RewardID p"
  shows "check_stored p r = Inr \<lparr>res_StatusCode = st, res_ResponseBody = body, res_Replayed = True\<rparr>"
  using assms
  by (auto simp: check_stored_def createClaimStatusCreated_def createClaimStatusConflict_def)

lemma check_stored_reused:
  assumes "response_shape_chk r" "ik_response_status r \<noteq> None"
    "(ik_player_id r, ik_campaign_id r, ik_reward_id r) \<noteq> par_identity p"
  shows "check_stored p r = Inl (Sentinel ErrIdempotencyKeyReused)"
  using assms
  by (auto simp: check_stored_def response_shape_chk_def par_identity_def split: option.splits if_splits)

end
