(* ===== verification/Reward_Atomicity.thy ===== *)
theory Reward_Atomicity
  imports Reward_Claims
begin

text \<open>
  A reward-claim request under faults: a small Hoare logic for programs over driver calls, the
  errors \<open>createClaim\<close> can return, its atomicity, and what a retry of the same request finds.
\<close>

section \<open>Hoare triples for programs that run alone\<close>

text \<open>A tick is calm when no other transaction interferes; the call may still fail. A triple
  relates the database before a program to the database after it, for a value and for an error.\<close>

definition calm :: "tick \<Rightarrow> bool" where
  "calm tk \<longleftrightarrow> (\<forall>d. t_others tk d = d)"

definition triple ::
  "(tick \<Rightarrow> bool) \<Rightarrow> (db \<Rightarrow> bool) \<Rightarrow> 'a prog \<Rightarrow> ('a \<Rightarrow> db \<Rightarrow> bool) \<Rightarrow> (goerror \<Rightarrow> db \<Rightarrow> bool) \<Rightarrow> bool"
where
  "triple T P m Q E \<longleftrightarrow>
     (\<forall>tks d r tks' d'. list_all T tks \<longrightarrow> P d \<longrightarrow> m tks d = Some (r, tks', d') \<longrightarrow>
        list_all T tks' \<and> (case r of Inl e \<Rightarrow> E e d' | Inr x \<Rightarrow> Q x d'))"

lemma tripleD:
  assumes "triple T P m Q E" "list_all T tks" "P d" "m tks d = Some (r, tks', d')"
  shows "list_all T tks'" and "r = Inl e \<Longrightarrow> E e d'" and "r = Inr x \<Longrightarrow> Q x d'"
proof -
  have "list_all T tks' \<and> (case r of Inl e \<Rightarrow> E e d' | Inr x \<Rightarrow> Q x d')"
    using assms unfolding triple_def by blast
  then show "list_all T tks'" and "r = Inl e \<Longrightarrow> E e d'" and "r = Inr x \<Longrightarrow> Q x d'" by auto
qed

lemma triple_conseq:
  assumes "triple T P m Q E" "\<And>d. P' d \<Longrightarrow> P d" "\<And>x d. Q x d \<Longrightarrow> Q' x d" "\<And>e d. E e d \<Longrightarrow> E' e d"
  shows "triple T P' m Q' E'"
  unfolding triple_def
proof (intro allI impI)
  fix tks d r tks' d'
  assume "list_all T tks" "P' d" "m tks d = Some (r, tks', d')"
  with tripleD[OF assms(1), of tks d r tks' d'] assms(2-4)
  show "list_all T tks' \<and> (case r of Inl e \<Rightarrow> E' e d' | Inr x \<Rightarrow> Q' x d')"
    by (cases r) simp_all
qed

lemma triple_return: "triple T (Q x) (prog_return x) Q E"
  by (auto simp: triple_def prog_return_def)

lemma triple_bind:
  assumes m: "triple T P m Q E" and f: "\<And>x. triple T (Q x) (f x) Q' E"
  shows "triple T P (prog_bind m f) Q' E"
  unfolding triple_def
proof (intro allI impI)
  fix tks d r tks' d'
  assume T: "list_all T tks" and P: "P d" and run: "prog_bind m f tks d = Some (r, tks', d')"
  then obtain r1 tks1 d1 where m1: "m tks d = Some (r1, tks1, d1)"
    by (auto simp: prog_bind_def split: option.splits)
  note D = tripleD[OF m T P m1]
  show "list_all T tks' \<and> (case r of Inl e \<Rightarrow> E e d' | Inr x \<Rightarrow> Q' x d')"
  proof (cases r1)
    case (Inl e)
    with D run m1 show ?thesis by (auto simp: prog_bind_def)
  next
    case (Inr x)
    with run m1 have "f x tks1 d1 = Some (r, tks', d')" by (simp add: prog_bind_def)
    with f[of x] D(1) D(3)[OF Inr] show ?thesis unfolding triple_def by blast
  qed
qed

lemma triple_call:
  assumes "\<And>tk d r d'. T tk \<Longrightarrow> P d \<Longrightarrow> c tk d = Some (r, d') \<Longrightarrow>
    (case r of Inl e \<Rightarrow> E e d' | Inr x \<Rightarrow> Q x d')"
  shows "triple T P (lift_call c) Q E"
  using assms by (force simp: triple_def lift_call_def split: list.splits option.splits)

lemma triple_rollback:
  assumes m: "triple T P m Q E"
    and "\<And>x d. Q x d \<Longrightarrow> Q' x (rollback_rows (tx_sid tx) d)"
    and "\<And>e d. E e d \<Longrightarrow> E' e (rollback_rows (tx_sid tx) d)"
  shows "triple T P (rollbackTransaction tx m) Q' E'"
  unfolding triple_def
proof (intro allI impI)
  fix tks d r tks' d'
  assume T: "list_all T tks" and P: "P d" and run: "rollbackTransaction tx m tks d = Some (r, tks', d')"
  then obtain d1 where "m tks d = Some (r, tks', d1)" and "d' = rollback_rows (tx_sid tx) d1"
    by (auto simp: rollbackTransaction_def split: option.splits)
  with tripleD[OF m T P] assms(2,3)
  show "list_all T tks' \<and> (case r of Inl e \<Rightarrow> E' e d' | Inr x \<Rightarrow> Q' x d')"
    by (cases r) simp_all
qed

lemma triple_reserve_loop:
  assumes res: "triple T P (lift_call (tryReserveIdempotencyKey tx p))
      (\<lambda>b. if b then Q None else P) E"
    and load: "triple T P (lift_call (tryLoadIdempotentClaimResult tx p))
      (\<lambda>f. case f of None \<Rightarrow> P | Some r \<Rightarrow> Q (Some r)) E"
  shows "triple T P (reserve_loop tx p) Q E"
proof -
  have "list_all T tks' \<and> (case r of Inl e \<Rightarrow> E e d' | Inr x \<Rightarrow> Q x d')"
    if "list_all T tks" "P d" "reserve_loop tx p tks d = Some (r, tks', d')" for tks d r tks' d'
    using that
  proof (induction tks arbitrary: d rule: length_induct)
    case (1 tks)
    then obtain tk tks1 where tks: "tks = tk # tks1" by (cases tks) (auto simp: reserve_loop.simps)
    with "1.prems" obtain r1 d1 where r1: "tryReserveIdempotencyKey tx p tk d = Some (r1, d1)"
      by (auto simp: reserve_loop.simps split: option.splits)
    then have "lift_call (tryReserveIdempotencyKey tx p) tks d = Some (r1, tks1, d1)"
      by (simp add: tks)
    note D1 = tripleD[OF res "1.prems"(1,2) this]
    show ?case
    proof (cases "r1 = Inr False")
      case False
      with "1.prems" tks r1 D1 show ?thesis
        by (auto simp: reserve_loop.simps split: sum.splits if_splits)
    next
      case True
      with D1 have P1: "P d1" by auto
      from True "1.prems" tks r1 obtain tk2 tks2 r2 d2 where tks1: "tks1 = tk2 # tks2"
        and r2: "tryLoadIdempotentClaimResult tx p tk2 d1 = Some (r2, d2)"
        by (auto simp: reserve_loop.simps split: list.splits option.splits)
      then have "lift_call (tryLoadIdempotentClaimResult tx p) tks1 d1 = Some (r2, tks2, d2)"
        by simp
      note D2 = tripleD[OF load D1(1) P1 this]
      show ?thesis
      proof (cases "r2 = Inr None")
        case False
        with "1.prems" tks r1 True tks1 r2 D2 show ?thesis
          by (auto simp: reserve_loop.simps split: sum.splits option.splits)
      next
        case True2: True
        with "1.prems" tks r1 True tks1 r2 have "reserve_loop tx p tks2 d2 = Some (r, tks', d')"
          by (simp add: reserve_loop.simps(2))
        moreover have "length tks2 < length tks" by (simp add: tks tks1)
        ultimately show ?thesis using "1.IH" D2(1) D2(3)[OF True2] by simp
      qed
    qed
  qed
  then show ?thesis unfolding triple_def by blast
qed

text \<open>The loop-free part of \<open>createClaim\<close>, once for every property that the single calls have.\<close>

lemma triple_createClaim_body:
  assumes "triple T P (reserve_loop tx p) (\<lambda>f. case f of None \<Rightarrow> R | Some r \<Rightarrow> C r) E"
    and "triple T R (lift_call (tryInsertClaim tx p)) (\<lambda>c. case c of None \<Rightarrow> R | Some c \<Rightarrow> I c) E"
    and "\<And>c. triple T (I c) (insertRewardClaimedOutboxEvent tx c) (\<lambda>_. I c) E"
    and "\<And>c. triple T (I c) (lift_call (completeIdempotencyKey tx p createClaimStatusCreated
            (marshalCreatedClaimResponse c) (cl_ID c)))
          (\<lambda>_. C \<lparr>res_StatusCode = createClaimStatusCreated,
            res_ResponseBody = marshalCreatedClaimResponse c, res_Replayed = False\<rparr>) E"
    and "triple T R (lift_call (completeIdempotencyKey tx p createClaimStatusConflict
            marshalDuplicateClaimResponse '''')) (\<lambda>_. C conflict_result) E"
    and "\<And>r. triple T (C r) (lift_call (tx_commit tx)) (\<lambda>_. Q r) E"
  shows "triple T P (createClaim_body tx p) Q E"
proof -
  have commit: "triple T (C r) (commit_result tx r) Q E" for r
    unfolding commit_result_def by (rule triple_bind[OF assms(6)]) (rule triple_return)
  have created: "triple T (I c) (completeCreatedClaim tx p c) C E" for c
    unfolding completeCreatedClaim_def Let_def
    by (intro triple_bind[OF assms(3)] triple_bind[OF assms(4)]) (rule triple_return)
  have dup: "triple T R (completeDuplicateClaim tx p) C E"
    unfolding completeDuplicateClaim_def Let_def conflict_result_def[symmetric]
    by (rule triple_bind[OF assms(5)]) (rule triple_return)
  show ?thesis
    unfolding createClaim_body_def
  proof (rule triple_bind[OF assms(1)])
    fix f
    show "triple T (case f of None \<Rightarrow> R | Some r \<Rightarrow> C r) (case f of
         None \<Rightarrow> prog_bind (lift_call (tryInsertClaim tx p)) (\<lambda>created.
             case created of
               None \<Rightarrow> prog_bind (completeDuplicateClaim tx p) (commit_result tx)
             | Some c \<Rightarrow> prog_bind (completeCreatedClaim tx p c) (commit_result tx))
       | Some result \<Rightarrow> commit_result tx result) Q E"
    proof (cases f)
      case None
      have "triple T (case c of None \<Rightarrow> R | Some c \<Rightarrow> I c) (case c of
               None \<Rightarrow> prog_bind (completeDuplicateClaim tx p) (commit_result tx)
             | Some c \<Rightarrow> prog_bind (completeCreatedClaim tx p c) (commit_result tx)) Q E" for c
        by (cases c) (auto intro: triple_bind[OF dup] triple_bind[OF created] commit)
      with None show ?thesis by (auto intro: triple_bind[OF assms(2)])
    qed (simp add: commit)
  qed
qed

section \<open>The errors of a request\<close>

definition claim_error :: "sentinel set \<Rightarrow> goerror \<Rightarrow> bool" where
  "claim_error S e \<longleftrightarrow>
     e = Sentinel ErrIdempotencyKeyReused \<or> (\<exists>s \<in> S. e = Sentinel s) \<or>
     (\<exists>m s. e = Wrapf m (Sentinel s) \<and> (s = RewardsErrUnavailable \<or> s = RewardsErrInternal))"

text \<open>The request's context has not ended, or has ended with one of \<open>S\<close>.\<close>

definition parent_in :: "sentinel set \<Rightarrow> tick \<Rightarrow> bool" where
  "parent_in S tk = (case ctx_err (t_parent tk) of None \<Rightarrow> True | Some s \<Rightarrow> s \<in> S)"

lemma map_err_claim_error: "parent_in S tk \<Longrightarrow> claim_error S (map_err tx tk e)"
  by (cases "t_parent tk")
     (auto simp: claim_error_def map_err_def rewards_mapPostgresError_def queryContext_def
       with_timeout_cause_def parent_in_def)

lemma check_stored_error: "check_stored p r = Inl e \<Longrightarrow> claim_error S e"
  by (auto simp: check_stored_def claim_error_def split: option.splits if_splits)

lemma claim_error_wrapped [simp]:
  "claim_error S (Wrapf m (Sentinel RewardsErrInternal))"
  by (simp add: claim_error_def)

abbreviation "any_db \<equiv> \<lambda>(_ :: db). True"

lemma triple_errors_call:
  assumes "\<And>tk d e d'. parent_in S tk \<Longrightarrow> c tk d = Some (Inl e, d') \<Longrightarrow> claim_error S e"
  shows "triple (parent_in S) any_db (lift_call c) (\<lambda>_. any_db) (\<lambda>e _. claim_error S e)"
  using assms by (intro triple_call) (auto split: sum.split)

lemma createClaim_body_errors:
  "triple (parent_in S) any_db (createClaim_body tx p) (\<lambda>_. any_db) (\<lambda>e _. claim_error S e)"
proof (rule triple_createClaim_body[where R = any_db and C = "\<lambda>_. any_db" and I = "\<lambda>_. any_db"])
  show "triple (parent_in S) any_db (reserve_loop tx p)
     (case_option any_db (\<lambda>_. any_db)) (\<lambda>e _. claim_error S e)"
    by (rule triple_reserve_loop; rule triple_conseq[OF triple_errors_call])
       (auto simp: tryReserveIdempotencyKey_def tryLoadIdempotentClaimResult_def
         split: option.splits sum.splits if_splits intro: map_err_claim_error check_stored_error)
  show "triple (parent_in S) any_db (lift_call (tryInsertClaim tx p))
     (case_option any_db (\<lambda>_. any_db)) (\<lambda>e _. claim_error S e)"
    by (rule triple_conseq[OF triple_errors_call])
       (auto simp: tryInsertClaim_def split: option.splits sum.splits if_splits
         intro: map_err_claim_error)
  show "triple (parent_in S) any_db (insertRewardClaimedOutboxEvent tx c) (\<lambda>_. any_db)
     (\<lambda>e _. claim_error S e)" for c
  proof (cases "marshal_event (newUUIDV4 (tx_rand_event tx)) c")
    case None
    then show ?thesis by (auto simp: insertRewardClaimedOutboxEvent_def triple_def)
  next
    case (Some payload)
    show ?thesis
      unfolding insertRewardClaimedOutboxEvent_def Let_def Some option.case
      by (rule triple_errors_call)
         (auto split: option.splits sum.splits intro: map_err_claim_error)
  qed
  show "triple (parent_in S) any_db (lift_call (completeIdempotencyKey tx p st b i)) (\<lambda>_. any_db)
     (\<lambda>e _. claim_error S e)" for st b i
    by (rule triple_errors_call)
       (auto simp: completeIdempotencyKey_def split: option.splits sum.splits if_splits
         intro: map_err_claim_error)
  then show "triple (parent_in S) any_db (lift_call (completeIdempotencyKey tx p st b i)) (\<lambda>_. any_db)
     (\<lambda>e _. claim_error S e)" for st b i .
  show "triple (parent_in S) any_db (lift_call (tx_commit tx)) (\<lambda>_. any_db)
     (\<lambda>e _. claim_error S e)"
    by (rule triple_errors_call)
       (auto simp: tx_commit_def Let_def split: option.splits intro: map_err_claim_error)
qed

lemma createClaim_errors:
  assumes "list_all (parent_in S) tks" "createClaim tx p tks d = Some (Inl e, tks', d')"
  shows "claim_error S e"
proof -
  have "triple (parent_in S) any_db (rollbackTransaction tx (createClaim_body tx p)) (\<lambda>_. any_db)
      (\<lambda>e _. claim_error S e)"
    by (rule triple_rollback[OF createClaim_body_errors])
  then have "triple (parent_in S) any_db (createClaim tx p) (\<lambda>_. any_db) (\<lambda>e _. claim_error S e)"
    unfolding createClaim_def
    by (intro triple_bind[OF triple_errors_call])
       (auto simp: begin_tx_def split: option.splits sum.splits intro: map_err_claim_error)
  from tripleD(2)[OF this assms(1) _ assms(2) refl] show ?thesis by simp
qed

section \<open>What a request leaves behind\<close>

text \<open>A response that a later request with the same parameters finds.\<close>

definition replayable :: "createClaimParams \<Rightarrow> CreateClaimResult \<Rightarrow> db \<Rightarrow> bool" where
  "replayable p res d \<longleftrightarrow>
     (\<exists>row. stored_under p row d \<and> check_stored p row = Inr (res\<lparr>res_Replayed := True\<rparr>))"

text \<open>The three assertions of the proof: nothing of the transaction is lasting (\<open>framed\<close>), the key
  is reserved (\<open>holding\<close>), the response is written (\<open>answered\<close>).\<close>

definition framed :: "session \<Rightarrow> db \<Rightarrow> db \<Rightarrow> bool" where
  "framed sid d0 d \<longleftrightarrow> rollback_rows sid d = d0"

definition holding :: "tx \<Rightarrow> createClaimParams \<Rightarrow> db \<Rightarrow> db \<Rightarrow> bool" where
  "holding tx p d0 d \<longleftrightarrow> framed (tx_sid tx) d0 d \<and> key_free p d0 \<and>
     idem_keys d = idem_keys d0 @ [reserved_row tx p]"

definition answered :: "tx \<Rightarrow> createClaimParams \<Rightarrow> db \<Rightarrow> CreateClaimResult \<Rightarrow> db \<Rightarrow> bool" where
  "answered tx p d0 res d \<longleftrightarrow> framed (tx_sid tx) d0 d \<and> unique_keys d \<and>
     (\<exists>row \<in> set (idem_keys d). visible (tx_sid tx) (ik_owner row) \<and> ik_key_hash row = par_KeyHash p \<and>
        check_stored p row = Inr (res\<lparr>res_Replayed := True\<rparr>))"

lemma check_stored_owner [simp]: "check_stored p (r\<lparr>ik_owner := w\<rparr>) = check_stored p r"
  by (simp add: check_stored_def split: option.split)

lemma check_stored_replayed: "check_stored p r = Inr res \<Longrightarrow> res\<lparr>res_Replayed := True\<rparr> = res"
  by (auto simp: check_stored_def split: option.splits if_splits)

lemma reserved_row_key [simp]: "ik_key_hash (reserved_row tx p) = par_KeyHash p"
  by (simp add: reserved_row_def)

lemma completed_row_key [simp]: "ik_key_hash (completed_row st b c r) = ik_key_hash r"
  by (simp add: completed_row_def)

lemma check_stored_completed:
  assumes "st = 201 \<or> st = 409" "valid_string b" "json_valid b" "b \<noteq> []"
  shows "check_stored p (completed_row st b c (reserved_row tx p)) =
    Inr \<lparr>res_StatusCode = st, res_ResponseBody = b, res_Replayed = True\<rparr>"
  using assms by (intro check_stored_replay) (simp_all add: completed_row_def reserved_row_def)

lemma framed_iff:
  "framed sid d0 d \<longleftrightarrow>
     filter (\<lambda>r. rc_owner r \<noteq> Some sid) (reward_claims d) = reward_claims d0 \<and>
     filter (\<lambda>r. ik_owner r \<noteq> Some sid) (idem_keys d) = idem_keys d0 \<and>
     filter (\<lambda>r. ob_owner r \<noteq> Some sid) (outbox_events d) = outbox_events d0"
  by (cases d; cases d0) (auto simp: framed_def rollback_rows_def)

lemma framed_append:
  assumes "framed sid d0 d"
  shows "rc_owner c = Some sid \<Longrightarrow> framed sid d0 (d\<lparr>reward_claims := reward_claims d @ [c]\<rparr>)"
    and "ik_owner k = Some sid \<Longrightarrow> framed sid d0 (d\<lparr>idem_keys := idem_keys d @ [k]\<rparr>)"
    and "ob_owner b = Some sid \<Longrightarrow> framed sid d0 (d\<lparr>outbox_events := outbox_events d @ [b]\<rparr>)"
  using assms by (auto simp: framed_iff)

lemma holding_insert:
  assumes "holding tx p d0 d"
  shows "rc_owner c = Some (tx_sid tx) \<Longrightarrow> holding tx p d0 (d\<lparr>reward_claims := reward_claims d @ [c]\<rparr>)"
    and "ob_owner b = Some (tx_sid tx) \<Longrightarrow> holding tx p d0 (d\<lparr>outbox_events := outbox_events d @ [b]\<rparr>)"
  using assms by (auto simp: holding_def framed_append)

lemma answered_complete:
  assumes "holding tx p d0 d" "unique_keys d0" "st = 201 \<or> st = 409" "valid_string b" "json_valid b" "b \<noteq> []"
  shows "answered tx p d0 \<lparr>res_StatusCode = st, res_ResponseBody = b, res_Replayed = False\<rparr>
    (d\<lparr>idem_keys := map (\<lambda>r. if open_row tx p r then completed_row st b c r else r) (idem_keys d)\<rparr>)"
proof -
  let ?done = "completed_row st b c (reserved_row tx p)"
  have keys: "map (\<lambda>r. if open_row tx p r then completed_row st b c r else r) (idem_keys d) =
      idem_keys d0 @ [?done]"
    using assms(1) by (simp add: holding_def map_open_key_free)
  have "framed (tx_sid tx) d0 (d\<lparr>idem_keys := idem_keys d0 @ [?done]\<rparr>)"
    using assms(1) by (auto simp: holding_def framed_iff)
  moreover have "unique_keys (d\<lparr>idem_keys := idem_keys d0 @ [?done]\<rparr>)"
    using assms(1,2) by (auto simp: holding_def unique_keys_def key_free_def)
  ultimately show ?thesis
    unfolding keys answered_def using assms(3-) by (simp add: check_stored_completed)
qed

lemma answered_commit:
  assumes "answered tx p d0 res d"
  shows "replayable p res (commit_rows (tx_sid tx) d)" "idle_session (tx_sid tx) (commit_rows (tx_sid tx) d)"
proof -
  let ?c = "\<lambda>r. if ik_owner r = Some (tx_sid tx) then r\<lparr>ik_owner := None\<rparr> else r"
  from assms obtain row where row: "row \<in> set (idem_keys d)" "visible (tx_sid tx) (ik_owner row)"
      "ik_key_hash row = par_KeyHash p" "check_stored p row = Inr (res\<lparr>res_Replayed := True\<rparr>)"
    by (auto simp: answered_def)
  have "unique_keys (commit_rows (tx_sid tx) d)"
    using assms by (simp add: answered_def unique_keys_def)
  moreover have "?c row \<in> set (idem_keys (commit_rows (tx_sid tx) d))"
    using row(1) by (simp add: commit_rows_def)
  ultimately have "stored_under p (?c row) (commit_rows (tx_sid tx) d)"
    using row by (auto simp: stored_under_def visible_def)
  moreover have "check_stored p (?c row) = Inr (res\<lparr>res_Replayed := True\<rparr>)"
    using row(4) by simp
  ultimately show "replayable p res (commit_rows (tx_sid tx) d)"
    unfolding replayable_def by blast
  show "idle_session (tx_sid tx) (commit_rows (tx_sid tx) d)"
    by (auto simp: idle_session_def commit_rows_def)
qed


section \<open>Atomicity\<close>

text \<open>The ticks of a request that runs alone. \<open>L\<close> says whether a commit whose acknowledgement is
  lost may have taken effect.\<close>

definition alone :: "bool \<Rightarrow> tick \<Rightarrow> bool" where
  "alone L tk \<longleftrightarrow> calm tk \<and> (t_landed tk \<longrightarrow> L)"

definition settled :: "tx \<Rightarrow> createClaimParams \<Rightarrow> CreateClaimResult \<Rightarrow> db \<Rightarrow> bool" where
  "settled tx p res d \<longleftrightarrow> replayable p res d \<and> idle_session (tx_sid tx) d"

definition undone :: "bool \<Rightarrow> tx \<Rightarrow> createClaimParams \<Rightarrow> db \<Rightarrow> db \<Rightarrow> bool" where
  "undone L tx p d0 d \<longleftrightarrow> framed (tx_sid tx) d0 d \<or> (L \<and> (\<exists>res. settled tx p res d))"

lemma run_stmt_calm:
  "alone L tk \<Longrightarrow> run_stmt st tk d = Some (r, d') \<Longrightarrow>
     (\<exists>e. r = Inl e \<and> d' = d) \<or> (\<exists>x. r = Inr x \<and> st d = Done x d')"
  by (auto simp: run_stmt_def alone_def calm_def split: option.splits stmt.splits)

lemma undone_framed: "framed (tx_sid tx) d0 d \<Longrightarrow> undone L tx p d0 d"
  by (simp add: undone_def)

lemma undone_holding: "holding tx p d0 d \<Longrightarrow> undone L tx p d0 d"
  by (simp add: undone_def holding_def)

text \<open>A call built from one statement: it is enough to look at the statement.\<close>

lemma triple_stmt_call:
  assumes err: "\<And>tk d e d'. alone L tk \<Longrightarrow> c tk d = Some (Inl e, d') \<Longrightarrow> P d \<Longrightarrow> E e d'"
    and ok: "\<And>tk d x d'. alone L tk \<Longrightarrow> c tk d = Some (Inr x, d') \<Longrightarrow> P d \<Longrightarrow> Q x d'"
  shows "triple (alone L) P (lift_call c) Q E"
  using assms by (intro triple_call) (auto split: sum.split)

lemma reserve_calm:
  assumes "alone L tk" "tryReserveIdempotencyKey tx p tk d = Some (r, d')" "idle_session (tx_sid tx) d"
  shows "(\<exists>e. r = Inl e \<and> d' = d) \<or> (r = Inr False \<and> d' = d) \<or> (r = Inr True \<and> holding tx p d d')"
proof -
  have "holding tx p d (d\<lparr>idem_keys := idem_keys d @ [reserved_row tx p]\<rparr>)"
    if "key_free p d" using that assms(3)
    by (simp add: holding_def framed_iff idle_session_filters)
  then show ?thesis using assms(2) run_stmt_calm[OF assms(1), of "sql_reserve tx p" d]
    by (auto simp: tryReserveIdempotencyKey_def sql_reserve_def find_None_conv key_free_def
        split: option.splits sum.splits if_splits)
qed

lemma load_calm:
  assumes "alone L tk" "tryLoadIdempotentClaimResult tx p tk d = Some (r, d')" "unique_keys d"
    "idle_session (tx_sid tx) d"
  shows "d' = d" and "r = Inr (Some res) \<Longrightarrow> answered tx p d res d"
proof -
  show eq: "d' = d" using assms(2) run_stmt_calm[OF assms(1), of "sql_load tx p" d]
    by (auto simp: tryLoadIdempotentClaimResult_def sql_load_def split: option.splits sum.splits if_splits)
  assume "r = Inr (Some res)"
  with assms(2) obtain row where "run_stmt (sql_load tx p) tk d = Some (Inr row, d')"
      and row: "check_stored p row = Inr res"
    by (auto simp: tryLoadIdempotentClaimResult_def split: option.splits sum.splits if_splits)
  with run_stmt_calm[OF assms(1)] have "sql_load tx p d = Done row d" using eq by fastforce
  then have "row \<in> set (idem_keys d) \<and> visible (tx_sid tx) (ik_owner row) \<and> ik_key_hash row = par_KeyHash p"
    by (auto simp: sql_load_def dest!: find_Some_conv split: option.splits)
  with row assms(3,4) show "answered tx p d res d"
    by (auto simp: answered_def framed_def idle_session_rollback check_stored_replayed)
qed

lemma complete_calm:
  assumes "holding tx p d0 d" "unique_keys d0" "st = 201 \<or> st = 409"
    "valid_string b" "json_valid b" "b \<noteq> []" "alone L tk"
    "completeIdempotencyKey tx p st b c tk d = Some (r, d')"
  shows "(\<exists>e. r = Inl e \<and> framed (tx_sid tx) d0 d') \<or> (r = Inr () \<and>
    answered tx p d0 \<lparr>res_StatusCode = st, res_ResponseBody = b, res_Replayed = False\<rparr> d')"
proof -
  have framed: "framed (tx_sid tx) d0 d" using assms(1) by (simp add: holding_def)
  from assms(8) obtain r0 where run: "run_stmt (sql_complete tx p st b c) tk d = Some (r0, d')"
      and r: "r = Inr () \<Longrightarrow> \<exists>n. r0 = Inr n"
    by (auto simp: completeIdempotencyKey_def split: option.splits sum.splits if_splits)
  from run_stmt_calm[OF assms(7) run] consider "d' = d" "\<exists>e. r0 = Inl e"
    | n where "r0 = Inr n" "sql_complete tx p st b c d = Done n d'" by blast
  then show ?thesis
  proof cases
    case 1
    with r framed show ?thesis by (cases r) auto
  next
    case 2
    then have "d' = d\<lparr>idem_keys := map (\<lambda>r. if open_row tx p r then completed_row st b c r else r) (idem_keys d)\<rparr>"
      by (simp add: sql_complete_def Let_def split: if_splits)
    with answered_complete[OF assms(1-6), of c]
    have "answered tx p d0 \<lparr>res_StatusCode = st, res_ResponseBody = b, res_Replayed = False\<rparr> d'"
      by simp
    then show ?thesis by (cases r) (auto simp: answered_def)
  qed
qed

lemma insert_claim_calm:
  assumes "holding tx p d0 d" "alone L tk" "tryInsertClaim tx p tk d = Some (r, d')"
  shows "holding tx p d0 d'"
  using assms(1,3) run_stmt_calm[OF assms(2), of "sql_insert_claim tx p" d] holding_insert(1)[OF assms(1)]
  by (auto simp: tryInsertClaim_def sql_insert_claim_def Let_def
      split: option.splits sum.splits if_splits)

lemma insert_event_calm:
  assumes "holding tx p d0 d" "alone L tk" "run_stmt (sql_insert_outbox tx c e b) tk d = Some (r, d')"
  shows "holding tx p d0 d'"
  using assms(1) run_stmt_calm[OF assms(2,3)] holding_insert(2)[OF assms(1)]
  by (auto simp: sql_insert_outbox_def Let_def split: option.splits if_splits)

lemma commit_calm:
  assumes "answered tx p d0 res d" "alone L tk" "tx_commit tx tk d = Some (r, d')"
  shows "(r = Inr () \<and> settled tx p res d') \<or> (\<exists>e. r = Inl e \<and> undone L tx p d0 d')"
proof -
  have "settled tx p res (commit_rows (tx_sid tx) d)" "framed (tx_sid tx) d0 d"
    using answered_commit[OF assms(1)] assms(1) by (simp_all add: settled_def answered_def)
  with assms(2,3) show ?thesis
    by (auto simp: tx_commit_def Let_def undone_def alone_def calm_def split: option.splits)
qed

lemma reserve_loop_alone:
  assumes "idle_session (tx_sid tx) d0" "unique_keys d0"
  shows "triple (alone L) (\<lambda>d. d = d0) (reserve_loop tx p)
     (case_option (holding tx p d0) (answered tx p d0)) (\<lambda>_. undone L tx p d0)"
proof -
  note [intro] = undone_framed undone_holding
  have framed0: "framed (tx_sid tx) d0 d0" using assms by (simp add: framed_def idle_session_rollback)
  show ?thesis
  proof (rule triple_reserve_loop; rule triple_stmt_call)
    fix tk d e d'
    assume "alone L tk" "tryReserveIdempotencyKey tx p tk d = Some (Inl e, d')" "d = d0"
    with reserve_calm[of L tk tx p d0] assms(1) framed0 show "undone L tx p d0 d'" by blast
  next
    fix tk d b d'
    assume "alone L tk" "tryReserveIdempotencyKey tx p tk d = Some (Inr b, d')" "d = d0"
    with reserve_calm[of L tk tx p d0] assms(1) framed0
    show "(if b then case_option (holding tx p d0) (answered tx p d0) None else (\<lambda>d. d = d0)) d'"
      by (cases b) fastforce+
  next
    fix tk d e d'
    assume "alone L tk" "tryLoadIdempotentClaimResult tx p tk d = Some (Inl e, d')" "d = d0"
    with load_calm(1)[OF _ _ assms(2,1)] framed0 show "undone L tx p d0 d'" by blast
  next
    fix tk d f d'
    assume "alone L tk" "tryLoadIdempotentClaimResult tx p tk d = Some (Inr f, d')" "d = d0"
    with load_calm[OF _ _ assms(2,1)]
    show "(case f of None \<Rightarrow> \<lambda>d. d = d0 | Some r \<Rightarrow>
        case_option (holding tx p d0) (answered tx p d0) (Some r)) d'"
      by (cases f) fastforce+
  qed
qed

lemma insert_event_alone:
  "triple (alone L) (holding tx p d0) (insertRewardClaimedOutboxEvent tx c)
     (\<lambda>_. holding tx p d0) (\<lambda>_. undone L tx p d0)"
proof (cases "marshal_event (newUUIDV4 (tx_rand_event tx)) c")
  case None
  then show ?thesis by (auto simp: insertRewardClaimedOutboxEvent_def triple_def intro: undone_holding)
next
  case (Some payload)
  show ?thesis
    unfolding insertRewardClaimedOutboxEvent_def Let_def Some option.case
    by (rule triple_stmt_call)
       (auto split: option.splits sum.splits intro: insert_event_calm undone_holding[OF insert_event_calm])
qed

lemma createClaim_body_alone:
  assumes "idle_session (tx_sid tx) d0" "unique_keys d0"
  shows "triple (alone L) (\<lambda>d. d = d0) (createClaim_body tx p) (settled tx p) (\<lambda>_. undone L tx p d0)"
proof (rule triple_createClaim_body[where R = "holding tx p d0" and I = "\<lambda>_. holding tx p d0"
      and C = "answered tx p d0"])
  note [intro] = undone_framed undone_holding
  have complete: "triple (alone L) (holding tx p d0) (lift_call (completeIdempotencyKey tx p st b i))
     (\<lambda>_. answered tx p d0 \<lparr>res_StatusCode = st, res_ResponseBody = b, res_Replayed = False\<rparr>)
     (\<lambda>_. undone L tx p d0)"
    if "st = 201 \<or> st = 409" "valid_string b" "json_valid b" "b \<noteq> []" for st b i
    by (rule triple_stmt_call) (use complete_calm[OF _ assms(2) that] in blast)+
  show "triple (alone L) (\<lambda>d. d = d0) (reserve_loop tx p)
     (case_option (holding tx p d0) (answered tx p d0)) (\<lambda>_. undone L tx p d0)"
    by (rule reserve_loop_alone[OF assms])
  show "triple (alone L) (holding tx p d0) (lift_call (tryInsertClaim tx p))
     (case_option (holding tx p d0) (\<lambda>_. holding tx p d0)) (\<lambda>_. undone L tx p d0)"
    by (rule triple_stmt_call) (auto dest: insert_claim_calm split: option.split)
  show "triple (alone L) (holding tx p d0) (insertRewardClaimedOutboxEvent tx c)
     (\<lambda>_. holding tx p d0) (\<lambda>_. undone L tx p d0)" for c
    by (rule insert_event_alone)
  show "triple (alone L) (holding tx p d0)
     (lift_call (completeIdempotencyKey tx p createClaimStatusCreated (marshalCreatedClaimResponse c) (cl_ID c)))
     (\<lambda>_. answered tx p d0 \<lparr>res_StatusCode = createClaimStatusCreated,
        res_ResponseBody = marshalCreatedClaimResponse c, res_Replayed = False\<rparr>)
     (\<lambda>_. undone L tx p d0)" for c
    by (rule complete) (simp_all add: createClaimStatusCreated_def marshalCreatedClaimResponse_valid)
  show "triple (alone L) (holding tx p d0)
     (lift_call (completeIdempotencyKey tx p createClaimStatusConflict marshalDuplicateClaimResponse ''''))
     (\<lambda>_. answered tx p d0 conflict_result) (\<lambda>_. undone L tx p d0)"
    unfolding conflict_result_def
    by (rule complete) (simp_all add: createClaimStatusConflict_def marshalDuplicateClaimResponse_valid)
  show "triple (alone L) (answered tx p d0 r) (lift_call (tx_commit tx)) (\<lambda>_. settled tx p r)
     (\<lambda>_. undone L tx p d0)" for r
    by (rule triple_stmt_call) (auto dest: commit_calm)
qed

text \<open>A request that runs alone, whatever fails: with a value it has stored the response a retry
  will find; with an error the database is as it was, unless the commit took effect and only its
  acknowledgement was lost, in which case a retry finds the response.\<close>

lemma createClaim_outcome:
  assumes "idle_session (tx_sid tx) d" "unique_keys d" "list_all (alone L) tks"
    "createClaim tx p tks d = Some (r, tks', d')"
  shows "case r of Inr res \<Rightarrow> settled tx p res d' | Inl e \<Rightarrow> d' = d \<or> (L \<and> (\<exists>res. settled tx p res d'))"
proof -
  have "triple (alone L) (\<lambda>x. x = d) (rollbackTransaction tx (createClaim_body tx p))
      (settled tx p) (\<lambda>_ x. x = d \<or> (L \<and> (\<exists>res. settled tx p res x)))"
    by (rule triple_rollback[OF createClaim_body_alone[OF assms(1,2), of L p]])
       (auto simp: undone_def framed_def settled_def idle_session_rollback)
  then have "triple (alone L) (\<lambda>x. x = d) (createClaim tx p)
      (settled tx p) (\<lambda>_ x. x = d \<or> (L \<and> (\<exists>res. settled tx p res x)))"
    unfolding createClaim_def
    by (intro triple_bind[OF triple_stmt_call])
       (auto simp: begin_tx_def split: option.splits sum.splits dest: run_stmt_calm)
  from tripleD(2,3)[OF this assms(3) refl assms(4)] show ?thesis by (auto split: sum.split)
qed

section \<open>A request through the service\<close>

lemma CreateClaim_prepared:
  "prepareCreateClaim cmd = Inr p \<Longrightarrow> createClaim tx p tks d = Some (Inr res, tks', d') \<Longrightarrow>
     CreateClaim tx cmd tks d = Some (Inr res, tks', d')"
  by (simp add: CreateClaim_def)

lemma CreateClaim_InrD:
  assumes "CreateClaim tx cmd tks d = Some (Inr res, tks', d')"
  obtains p where "prepareCreateClaim cmd = Inr p" "createClaim tx p tks d = Some (Inr res, tks', d')"
  using assms by (auto simp: CreateClaim_def split: sum.splits option.splits)

text \<open>The limits on a command that the code and its documentation state, without the functions that check them.\<close>

definition command_ok :: "CreateClaimCommand \<Rightarrow> bool" where
  "command_ok cmd \<longleftrightarrow>
     list_all (\<lambda>v. trim_space v \<noteq> [] \<and> valid_string (trim_space v) \<and> \<not> contains_nul (trim_space v) \<and>
        rune_count (trim_space v) \<le> 128) [cmd_PlayerID cmd, cmd_CampaignID cmd, cmd_RewardID cmd] \<and>
     trim_space (cmd_IdempotencyKey cmd) \<noteq> [] \<and> length (trim_space (cmd_IdempotencyKey cmd)) \<le> 255 \<and>
     list_all (\<lambda>r. 32 \<le> r \<and> r \<noteq> 127) (runes (trim_space (cmd_IdempotencyKey cmd)))"

lemma validateCreateClaimCommand_ok: "validateCreateClaimCommand (trim_command cmd) = None \<longleftrightarrow> command_ok cmd"
  by (simp add: validateCreateClaimCommand_None validateClaimID_None trim_command_def maxIDLength_def
      validateIdempotencyKey_None command_ok_def conj_ac)

lemma prepareCreateClaim_ok:
  "command_ok cmd \<Longrightarrow> \<exists>p. prepareCreateClaim cmd = Inr p"
  "\<not> command_ok cmd \<Longrightarrow> \<exists>m. prepareCreateClaim cmd = Inl (InvalidInputError m)"
  by (auto simp: prepareCreateClaim_def Let_def validateCreateClaimCommand_ok[symmetric]
      dest: validateCreateClaimCommand_error split: option.splits)

lemma CreateClaim_InlD:
  assumes "CreateClaim tx cmd tks d = Some (Inl e, tks', d')"
  obtains "prepareCreateClaim cmd = Inl e" "tks' = tks" "d' = d"
    | p e' where "prepareCreateClaim cmd = Inr p" "createClaim tx p tks d = Some (Inl e', tks', d')"
        "e = Wrapf ''create reward claim: %w'' e'"
  using assms by (auto simp: CreateClaim_def split: sum.splits option.splits)

lemma replayable_createClaim:
  assumes "params_ok p" "replayable p res d" "idle_session (tx_sid tx) d"
    "quiet q1" "quiet q2" "quiet q3" "quiet q4"
  shows "createClaim tx p (q1 # q2 # q3 # q4 # tks) d = Some (Inr (res\<lparr>res_Replayed := True\<rparr>), tks, d)"
  using assms unfolding replayable_def by (auto intro: createClaim_stored)

lemma check_stored_InrD:
  assumes "check_stored p r = Inr res"
  shows "(ik_player_id r, ik_campaign_id r, ik_reward_id r) = par_identity p"
    and "ik_response_status r = Some (res_StatusCode res)"
    and "ik_response_body r = Some (res_ResponseBody res)" and "res_ResponseBody res \<noteq> []"
  using assms by (auto simp: check_stored_def par_identity_def split: option.splits if_splits)

lemma replayable_reused:
  assumes "params_ok p'" "replayable p res d" "idle_session (tx_sid tx) d"
    "par_KeyHash p' = par_KeyHash p" "par_identity p' \<noteq> par_identity p"
    "quiet q1" "quiet q2" "quiet q3"
  shows "createClaim tx p' (q1 # q2 # q3 # tks) d = Some (Inl (Sentinel ErrIdempotencyKeyReused), tks, d)"
proof -
  from assms(2) obtain row where row: "stored_under p row d"
      and res: "check_stored p row = Inr (res\<lparr>res_Replayed := True\<rparr>)"
    by (auto simp: replayable_def)
  have "check_stored p' row = Inl (Sentinel ErrIdempotencyKeyReused)"
    using check_stored_InrD[OF res] assms(5)
    by (auto simp: check_stored_def par_identity_def)
  moreover have "stored_under p' row d" using row assms(4) by (simp add: stored_under_def)
  ultimately show ?thesis using assms by (intro createClaim_stored_error)
qed

text \<open>The concrete request of the witnesses.\<close>

definition sample_cmd :: CreateClaimCommand where
  "sample_cmd = \<lparr>cmd_PlayerID = '' p1'', cmd_CampaignID = ''c1'', cmd_RewardID = ''r1'',
     cmd_IdempotencyKey = ''k1 ''\<rparr>"

definition sample_params :: createClaimParams where
  "sample_params = \<lparr>par_PlayerID = ''p1'', par_CampaignID = ''c1'', par_RewardID = ''r1'',
     par_KeyHash = Sum256 ''k1''\<rparr>"

definition sample_tx :: "session \<Rightarrow> tx" where
  "sample_tx sid = \<lparr>tx_sid = sid, tx_now = 0, tx_rand_claim = replicate 16 0,
     tx_rand_event = replicate 16 1, tx_jsonb_in = Some, tx_pgconn_timeout = (\<lambda>_. False)\<rparr>"

lemma sample_prepare: "prepareCreateClaim sample_cmd = Inr sample_params"
proof -
  have trim: "trim_space '' p1'' = ''p1''" "trim_space ''c1'' = ''c1''" "trim_space ''r1'' = ''r1''"
      "trim_space ''k1 '' = ''k1''"
    by code_simp+
  moreover have "validateClaimID ''player_id'' ''p1'' = None" "validateClaimID ''campaign_id'' ''c1'' = None"
      "validateClaimID ''reward_id'' ''r1'' = None" "validateIdempotencyKey ''k1'' = None"
    by code_simp+
  ultimately show ?thesis
    by (simp add: prepareCreateClaim_def trim_command_def validateCreateClaimCommand_def
        sample_cmd_def sample_params_def)
qed

definition sample_ticks :: "nat \<Rightarrow> tick list" where
  "sample_ticks n = replicate n quiet_tick"

definition sample_db :: db where
  "sample_db = created_db (sample_tx 1) sample_params (event_payload (sample_tx 1) sample_params) empty_db"

definition sample_result :: CreateClaimResult where
  "sample_result = created_result (sample_tx 1) sample_params"

lemma sample_year [simp]: "year_ok (sample_tx sid)"
proof -
  have "year_of 0 = 1970" by code_simp
  then show ?thesis by (simp add: year_ok_def sample_tx_def)
qed

lemma empty_db_free [simp]:
  "key_free p empty_db" "identity_free p empty_db" "ids_free tx empty_db" "idle_session sid empty_db"
  "unique_keys empty_db"
  by (simp_all add: empty_db_def key_free_def identity_free_def ids_free_def event_free_def
      idle_session_def unique_keys_def)

lemma sample_ok [simp]: "params_ok sample_params"
  using prepareCreateClaim_params_ok[OF sample_prepare] .

lemma sample_jsonb [simp]: "tx_jsonb_in (sample_tx sid) s = Some s"
  by (simp add: sample_tx_def)

lemma sample_payload [simp]: "payload_object_chk (event_payload tx p)"
  by (simp add: payload_object_chk_def event_payload_def newRewardClaimedEvent_def json_print.simps)

lemma sample_idle [simp]: "idle_session sid sample_db"
  by (simp add: idle_session_def sample_db_def created_db_def empty_db_def stored_created_row_def)

lemma sample_run:
  "CreateClaim (sample_tx 1) sample_cmd (sample_ticks 6) empty_db = Some (Inr sample_result, [], sample_db)"
  unfolding sample_ticks_def sample_result_def sample_db_def
  by (rule CreateClaim_prepared[OF sample_prepare])
     (simp add: eval_nat_numeral createClaim_new)

lemma sample_alone [simp]: "list_all (alone L) (sample_ticks n)"
  by (simp add: sample_ticks_def alone_def calm_def quiet_tick_def list_all_iff)

lemma sample_ticks_quiet [simp]: "list_all quiet (sample_ticks n)" "length (sample_ticks n) = n"
  by (simp_all add: sample_ticks_def list_all_iff)

section \<open>Properties\<close>

text \<open>C6. A valid request whose key and reward are new, on a server that answers every call: the
  response is 201 with the new claim, and the committed database has gained exactly the claim, the
  stored response and one pending outbox event for it.\<close>

theorem CreateClaim_creates:
  assumes "prepareCreateClaim cmd = Inr p" "key_free p d" "identity_free p d" "ids_free tx d"
    "year_ok tx" "idle_session (tx_sid tx) d" "tx_jsonb_in tx (event_payload tx p) = Some stored"
    "payload_object_chk stored" "list_all quiet tks" "length tks = 6"
  shows "CreateClaim tx cmd tks d = Some (Inr (created_result tx p), [], created_db tx p stored d)"
proof -
  from assms(9,10) obtain q1 q2 q3 q4 q5 q6 where "tks = [q1, q2, q3, q4, q5, q6]"
    by (auto simp: eval_nat_numeral length_Suc_conv)
  with assms show ?thesis
    by (auto intro!: CreateClaim_prepared createClaim_new prepareCreateClaim_params_ok)
qed

theorem CreateClaim_creates_witness:
  "CreateClaim (sample_tx 1) sample_cmd (sample_ticks 6) empty_db =
     Some (Inr (created_result (sample_tx 1) sample_params), [],
       created_db (sample_tx 1) sample_params (event_payload (sample_tx 1) sample_params) empty_db)"
  by (rule CreateClaim_creates[OF sample_prepare]) simp_all

text \<open>C16. A valid request for a reward that is claimed already, under a new key: the response is 409,
  no claim and no event are added, and the 409 is stored under the key.\<close>

theorem CreateClaim_duplicate:
  assumes "prepareCreateClaim cmd = Inr p" "key_free p d" "\<not> identity_free p d"
    "\<forall>r \<in> set (reward_claims d). rc_owner r = None" "idle_session (tx_sid tx) d"
    "list_all quiet tks" "length tks = 5"
  shows "CreateClaim tx cmd tks d = Some (Inr conflict_result, [], conflict_db tx p d)"
proof -
  from assms(6,7) obtain q1 q2 q3 q4 q5 where "tks = [q1, q2, q3, q4, q5]"
    by (auto simp: eval_nat_numeral length_Suc_conv)
  with assms show ?thesis
    by (auto intro!: CreateClaim_prepared createClaim_taken prepareCreateClaim_params_ok)
qed

definition sample_claims_db :: db where
  "sample_claims_db = empty_db\<lparr>reward_claims := [(inserted_claim_row (sample_tx 1) sample_params)\<lparr>rc_owner := None\<rparr>]\<rparr>"

theorem CreateClaim_duplicate_witness:
  "CreateClaim (sample_tx 2) sample_cmd (sample_ticks 5) sample_claims_db =
     Some (Inr conflict_result, [], conflict_db (sample_tx 2) sample_params sample_claims_db)"
  by (rule CreateClaim_duplicate[OF sample_prepare])
     (simp_all add: sample_claims_db_def empty_db_def key_free_def
       identity_free_def idle_session_def rc_identity_def par_identity_def inserted_claim_row_def)

lemma CreateClaim_replays:
  assumes "list_all (alone L) tks" "idle_session (tx_sid tx) d" "unique_keys d"
    "CreateClaim tx cmd tks d = Some (Inr res, tks', d')"
    "idle_session (tx_sid tx2) d'" "list_all quiet qs" "length qs = 4"
  shows "CreateClaim tx2 cmd qs d' = Some (Inr (res\<lparr>res_Replayed := True\<rparr>), [], d')"
proof -
  from CreateClaim_InrD[OF assms(4)] obtain p where p: "prepareCreateClaim cmd = Inr p"
      "createClaim tx p tks d = Some (Inr res, tks', d')" .
  from createClaim_outcome[OF assms(2,3,1) p(2)] have "replayable p res d'" by (simp add: settled_def)
  moreover from assms(6,7) obtain q1 q2 q3 q4 where "qs = [q1, q2, q3, q4]" "quiet q1" "quiet q2" "quiet q3" "quiet q4"
    by (auto simp: eval_nat_numeral length_Suc_conv)
  ultimately show ?thesis
    using p(1) assms(5)
    by (auto intro!: CreateClaim_prepared replayable_createClaim prepareCreateClaim_params_ok)
qed

text \<open>C8. A request that returns an error has changed nothing, unless its commit took effect on the
  server and only the acknowledgement was lost; then a retry finds the stored response.\<close>

theorem CreateClaim_error_atomic:
  assumes "list_all (alone L) tks" "idle_session (tx_sid tx) d" "unique_keys d"
    "CreateClaim tx cmd tks d = Some (Inl e, tks', d')"
  shows "d' = d \<or> (L \<and> (\<exists>p res. prepareCreateClaim cmd = Inr p \<and> replayable p res d'))"
proof -
  from assms(4) show ?thesis
  proof (cases rule: CreateClaim_InlD)
    case (2 p e')
    with createClaim_outcome[OF assms(2,3,1) 2(2)] show ?thesis by (auto simp: settled_def)
  qed simp
qed

text \<open>A driver call that fails while the server is fine.\<close>

definition fault_tick :: "bool \<Rightarrow> tick" where
  "fault_tick landed = quiet_tick\<lparr>t_fault := Some (PgError ''08006''), t_landed := landed\<rparr>"

text \<open>The insertion of the claim fails after the key was reserved.\<close>

definition sample_lost :: "tick list" where
  "sample_lost = [quiet_tick, quiet_tick, fault_tick False]"

lemma sample_lost_run:
  "\<exists>e. CreateClaim (sample_tx 1) sample_cmd sample_lost empty_db = Some (Inl e, [], empty_db)"
proof -
  let ?tx = "sample_tx 1" and ?d1 = "empty_db\<lparr>idem_keys := [reserved_row (sample_tx 1) sample_params]\<rparr>"
  have "reserve_loop ?tx sample_params [quiet_tick, fault_tick False] empty_db =
      Some (Inr None, [fault_tick False], ?d1)"
    by (simp add: reserve_loop.simps reserve_key_free) (simp add: empty_db_def)
  moreover obtain e where "tryInsertClaim ?tx sample_params (fault_tick False) ?d1 = Some (Inl e, ?d1)"
    by (simp add: tryInsertClaim_def run_stmt_def fault_tick_def quiet_tick_def errors_is_def)
  ultimately have "createClaim_body ?tx sample_params [quiet_tick, fault_tick False] empty_db =
      Some (Inl e, [], ?d1)"
    by (simp add: createClaim_body_def prog_bind_def)
  from createClaim_quiet[OF quiet_quiet_tick this] show ?thesis
    by (simp add: CreateClaim_def sample_prepare sample_lost_def rollback_rows_def) (simp add: empty_db_def)
qed

theorem CreateClaim_error_atomic_witness:
  "\<exists>e d'. CreateClaim (sample_tx 1) sample_cmd sample_lost empty_db = Some (Inl e, [], d') \<and> d' = empty_db"
proof -
  obtain e d' where run: "CreateClaim (sample_tx 1) sample_cmd sample_lost empty_db = Some (Inl e, [], d')"
    using sample_lost_run by blast
  have "list_all (alone False) sample_lost"
    by (simp add: sample_lost_def alone_def calm_def fault_tick_def quiet_tick_def)
  from CreateClaim_error_atomic[OF this _ _ run] run show ?thesis by auto
qed

lemma CreateClaim_refuses_reuse:
  assumes "list_all (alone L) tks" "idle_session (tx_sid tx) d" "unique_keys d"
    "CreateClaim tx cmd tks d = Some (Inr res, tks', d')"
    "prepareCreateClaim cmd' = Inr p'" "trim_space (cmd_IdempotencyKey cmd') = trim_space (cmd_IdempotencyKey cmd)"
    "par_identity p' \<noteq> (trim_space (cmd_PlayerID cmd), trim_space (cmd_CampaignID cmd), trim_space (cmd_RewardID cmd))"
    "idle_session (tx_sid tx2) d'" "list_all quiet qs" "length qs = 3"
  shows "CreateClaim tx2 cmd' qs d' =
    Some (Inl (Wrapf ''create reward claim: %w'' (Sentinel ErrIdempotencyKeyReused)), [], d')"
proof -
  from CreateClaim_InrD[OF assms(4)] obtain p where p: "prepareCreateClaim cmd = Inr p"
      "createClaim tx p tks d = Some (Inr res, tks', d')" .
  from createClaim_outcome[OF assms(2,3,1) p(2)] have rep: "replayable p res d'" by (simp add: settled_def)
  have "par_KeyHash p' = par_KeyHash p" and "par_identity p' \<noteq> par_identity p"
    using prepareCreateClaim_InrD(2)[OF p(1)] prepareCreateClaim_InrD(2)[OF assms(5)] assms(6,7)
    by (auto simp: par_identity_def)
  from replayable_reused[OF prepareCreateClaim_params_ok[OF assms(5)] rep assms(8) this] assms(9,10)
  obtain "createClaim tx2 p' qs d' = Some (Inl (Sentinel ErrIdempotencyKeyReused), [], d')"
    by (auto simp: eval_nat_numeral length_Suc_conv)
  with assms(5) show ?thesis by (simp add: CreateClaim_def)
qed

text \<open>C17. A key that was used for one reward cannot be used for another: after a request has returned
  a response, a valid command with the same key and another player, campaign or reward is refused
  with \<open>ErrIdempotencyKeyReused\<close> and changes nothing.\<close>

theorem CreateClaim_key_reuse:
  assumes "list_all (alone L) tks" "idle_session (tx_sid tx) d" "unique_keys d"
    "CreateClaim tx cmd tks d = Some (Inr res, tks', d')"
    "prepareCreateClaim cmd' = Inr p'" "trim_space (cmd_IdempotencyKey cmd') = trim_space (cmd_IdempotencyKey cmd)"
    "par_identity p' \<noteq> (trim_space (cmd_PlayerID cmd), trim_space (cmd_CampaignID cmd), trim_space (cmd_RewardID cmd))"
    "idle_session (tx_sid tx2) d'" "list_all quiet qs" "length qs = 3"
  shows "CreateClaim tx2 cmd' qs d' =
    Some (Inl (Wrapf ''create reward claim: %w'' (Sentinel ErrIdempotencyKeyReused)), [], d')"
  using assms by (rule CreateClaim_refuses_reuse)

lemma sample_prepare_other:
  "prepareCreateClaim (sample_cmd\<lparr>cmd_RewardID := ''r2''\<rparr>) = Inr (sample_params\<lparr>par_RewardID := ''r2''\<rparr>)"
proof -
  have "trim_space ''r2'' = ''r2''" "validateClaimID ''reward_id'' ''r2'' = None" by code_simp+
  with sample_prepare show ?thesis
    by (simp add: prepareCreateClaim_def trim_command_def validateCreateClaimCommand_def Let_def
        sample_cmd_def sample_params_def split: option.splits)
qed

theorem CreateClaim_key_reuse_witness:
  "CreateClaim (sample_tx 2) (sample_cmd\<lparr>cmd_RewardID := ''r2''\<rparr>) (sample_ticks 3) sample_db =
    Some (Inl (Wrapf ''create reward claim: %w'' (Sentinel ErrIdempotencyKeyReused)), [], sample_db)"
proof (rule CreateClaim_key_reuse[OF _ _ _ sample_run sample_prepare_other, where L = False])
  have "trim_space (cmd_RewardID sample_cmd) = ''r1''"
    using prepareCreateClaim_InrD(2)[OF sample_prepare] by (simp add: sample_params_def)
  then show "par_identity (sample_params\<lparr>par_RewardID := ''r2''\<rparr>) \<noteq>
     (trim_space (cmd_PlayerID sample_cmd), trim_space (cmd_CampaignID sample_cmd), trim_space (cmd_RewardID sample_cmd))"
    by (simp add: par_identity_def)
qed (simp_all add: sample_cmd_def)

lemma CreateClaim_error_kinds:
  assumes "list_all (parent_in S) tks" "CreateClaim tx cmd tks d = Some (Inl e, tks', d')"
  shows "(tks' = tks \<and> d' = d \<and> (\<exists>m. e = InvalidInputError m)) \<or>
    (\<exists>e'. e = Wrapf ''create reward claim: %w'' e' \<and> claim_error S e')"
  using assms(2)
proof (cases rule: CreateClaim_InlD)
  case 1
  then show ?thesis
    by (auto simp: prepareCreateClaim_def Let_def split: option.splits dest: validateCreateClaimCommand_error)
next
  case (2 p e')
  with createClaim_errors[OF assms(1) 2(2)] show ?thesis by blast
qed

text \<open>C18. Every error of a request is of a kind the HTTP layer knows: an invalid input, found before
  any call to the database; or, wrapped, the reuse of a key, an unavailable or a failed database, or
  the end of the request's own context.\<close>

theorem CreateClaim_errors:
  assumes "list_all (parent_in S) tks" "CreateClaim tx cmd tks d = Some (Inl e, tks', d')"
  shows "(tks' = tks \<and> d' = d \<and> (\<exists>m. e = InvalidInputError m)) \<or>
    (\<exists>e'. e = Wrapf ''create reward claim: %w'' e' \<and> claim_error S e')"
  using assms by (rule CreateClaim_error_kinds)

theorem CreateClaim_errors_witness:
  "\<exists>e. CreateClaim (sample_tx 1) sample_cmd sample_lost empty_db = Some (Inl e, [], empty_db) \<and>
     (\<exists>e'. e = Wrapf ''create reward claim: %w'' e' \<and> claim_error {} e')"
proof -
  obtain e where run: "CreateClaim (sample_tx 1) sample_cmd sample_lost empty_db = Some (Inl e, [], empty_db)"
    using sample_lost_run by blast
  have "list_all (parent_in {}) sample_lost"
    by (simp add: sample_lost_def parent_in_def fault_tick_def quiet_tick_def)
  from CreateClaim_errors[OF this run] run show ?thesis by (auto simp: sample_lost_def)
qed

text \<open>C19. Validation: a command is accepted exactly when its three trimmed identifiers are nonempty
  valid UTF-8 without NUL of at most 128 characters and its trimmed key is nonempty, of at most 255
  bytes and without control characters. The parameters of an accepted command are the trimmed identifiers and
  the hash of the trimmed key, and the rows that are made from them satisfy the constraints of the schema on claims and on idempotency keys; any other
  command is refused with an \<open>InvalidInputError\<close>.\<close>

theorem prepareCreateClaim_spec:
  "(case prepareCreateClaim cmd of
      Inr p \<Rightarrow> command_ok cmd \<and>
        par_identity p = (trim_space (cmd_PlayerID cmd), trim_space (cmd_CampaignID cmd), trim_space (cmd_RewardID cmd)) \<and>
        par_KeyHash p = Sum256 (trim_space (cmd_IdempotencyKey cmd)) \<and>
        claim_row_chk (inserted_claim_row tx p) \<and> idem_row_chk (reserved_row tx p)
    | Inl e \<Rightarrow> \<not> command_ok cmd \<and> (\<exists>m. e = InvalidInputError m))"
proof (cases "prepareCreateClaim cmd")
  case (Inl e)
  with prepareCreateClaim_ok[of cmd] show ?thesis by force
next
  case (Inr p)
  with prepareCreateClaim_ok(2)[of cmd] have "command_ok cmd" by force
  with Inr prepareCreateClaim_InrD(2)[OF Inr] prepareCreateClaim_params_ok[OF Inr] inserted_claim_row_chk reserved_row_chk
  show ?thesis by (auto simp: par_identity_def)
qed

end
