(* ===== verification/Claim_Machine.thy ===== *)
theory Claim_Machine
  imports Reward_Atomicity
begin

text \<open>
  \<^verbatim>\<open>createClaim\<close> as a state machine: the same program, one driver call at a time, so that the
  calls of several requests can interleave. The theorem at the end says that the machine is the
  program of theory \<open>Reward_Store\<close>.
\<close>

section \<open>The request as a state machine\<close>

text \<open>The program counter of a request between two driver calls. A request that is about to reserve
  its key is \<open>RBegun\<close>; \<open>RLoading\<close> has met a conflict and will read the stored response; \<open>RReserved\<close>
  owns the key; \<open>RDuplicate\<close> has met a claimed reward; \<open>RInserted\<close> has inserted the claim and
  \<open>REvent\<close> its event; \<open>RReady\<close> is about to commit.\<close>

datatype req_pc =
    RBegun tx createClaimParams
  | RLoading tx createClaimParams
  | RReserved tx createClaimParams
  | RDuplicate tx createClaimParams
  | RInserted tx createClaimParams claim
  | REvent tx createClaimParams claim
  | RReady tx createClaimParams CreateClaimResult

datatype req_state = Continue req_pc | Finish "goerror + CreateClaimResult"

primrec req_tx :: "req_pc \<Rightarrow> tx" where
  "req_tx (RBegun tx p) = tx" | "req_tx (RLoading tx p) = tx" | "req_tx (RReserved tx p) = tx"
| "req_tx (RDuplicate tx p) = tx" | "req_tx (RInserted tx p c) = tx" | "req_tx (REvent tx p c) = tx"
| "req_tx (RReady tx p r) = tx"

primrec req_params :: "req_pc \<Rightarrow> createClaimParams" where
  "req_params (RBegun tx p) = p" | "req_params (RLoading tx p) = p" | "req_params (RReserved tx p) = p"
| "req_params (RDuplicate tx p) = p" | "req_params (RInserted tx p c) = p" | "req_params (REvent tx p c) = p"
| "req_params (RReady tx p r) = p"

text \<open>The result of a driver call decides where the request goes; when it ends, the deferred rollback
  runs.\<close>

definition advance :: "tx \<Rightarrow> ((goerror + 'a) \<times> db) option \<Rightarrow> ('a \<Rightarrow> req_state) \<Rightarrow> (req_state \<times> db) option" where
  "advance tx res next =
     (case res of
        None \<Rightarrow> None
      | Some (Inl e, d) \<Rightarrow> Some (Finish (Inl e), rollback_rows (tx_sid tx) d)
      | Some (Inr x, d) \<Rightarrow>
          (case next x of
             Continue pc \<Rightarrow> Some (Continue pc, d)
           | Finish r \<Rightarrow> Some (Finish r, rollback_rows (tx_sid tx) d)))"

definition event_id :: "tx \<Rightarrow> string" where
  "event_id tx = newUUIDV4 (tx_rand_event tx)"

definition insertEvent_call :: "tx \<Rightarrow> claim \<Rightarrow> go_string \<Rightarrow> unit call" where
  "insertEvent_call tx c payload = (\<lambda>tk d.
     case run_stmt (sql_insert_outbox tx c (event_id tx) payload) tk d of
       None \<Rightarrow> None
     | Some (Inl e, d') \<Rightarrow> Some (Inl (map_err tx tk e), d')
     | Some (Inr u, d') \<Rightarrow> Some (Inr u, d'))"

fun req_next :: "tick \<Rightarrow> req_pc \<Rightarrow> db \<Rightarrow> (req_state \<times> db) option" where
  "req_next tk (RBegun tx p) d =
     advance tx (tryReserveIdempotencyKey tx p tk d)
       (\<lambda>reserved. Continue (if reserved then RReserved tx p else RLoading tx p))"
| "req_next tk (RLoading tx p) d =
     advance tx (tryLoadIdempotentClaimResult tx p tk d)
       (\<lambda>found. Continue (case found of None \<Rightarrow> RBegun tx p | Some r \<Rightarrow> RReady tx p r))"
| "req_next tk (RReserved tx p) d =
     advance tx (tryInsertClaim tx p tk d)
       (\<lambda>created. case created of
          None \<Rightarrow> Continue (RDuplicate tx p)
        | Some c \<Rightarrow>
            (case marshal_event (event_id tx) c of
               None \<Rightarrow> Finish (Inl (Wrapf ''marshal reward claimed outbox payload: %w'' (Sentinel RewardsErrInternal)))
             | Some _ \<Rightarrow> Continue (RInserted tx p c)))"
| "req_next tk (RDuplicate tx p) d =
     advance tx (completeIdempotencyKey tx p createClaimStatusConflict marshalDuplicateClaimResponse '''' tk d)
       (\<lambda>_. Continue (RReady tx p conflict_result))"
| "req_next tk (RInserted tx p c) d =
     advance tx (insertEvent_call tx c (the (marshal_event (event_id tx) c)) tk d)
       (\<lambda>_. Continue (REvent tx p c))"
| "req_next tk (REvent tx p c) d =
     advance tx (completeIdempotencyKey tx p createClaimStatusCreated (marshalCreatedClaimResponse c) (cl_ID c) tk d)
       (\<lambda>_. Continue (RReady tx p \<lparr>res_StatusCode = createClaimStatusCreated,
          res_ResponseBody = marshalCreatedClaimResponse c, res_Replayed = False\<rparr>))"
| "req_next tk (RReady tx p r) d = advance tx (tx_commit tx tk d) (\<lambda>_. Finish (Inr r))"

fun req_run :: "req_pc \<Rightarrow> CreateClaimResult prog" where
  "req_run pc [] d = None"
| "req_run pc (tk # tks) d =
     (case req_next tk pc d of
        None \<Rightarrow> None
      | Some (Continue pc', d') \<Rightarrow> req_run pc' tks d'
      | Some (Finish r, d') \<Rightarrow> Some (r, tks, d'))"

text \<open>The machine runs the program: from each program counter, the rest of \<open>createClaim\<close>.\<close>

lemma req_run_ready:
  "req_run (RReady tx p r) tks d = rollbackTransaction tx (commit_result tx r) tks d"
  by (cases tks) (auto simp: advance_def rollbackTransaction_def commit_result_def prog_bind_def
      prog_return_def lift_call_def split: option.splits sum.splits prod.splits)

lemma req_run_bind:
  assumes "\<And>tk d. req_next tk pc d = advance tx (c tk d) next"
    and "\<And>x tks d. (case next x of Continue pc' \<Rightarrow> req_run pc' tks d
                              | Finish r \<Rightarrow> Some (r, tks, rollback_rows (tx_sid tx) d))
            = rollbackTransaction tx (f x) tks d"
  shows "req_run pc tks d = rollbackTransaction tx (prog_bind (lift_call c) f) tks d"
proof (cases tks)
  case Nil
  then show ?thesis by (simp add: rollbackTransaction_def prog_bind_def lift_call_def)
next
  case (Cons tk tks')
  show ?thesis
  proof (cases "c tk d")
    case None
    with Cons assms(1) show ?thesis
      by (simp add: rollbackTransaction_def prog_bind_def advance_def)
  next
    case (Some rd)
    obtain r d1 where rd: "rd = (r, d1)" by fastforce
    show ?thesis
    proof (cases r)
      case (Inl e)
      with Cons Some rd assms(1) show ?thesis
        by (simp add: rollbackTransaction_def prog_bind_def advance_def)
    next
      case (Inr x)
      with Cons Some rd assms(1)[of tk d] assms(2)[of tks' d1 x] show ?thesis
        by (auto simp: rollbackTransaction_def prog_bind_def advance_def split: req_state.splits)
    qed
  qed
qed

lemma rollback_bind_assoc:
  "prog_bind (prog_bind m f) g = prog_bind m (\<lambda>x. prog_bind (f x) g)"
  by (auto simp: prog_bind_def fun_eq_iff split: option.splits sum.splits prod.splits)

lemma prog_bind_return [simp]: "prog_bind (prog_return x) f = f x"
  by (simp add: prog_bind_def prog_return_def)

lemma req_run_created:
  "req_run (REvent tx p c) tks d = rollbackTransaction tx (prog_bind
     (lift_call (completeIdempotencyKey tx p createClaimStatusCreated (marshalCreatedClaimResponse c) (cl_ID c)))
     (\<lambda>_. commit_result tx \<lparr>res_StatusCode = createClaimStatusCreated,
        res_ResponseBody = marshalCreatedClaimResponse c, res_Replayed = False\<rparr>)) tks d"
  by (rule req_run_bind[OF req_next.simps(6)]) (simp add: req_run_ready)

lemma req_run_inserted:
  assumes "marshal_event (event_id tx) c = Some payload"
  shows "req_run (RInserted tx p c) tks d =
    rollbackTransaction tx (prog_bind (completeCreatedClaim tx p c) (commit_result tx)) tks d"
proof -
  have "insertRewardClaimedOutboxEvent tx c = lift_call (insertEvent_call tx c payload)"
    using assms by (simp add: insertRewardClaimedOutboxEvent_def insertEvent_call_def event_id_def)
  then have "prog_bind (completeCreatedClaim tx p c) (commit_result tx) =
      prog_bind (lift_call (insertEvent_call tx c payload)) (\<lambda>_. prog_bind
     (lift_call (completeIdempotencyKey tx p createClaimStatusCreated (marshalCreatedClaimResponse c) (cl_ID c)))
     (\<lambda>_. commit_result tx \<lparr>res_StatusCode = createClaimStatusCreated,
        res_ResponseBody = marshalCreatedClaimResponse c, res_Replayed = False\<rparr>))"
    by (simp add: completeCreatedClaim_def Let_def rollback_bind_assoc)
  then show ?thesis
    by (simp only:) (rule req_run_bind, simp add: assms, simp add: req_run_created)
qed

lemma req_run_duplicate:
  "req_run (RDuplicate tx p) tks d =
    rollbackTransaction tx (prog_bind (completeDuplicateClaim tx p) (commit_result tx)) tks d"
  unfolding completeDuplicateClaim_def Let_def rollback_bind_assoc prog_bind_return
  by (rule req_run_bind[OF req_next.simps(4)]) (simp add: req_run_ready conflict_result_def)

lemma req_run_reserved:
  "req_run (RReserved tx p) tks d = rollbackTransaction tx
     (prog_bind (lift_call (tryInsertClaim tx p)) (\<lambda>created.
        case created of
          None \<Rightarrow> prog_bind (completeDuplicateClaim tx p) (commit_result tx)
        | Some c \<Rightarrow> prog_bind (completeCreatedClaim tx p c) (commit_result tx))) tks d"
proof (rule req_run_bind[OF req_next.simps(3)])
  fix created tks d
  show "(case (case created of None \<Rightarrow> Continue (RDuplicate tx p)
        | Some c \<Rightarrow>
            (case marshal_event (event_id tx) c of
               None \<Rightarrow> Finish (Inl (Wrapf ''marshal reward claimed outbox payload: %w'' (Sentinel RewardsErrInternal)))
             | Some _ \<Rightarrow> Continue (RInserted tx p c))) of
      Continue pc' \<Rightarrow> req_run pc' tks d | Finish r \<Rightarrow> Some (r, tks, rollback_rows (tx_sid tx) d)) =
    rollbackTransaction tx (case created of
          None \<Rightarrow> prog_bind (completeDuplicateClaim tx p) (commit_result tx)
        | Some c \<Rightarrow> prog_bind (completeCreatedClaim tx p c) (commit_result tx)) tks d"
  proof (cases created)
    case (Some c)
    show ?thesis
    proof (cases "marshal_event (event_id tx) c")
      case None
      then show ?thesis using \<open>created = Some c\<close>
        by (simp add: completeCreatedClaim_def insertRewardClaimedOutboxEvent_def event_id_def
            prog_bind_def rollbackTransaction_def Let_def)
    qed (simp add: Some req_run_inserted)
  qed (simp add: req_run_duplicate)
qed

lemma createClaim_body_reserved:
  "reserve_loop tx p tks d = Some (Inr None, tks', d') \<Longrightarrow>
     createClaim_body tx p tks d = prog_bind (lift_call (tryInsertClaim tx p)) (\<lambda>created.
        case created of
          None \<Rightarrow> prog_bind (completeDuplicateClaim tx p) (commit_result tx)
        | Some c \<Rightarrow> prog_bind (completeCreatedClaim tx p c) (commit_result tx)) tks' d'"
  unfolding createClaim_body_def by (subst prog_bind_def) simp

lemma req_run_begun:
  "req_run (RBegun tx p) tks d = rollbackTransaction tx (createClaim_body tx p) tks d"
proof (induction tks arbitrary: d rule: length_induct)
  case (1 tks)
  note cases_simps = rollbackTransaction_def createClaim_body_def prog_bind_def reserve_loop.simps advance_def
  show ?case
  proof (cases tks)
    case (Cons tk tks1)
    show ?thesis
    proof (cases "tryReserveIdempotencyKey tx p tk d")
      case (Some rd)
      obtain r d1 where rd: "rd = (r, d1)" by fastforce
      consider e where "r = Inl e" | "r = Inr True" | "r = Inr False" by (cases r) auto
      then show ?thesis
      proof cases
        case 2
        with Cons Some rd have "reserve_loop tx p tks d = Some (Inr None, tks1, d1)"
          by (simp add: reserve_loop.simps)
        from createClaim_body_reserved[OF this] 2 Cons Some rd show ?thesis
          using req_run_reserved[of tx p tks1 d1] by (simp add: advance_def rollbackTransaction_def)
      next
        case 3
        show ?thesis
        proof (cases tks1)
          case Nil
          with 3 Cons Some rd show ?thesis by (simp add: cases_simps)
        next
          case Cons2: (Cons tk2 tks2)
          have IH: "req_run (RBegun tx p) tks2 d2 = rollbackTransaction tx (createClaim_body tx p) tks2 d2" for d2
            using "1.IH" Cons Cons2 by simp
          show ?thesis
          proof (cases "tryLoadIdempotentClaimResult tx p tk2 d1")
            case None
            with 3 Cons Some rd Cons2 show ?thesis by (simp add: cases_simps)
          next
            case S2: (Some rd2)
            obtain r2 d2 where rd2: "rd2 = (r2, d2)" by fastforce
            consider e where "r2 = Inl e" | "r2 = Inr None" | res where "r2 = Inr (Some res)"
              by (cases r2) auto
            then show ?thesis
              using 3 Cons Some rd Cons2 S2 rd2 IH[of d2] req_run_ready[of tx p _ tks2 d2]
              by cases (simp_all add: cases_simps)
          qed
        qed
      qed (use Cons Some rd in \<open>simp add: cases_simps\<close>)
    qed (use Cons in \<open>simp add: cases_simps\<close>)
  qed (simp add: cases_simps)
qed


text \<open>C9. The state machine of requests is the program: \<open>createClaim\<close> on any script of driver calls, with
  any interference and any failures, does what beginning the transaction and then stepping the
  machine call by call does, with the same result, the same rest of the script and the same database.\<close>

theorem createClaim_refines_machine:
  "createClaim tx p tks d = prog_bind (lift_call (begin_tx tx)) (\<lambda>_. req_run (RBegun tx p)) tks d"
proof -
  have "req_run (RBegun tx p) = rollbackTransaction tx (createClaim_body tx p)"
    by (intro ext) (rule req_run_begun)
  then show ?thesis by (simp add: createClaim_def)
qed

end
