(* ===== verification/Outbox_Store.thy ===== *)
theory Outbox_Store
  imports Schema Postgres "HOL-Library.Char_ord" "HOL-Library.List_Lexorder" "HOL-Library.Product_Lexorder"
begin

text \<open>
  \<^verbatim>\<open>internal/outbox/store.go\<close> and \<^verbatim>\<open>event.go\<close>: leasing an outbox event and the three transitions
  that end a lease, each a single statement in its own transaction.

  What a call meets is a record \<open>store_env\<close>: the server's \<^verbatim>\<open>now()\<close>, the events whose rows are
  locked by statements that run at the same moment (they are skipped by
  \<^verbatim>\<open>FOR UPDATE SKIP LOCKED\<close>), a failure of the driver or the network and whether the statement
  had taken effect all the same, and the caller's context. The conversion of a duration to a
  PostgreSQL interval (\<^verbatim>\<open>Duration.Seconds\<close>, a \<^verbatim>\<open>double precision\<close>, \<^verbatim>\<open>make_interval\<close>) is the
  parameter \<open>se_interval\<close>, from nanoseconds to microseconds.

  Identifiers are compared in the canonical text form of a UUID, whose order is the order of
  the type \<^verbatim>\<open>uuid\<close>.
\<close>

section \<open>Data\<close>

record Event =
  ev_ID :: string
  ev_AggregateType :: go_string
  ev_AggregateID :: string
  ev_EventType :: go_string
  ev_Payload :: go_string
  ev_FailedAttempts :: int

datatype PublishOutcome =
  PublishOutcomeSuccess | PublishOutcomeFailed | PublishOutcomeTimeout | PublishOutcomeCanceled

fun outcome_string :: "PublishOutcome \<Rightarrow> string" where
  "outcome_string PublishOutcomeSuccess = ''success''"
| "outcome_string PublishOutcomeFailed = ''failed''"
| "outcome_string PublishOutcomeTimeout = ''timeout''"
| "outcome_string PublishOutcomeCanceled = ''canceled''"

record store_env =
  se_now :: timestamp
  se_locked :: "string list"
  se_fault :: "goerror option"
  se_landed :: bool
  se_parent :: context_state
  se_expired :: bool
  se_interval :: "int \<Rightarrow> int"
  se_pgconn_timeout :: "goerror \<Rightarrow> bool"

definition outbox_queryContext :: "store_env \<Rightarrow> context_state" where
  "outbox_queryContext env = with_timeout_cause OutboxErrQueryTimeout (se_expired env) (se_parent env)"

definition outbox_mapPostgresError ::
  "(goerror \<Rightarrow> bool) \<Rightarrow> context_state \<Rightarrow> goerror \<Rightarrow> goerror" where
  "outbox_mapPostgresError tmo c err =
     (if errors_is err ErrNoRows
      then Wrapf ''postgres outbox operation returned no row: %w'' (Sentinel ErrStoreInternal)
      else if is_ctx_error c err then
        (if ctx_cause_is c OutboxErrQueryTimeout
         then Wrapf ''postgres outbox operation: %w'' (Sentinel ErrStoreUnavailable)
         else Sentinel (the (ctx_err c)))
      else if IsUnavailable tmo err
      then Wrapf ''postgres outbox operation: %w'' (Sentinel ErrStoreUnavailable)
      else Wrapf ''postgres outbox operation: %w'' (Sentinel ErrStoreInternal))"

section \<open>The statements\<close>

definition due :: "timestamp \<Rightarrow> outbox_row \<Rightarrow> bool" where
  "due now r \<longleftrightarrow>
     (ob_status r = Pending \<and> ob_available_at r \<le> now) \<or>
     (ob_status r = Processing \<and> (case ob_locked_until r of None \<Rightarrow> False | Some t \<Rightarrow> t \<le> now))"

definition due_key :: "outbox_row \<Rightarrow> timestamp \<times> string" where
  "due_key r = (ob_available_at r, ob_id r)"

text \<open>The subquery \<^verbatim>\<open>due_event\<close>: of the committed rows that are due and not locked, the first by
  \<^verbatim>\<open>available_at, id\<close>.\<close>

definition due_events :: "store_env \<Rightarrow> db \<Rightarrow> outbox_row list" where
  "due_events env d =
     filter (\<lambda>r. ob_owner r = None \<and> due (se_now env) r \<and> ob_id r \<notin> set (se_locked env)) (outbox_events d)"

definition due_event :: "store_env \<Rightarrow> db \<Rightarrow> outbox_row option" where
  "due_event env d =
     (case due_events env d of [] \<Rightarrow> None | r # rs \<Rightarrow> Some (arg_min_list due_key (r # rs)))"

text \<open>An \<^verbatim>\<open>UPDATE\<close> of the rows that satisfy a condition: it fails as a whole when a new row cannot be
  computed or breaks a constraint; otherwise its value is the list of new rows.\<close>

definition checked_row :: "goerror + outbox_row \<Rightarrow> goerror + outbox_row" where
  "checked_row x =
     (case x of
        Inl e \<Rightarrow> Inl e
      | Inr r \<Rightarrow> if outbox_row_chk r then Inr r else Inl check_violation)"

definition sql_update ::
  "(outbox_row \<Rightarrow> bool) \<Rightarrow> (outbox_row \<Rightarrow> goerror + outbox_row) \<Rightarrow> db \<Rightarrow> goerror + (outbox_row list \<times> db)"
where
  "sql_update cond upd d =
     (let new = checked_row \<circ> upd;
          matched = filter cond (outbox_events d)
      in case List.find isl (map new matched) of
           Some x \<Rightarrow> Inl (projl x)
         | None \<Rightarrow> Inr (map (projr \<circ> new) matched,
             d\<lparr>outbox_events := map (\<lambda>r. if cond r then projr (new r) else r) (outbox_events d)\<rparr>))"

definition leased_row :: "store_env \<Rightarrow> go_string \<Rightarrow> int \<Rightarrow> outbox_row \<Rightarrow> outbox_row" where
  "leased_row env workerID lockTTL r = r\<lparr>
     ob_status := Processing, ob_locked_by := Some workerID,
     ob_locked_until := Some (se_now env + se_interval env lockTTL), ob_updated_at := se_now env\<rparr>"

definition event_of_row :: "outbox_row \<Rightarrow> Event" where
  "event_of_row r = \<lparr>ev_ID = ob_id r, ev_AggregateType = ob_aggregate_type r,
     ev_AggregateID = ob_aggregate_id r, ev_EventType = ob_event_type r, ev_Payload = ob_payload r,
     ev_FailedAttempts = ob_failed_attempts r\<rparr>"

text \<open>The value is the returned row; \<^verbatim>\<open>pgx.ErrNoRows\<close> when nothing is due.\<close>

definition sql_claim ::
  "store_env \<Rightarrow> go_string \<Rightarrow> int \<Rightarrow> db \<Rightarrow> goerror + (Event \<times> db)" where
  "sql_claim env workerID lockTTL d =
     (case due_event env d of
        None \<Rightarrow> Inl (Sentinel ErrNoRows)
      | Some target \<Rightarrow>
          (case sql_update (\<lambda>r. ob_owner r = None \<and> ob_id r = ob_id target)
                  (\<lambda>r. Inr (leased_row env workerID lockTTL r)) d of
             Inl e \<Rightarrow> Inl e
           | Inr ([], d') \<Rightarrow> Inl (Sentinel ErrNoRows)
           | Inr (r # _, d') \<Rightarrow> Inr (event_of_row r, d')))"

text \<open>The condition that fences the three final transitions.\<close>

definition fenced :: "go_string \<Rightarrow> string \<Rightarrow> outbox_row \<Rightarrow> bool" where
  "fenced workerID eventID r \<longleftrightarrow>
     ob_owner r = None \<and> ob_id r = eventID \<and> ob_status r = Processing \<and> ob_locked_by r = Some workerID"

definition published_row :: "store_env \<Rightarrow> outbox_row \<Rightarrow> outbox_row" where
  "published_row env r = r\<lparr>
     ob_status := Published, ob_published_at := Some (se_now env), ob_locked_by := None,
     ob_locked_until := None, ob_updated_at := se_now env\<rparr>"

definition retry_row :: "store_env \<Rightarrow> int \<Rightarrow> string \<Rightarrow> outbox_row \<Rightarrow> outbox_row" where
  "retry_row env delay reason r = r\<lparr>
     ob_status := Pending, ob_failed_attempts := ob_failed_attempts r + 1,
     ob_available_at := se_now env + se_interval env delay, ob_locked_by := None,
     ob_locked_until := None, ob_last_failure_reason := Some reason, ob_updated_at := se_now env\<rparr>"

definition dead_letter_row :: "store_env \<Rightarrow> string \<Rightarrow> outbox_row \<Rightarrow> outbox_row" where
  "dead_letter_row env reason r = r\<lparr>
     ob_status := DeadLetter, ob_failed_attempts := ob_failed_attempts r + 1,
     ob_dead_lettered_at := Some (se_now env), ob_locked_by := None,
     ob_locked_until := None, ob_last_failure_reason := Some reason, ob_updated_at := se_now env\<rparr>"

text \<open>The column \<^verbatim>\<open>failed_attempts\<close> is a 32-bit \<^verbatim>\<open>integer\<close>; its overflow is an error.\<close>

definition int4_guard :: "(outbox_row \<Rightarrow> outbox_row) \<Rightarrow> outbox_row \<Rightarrow> goerror + outbox_row" where
  "int4_guard f r =
     (if ob_failed_attempts r + 1 > 2 ^ 31 - 1 then Inl numeric_out_of_range else Inr (f r))"

definition sql_mark_published ::
  "store_env \<Rightarrow> go_string \<Rightarrow> string \<Rightarrow> db \<Rightarrow> goerror + (int \<times> db)" where
  "sql_mark_published env workerID eventID d =
     map_sum id (map_prod (int \<circ> length) id)
       (sql_update (fenced workerID eventID) (\<lambda>r. Inr (published_row env r)) d)"

definition sql_schedule_retry ::
  "store_env \<Rightarrow> go_string \<Rightarrow> string \<Rightarrow> int \<Rightarrow> string \<Rightarrow> db \<Rightarrow> goerror + (int \<times> db)" where
  "sql_schedule_retry env workerID eventID delay reason d =
     map_sum id (map_prod (int \<circ> length) id)
       (sql_update (fenced workerID eventID) (int4_guard (retry_row env delay reason)) d)"

definition sql_mark_dead_letter ::
  "store_env \<Rightarrow> go_string \<Rightarrow> string \<Rightarrow> string \<Rightarrow> db \<Rightarrow> goerror + (int \<times> db)" where
  "sql_mark_dead_letter env workerID eventID reason d =
     map_sum id (map_prod (int \<circ> length) id)
       (sql_update (fenced workerID eventID) (int4_guard (dead_letter_row env reason)) d)"

section \<open>The store\<close>

text \<open>A statement sent through the pool: on a fault the caller sees the error, and the statement has
  taken effect or not.\<close>

definition pool_exec ::
  "store_env \<Rightarrow> (db \<Rightarrow> goerror + ('a \<times> db)) \<Rightarrow> db \<Rightarrow> (goerror + 'a) \<times> db" where
  "pool_exec env st d =
     (case se_fault env of
        Some e \<Rightarrow>
          (Inl e, if se_landed env then (case st d of Inl _ \<Rightarrow> d | Inr (_, d') \<Rightarrow> d') else d)
      | None \<Rightarrow> (case st d of Inl e \<Rightarrow> (Inl e, d) | Inr (x, d') \<Rightarrow> (Inr x, d')))"

definition outbox_map_err :: "store_env \<Rightarrow> goerror \<Rightarrow> goerror" where
  "outbox_map_err env e = outbox_mapPostgresError (se_pgconn_timeout env) (outbox_queryContext env) e"

definition NewPostgresStore :: "'pool option \<Rightarrow> int \<Rightarrow> goerror + ('pool \<times> int)" where
  "NewPostgresStore pool queryTimeout =
     (case pool of
        None \<Rightarrow> Inl (Plain ''postgres outbox pool is required'')
      | Some p \<Rightarrow>
          if queryTimeout \<le> 0
          then Inl (Plain ''postgres outbox query timeout must be greater than zero'')
          else Inr (p, queryTimeout))"

text \<open>\<^verbatim>\<open>ClaimNext\<close> returns an event and true (\<open>Some\<close>), no event (\<open>None\<close>) or an error.\<close>

definition ClaimNext ::
  "store_env \<Rightarrow> go_string \<Rightarrow> int \<Rightarrow> db \<Rightarrow> (goerror + Event option) \<times> db" where
  "ClaimNext env workerID lockTTL d =
     (if workerID = '''' then (Inl (Plain ''worker id must not be empty''), d)
      else if lockTTL \<le> 0 then (Inl (Plain ''lock ttl must be greater than zero''), d)
      else (case pool_exec env (sql_claim env workerID lockTTL) d of
          (Inl e, d') \<Rightarrow>
            if errors_is e ErrNoRows then (Inr None, d')
            else (Inl (Wrapf ''claim next outbox event: %w'' (outbox_map_err env e)), d')
        | (Inr ev, d') \<Rightarrow> (Inr (Some ev), d')))"

definition transition_result ::
  "store_env \<Rightarrow> string \<Rightarrow> (goerror + int) \<times> db \<Rightarrow> goerror option \<times> db" where
  "transition_result env msg res =
     (case res of
        (Inl e, d') \<Rightarrow> (Some (Wrapf msg (outbox_map_err env e)), d')
      | (Inr n, d') \<Rightarrow>
          if n \<noteq> 1 then (Some (Wrapf msg (Sentinel ErrLeaseLost)), d') else (None, d'))"

definition MarkPublished :: "store_env \<Rightarrow> go_string \<Rightarrow> string \<Rightarrow> db \<Rightarrow> goerror option \<times> db" where
  "MarkPublished env workerID eventID d =
     (if workerID = '''' then (Some (Plain ''worker id must not be empty''), d)
      else if eventID = '''' then (Some (Plain ''event id must not be empty''), d)
      else transition_result env ''mark outbox event published: %w''
             (pool_exec env (sql_mark_published env workerID eventID) d))"

definition ScheduleRetry ::
  "store_env \<Rightarrow> go_string \<Rightarrow> string \<Rightarrow> int \<Rightarrow> PublishOutcome \<Rightarrow> db \<Rightarrow> goerror option \<times> db" where
  "ScheduleRetry env workerID eventID retryDelay outcome d =
     (if workerID = '''' then (Some (Plain ''worker id must not be empty''), d)
      else if eventID = '''' then (Some (Plain ''event id must not be empty''), d)
      else if retryDelay \<le> 0 then (Some (Plain ''retry delay must be greater than zero''), d)
      else transition_result env ''schedule outbox event retry: %w''
             (pool_exec env (sql_schedule_retry env workerID eventID retryDelay (outcome_string outcome)) d))"

definition MarkDeadLetter ::
  "store_env \<Rightarrow> go_string \<Rightarrow> string \<Rightarrow> PublishOutcome \<Rightarrow> db \<Rightarrow> goerror option \<times> db" where
  "MarkDeadLetter env workerID eventID outcome d =
     (if workerID = '''' then (Some (Plain ''worker id must not be empty''), d)
      else if eventID = '''' then (Some (Plain ''event id must not be empty''), d)
      else transition_result env ''mark outbox event dead letter: %w''
             (pool_exec env (sql_mark_dead_letter env workerID eventID (outcome_string outcome)) d))"

section \<open>The table as a map of leases\<close>

text \<open>What the store promises is said of an abstract state: every committed event is waiting, leased
  to a worker, delivered or dead, with its number of recorded failures.\<close>

datatype lease =
    Waiting (failures: int)
  | Leased go_string (failures: int)
  | Delivered (failures: int)
  | Dead (failures: int)

definition lease_of_row :: "outbox_row \<Rightarrow> lease" where
  "lease_of_row r =
     (case ob_status r of
        Pending \<Rightarrow> Waiting (ob_failed_attempts r)
      | Processing \<Rightarrow>
          Leased (case ob_locked_by r of None \<Rightarrow> '''' | Some w \<Rightarrow> w) (ob_failed_attempts r)
      | Published \<Rightarrow> Delivered (ob_failed_attempts r)
      | DeadLetter \<Rightarrow> Dead (ob_failed_attempts r))"

definition lease_view :: "db \<Rightarrow> string \<Rightarrow> lease option" where
  "lease_view d eid =
     map_option lease_of_row (List.find (\<lambda>r. ob_owner r = None \<and> ob_id r = eid) (outbox_events d))"

definition outbox_inv :: "db \<Rightarrow> bool" where
  "outbox_inv d \<longleftrightarrow>
     distinct (map ob_id (outbox_events d)) \<and> (\<forall>r \<in> set (outbox_events d). outbox_row_chk r)"

definition replace_row :: "outbox_row \<Rightarrow> outbox_row \<Rightarrow> db \<Rightarrow> db" where
  "replace_row r r' d = d\<lparr>outbox_events := map (\<lambda>x. if x = r then r' else x) (outbox_events d)\<rparr>"

lemma lease_view_at:
  assumes "outbox_inv d" "r \<in> set (outbox_events d)" "ob_owner r = None"
  shows "lease_view d (ob_id r) = Some (lease_of_row r)"
proof -
  have "List.find (\<lambda>x. ob_owner x = None \<and> ob_id x = ob_id r) (outbox_events d) = Some r"
  proof (cases "List.find (\<lambda>x. ob_owner x = None \<and> ob_id x = ob_id r) (outbox_events d)")
    case None
    with assms show ?thesis by (auto simp: find_None_conv)
  next
    case (Some x)
    with assms show ?thesis by (auto simp: outbox_inv_def dest!: find_Some_conv dest: distinct_map_eqD)
  qed
  then show ?thesis by (simp add: lease_view_def)
qed

lemma lease_view_SomeD:
  assumes "lease_view d eid = Some l"
  obtains r where "r \<in> set (outbox_events d)" "ob_owner r = None" "ob_id r = eid" "l = lease_of_row r"
  using assms by (auto simp: lease_view_def dest: find_Some_conv)

lemma lease_view_None:
  "lease_view d eid = None \<longleftrightarrow> (\<forall>r \<in> set (outbox_events d). ob_owner r = None \<longrightarrow> ob_id r \<noteq> eid)"
  by (auto simp: lease_view_def find_None_conv)

lemma replace_row_inv:
  assumes "outbox_inv d" "ob_id r' = ob_id r" "outbox_row_chk r'"
  shows "outbox_inv (replace_row r r' d)"
proof -
  have "map ob_id (outbox_events (replace_row r r' d)) = map ob_id (outbox_events d)"
    using assms(2) by (simp add: replace_row_def)
  with assms have "distinct (map ob_id (outbox_events (replace_row r r' d)))"
    by (simp add: outbox_inv_def)
  with assms show ?thesis by (auto simp: outbox_inv_def replace_row_def)
qed

lemma replace_row_view:
  assumes "outbox_inv d" "r \<in> set (outbox_events d)" "ob_owner r = None" "ob_id r' = ob_id r"
    "ob_owner r' = None" "outbox_row_chk r'"
  shows "lease_view (replace_row r r' d) = (lease_view d)(ob_id r \<mapsto> lease_of_row r')"
proof
  fix eid
  note inv' = replace_row_inv[OF assms(1,4,6)]
  have rows': "set (outbox_events (replace_row r r' d)) = insert r' (set (outbox_events d) - {r})"
    using assms(2) by (auto simp: replace_row_def)
  have only: "x = r" if "x \<in> set (outbox_events d)" "ob_id x = ob_id r" for x
    using that assms(1,2) by (auto simp: outbox_inv_def dest: distinct_map_eqD)
  show "lease_view (replace_row r r' d) eid = ((lease_view d)(ob_id r \<mapsto> lease_of_row r')) eid"
  proof (cases "eid = ob_id r")
    case True
    with lease_view_at[OF inv', of r'] rows' assms(4,5) show ?thesis by simp
  next
    case False
    show ?thesis
    proof (cases "lease_view d eid")
      case None
      with False rows' assms(4) have "lease_view (replace_row r r' d) eid = None"
        by (auto simp: lease_view_None)
      with None False show ?thesis by simp
    next
      case (Some l)
      then obtain x where x: "x \<in> set (outbox_events d)" "ob_owner x = None" "ob_id x = eid"
          "l = lease_of_row x" by (rule lease_view_SomeD)
      with False rows' have "x \<in> set (outbox_events (replace_row r r' d))" by auto
      from lease_view_at[OF inv' this x(2)] x Some False show ?thesis by simp
    qed
  qed
qed

text \<open>An \<^verbatim>\<open>UPDATE\<close> whose condition fixes the identifier changes one row or none.\<close>

lemma sql_update_one:
  assumes "sql_update cond upd d = Inr (rows, d')" "outbox_inv d" "\<And>x. cond x \<Longrightarrow> ob_id x = eid"
  shows "(rows = [] \<and> d' = d \<and> (\<forall>r \<in> set (outbox_events d). \<not> cond r)) \<or>
    (\<exists>r r'. r \<in> set (outbox_events d) \<and> cond r \<and> upd r = Inr r' \<and> outbox_row_chk r' \<and> rows = [r'] \<and>
       d' = replace_row r r' d)"
proof -
  let ?new = "checked_row \<circ> upd" and ?m = "filter cond (outbox_events d)"
  from assms(1) have ok: "\<And>x. x \<in> set ?m \<Longrightarrow> \<not> isl (?new x)"
      and rows: "rows = map (projr \<circ> ?new) ?m"
      and d': "d' = d\<lparr>outbox_events := map (\<lambda>r. if cond r then projr (?new r) else r) (outbox_events d)\<rparr>"
    by (auto simp: sql_update_def Let_def find_None_conv split: option.splits)
  show ?thesis
  proof (cases ?m)
    case Nil
    then have "\<forall>r \<in> set (outbox_events d). \<not> cond r" by (auto simp: filter_empty_conv)
    then have "d' = d" unfolding d' by (auto intro!: db.equality map_idI)
    with Nil rows \<open>\<forall>r \<in> set (outbox_events d). \<not> cond r\<close> show ?thesis by simp
  next
    case (Cons r rs)
    then have "r \<in> set ?m" by simp
    then have r: "r \<in> set (outbox_events d)" "cond r" by auto
    have only: "cond x \<longleftrightarrow> x = r" if "x \<in> set (outbox_events d)" for x
      using that r assms(2,3) by (auto simp: outbox_inv_def dest: distinct_map_eqD)
    have "?m = filter (\<lambda>x. ob_id x = eid \<and> cond x) (outbox_events d)"
      using assms(3) by (auto intro: filter_cong)
    then have "length ?m \<le> 1"
      using filter_key_le_one[of ob_id "outbox_events d" eid cond] assms(2)
      by (simp add: outbox_inv_def)
    with Cons have "?m = [r]" by simp
    moreover from ok[of r] r obtain r' where "upd r = Inr r'" "outbox_row_chk r'"
      by (auto simp: checked_row_def split: sum.splits if_splits)
    moreover have "d' = replace_row r (projr (?new r)) d"
      unfolding d' replace_row_def using only by (auto intro!: db.equality map_cong)
    ultimately show ?thesis using r rows by (auto simp: checked_row_def)
  qed
qed

section \<open>The interface\<close>

text \<open>\<^verbatim>\<open>type Store interface\<close>: the four methods, over any state and any environment of a call.\<close>

record ('env, 's) Store =
  st_ClaimNext :: "'env \<Rightarrow> go_string \<Rightarrow> int \<Rightarrow> 's \<Rightarrow> (goerror + Event option) \<times> 's"
  st_MarkPublished :: "'env \<Rightarrow> go_string \<Rightarrow> string \<Rightarrow> 's \<Rightarrow> goerror option \<times> 's"
  st_ScheduleRetry ::
    "'env \<Rightarrow> go_string \<Rightarrow> string \<Rightarrow> int \<Rightarrow> PublishOutcome \<Rightarrow> 's \<Rightarrow> goerror option \<times> 's"
  st_MarkDeadLetter :: "'env \<Rightarrow> go_string \<Rightarrow> string \<Rightarrow> PublishOutcome \<Rightarrow> 's \<Rightarrow> goerror option \<times> 's"

definition postgresStore :: "(store_env, db) Store" where
  "postgresStore = \<lparr>st_ClaimNext = ClaimNext, st_MarkPublished = MarkPublished,
     st_ScheduleRetry = ScheduleRetry, st_MarkDeadLetter = MarkDeadLetter\<rparr>"

text \<open>Claiming takes an event that waits or whose lease is held by anyone, and leaves it leased.
  Ending a lease needs the lease.\<close>

definition took_lease :: "go_string \<Rightarrow> string \<Rightarrow> (string \<Rightarrow> lease option) \<Rightarrow> (string \<Rightarrow> lease option) \<Rightarrow> bool" where
  "took_lease w eid v v' \<longleftrightarrow>
     (\<exists>l. v eid = Some l \<and> (l = Waiting (failures l) \<or> (\<exists>w'. l = Leased w' (failures l))) \<and>
        v' = v(eid \<mapsto> Leased w (failures l)))"

definition ended_lease ::
  "(int \<Rightarrow> lease) \<Rightarrow> go_string \<Rightarrow> string \<Rightarrow> (string \<Rightarrow> lease option) \<Rightarrow> (string \<Rightarrow> lease option) \<Rightarrow> bool" where
  "ended_lease final w eid v v' \<longleftrightarrow> (\<exists>f. v eid = Some (Leased w f) \<and> v' = v(eid \<mapsto> final f))"

text \<open>The outcome of an operation that ends a lease: it succeeded and the lease has ended; or the
  lease was lost and nothing changed; or it failed, and the lease has ended or not.\<close>

definition end_outcome ::
  "(int \<Rightarrow> lease) \<Rightarrow> go_string \<Rightarrow> string \<Rightarrow> (string \<Rightarrow> lease option) \<Rightarrow> goerror option \<Rightarrow>
     (string \<Rightarrow> lease option) \<Rightarrow> bool" where
  "end_outcome final w eid v res v' =
     (case res of
        None \<Rightarrow> ended_lease final w eid v v'
      | Some e \<Rightarrow>
          if errors_is e ErrLeaseLost then v' = v \<and> (\<nexists>f. v eid = Some (Leased w f))
          else v' = v \<or> ended_lease final w eid v v')"

text \<open>Progress: no event appears or disappears, failures are never forgotten, and an event that is
  delivered or dead stays as it is.\<close>

definition lease_progress :: "lease \<Rightarrow> lease \<Rightarrow> bool" where
  "lease_progress l l' =
     (case l of
        Delivered _ \<Rightarrow> l' = l
      | Dead _ \<Rightarrow> l' = l
      | Waiting f \<Rightarrow> f \<le> failures l'
      | Leased _ f \<Rightarrow> f \<le> failures l')"

definition view_progress :: "(string \<Rightarrow> lease option) \<Rightarrow> (string \<Rightarrow> lease option) \<Rightarrow> bool" where
  "view_progress v v' \<longleftrightarrow> (\<forall>eid. rel_option lease_progress (v eid) (v' eid))"

lemma lease_progress_refl [simp]: "lease_progress l l"
  by (cases l) (auto simp: lease_progress_def)

lemma lease_progress_trans: "lease_progress a b \<Longrightarrow> lease_progress b c \<Longrightarrow> lease_progress a c"
  by (cases a; cases b) (auto simp: lease_progress_def)

lemma view_progress_refl [simp]: "view_progress v v"
  by (simp add: view_progress_def option.rel_refl)

lemma view_progress_trans: "view_progress u v \<Longrightarrow> view_progress v w \<Longrightarrow> view_progress u w"
  unfolding view_progress_def
proof (intro allI)
  fix eid
  assume "\<forall>eid. rel_option lease_progress (u eid) (v eid)" "\<forall>eid. rel_option lease_progress (v eid) (w eid)"
  then have "rel_option lease_progress (u eid) (v eid)" "rel_option lease_progress (v eid) (w eid)" by auto
  then show "rel_option lease_progress (u eid) (w eid)"
    by (cases "u eid"; cases "v eid"; cases "w eid") (auto intro: lease_progress_trans)
qed

lemma view_progress_upd:
  "v eid = Some l \<Longrightarrow> lease_progress l l' \<Longrightarrow> view_progress v (v(eid \<mapsto> l'))"
  by (auto simp: view_progress_def option.rel_refl)

lemma took_lease_progress: "took_lease w eid v v' \<Longrightarrow> view_progress v v'"
  by (auto simp: took_lease_def intro!: view_progress_upd) (auto simp: lease_progress_def split: lease.split)

lemma end_outcome_progress:
  assumes "end_outcome final w eid v res v'" "\<And>f. f \<le> failures (final f)"
  shows "view_progress v v'"
proof -
  have "ended_lease final w eid v v' \<Longrightarrow> view_progress v v'"
    using assms(2) by (auto simp: ended_lease_def lease_progress_def intro!: view_progress_upd)
  with assms(1) show ?thesis
    by (auto simp: end_outcome_def split: option.splits if_splits)
qed

locale lease_store =
  fixes S :: "('env, 's) Store"
    and env_ok :: "'env \<Rightarrow> bool"
    and inv :: "'s \<Rightarrow> bool"
    and view :: "'s \<Rightarrow> string \<Rightarrow> lease option"
  assumes claim_inv: "inv s \<Longrightarrow> st_ClaimNext S env w ttl s = (res, s') \<Longrightarrow> inv s'"
    and publish_inv: "inv s \<Longrightarrow> st_MarkPublished S env w eid s = (err, s') \<Longrightarrow> inv s'"
    and retry_inv: "inv s \<Longrightarrow> st_ScheduleRetry S env w eid delay oc s = (err, s') \<Longrightarrow> inv s'"
    and dead_inv: "inv s \<Longrightarrow> st_MarkDeadLetter S env w eid oc s = (err, s') \<Longrightarrow> inv s'"
    and claim_some: "inv s \<Longrightarrow> env_ok env \<Longrightarrow> st_ClaimNext S env w ttl s = (Inr (Some ev), s') \<Longrightarrow>
      took_lease w (ev_ID ev) (view s) (view s') \<and> view s' (ev_ID ev) = Some (Leased w (ev_FailedAttempts ev))"
    and claim_none: "inv s \<Longrightarrow> env_ok env \<Longrightarrow> st_ClaimNext S env w ttl s = (Inr None, s') \<Longrightarrow> s' = s"
    and claim_err: "inv s \<Longrightarrow> env_ok env \<Longrightarrow> st_ClaimNext S env w ttl s = (Inl e, s') \<Longrightarrow>
      view s' = view s \<or> (\<exists>eid. took_lease w eid (view s) (view s'))"
    and publish_outcome: "inv s \<Longrightarrow> env_ok env \<Longrightarrow> st_MarkPublished S env w eid s = (err, s') \<Longrightarrow>
      end_outcome Delivered w eid (view s) err (view s')"
    and retry_outcome: "inv s \<Longrightarrow> env_ok env \<Longrightarrow> st_ScheduleRetry S env w eid delay oc s = (err, s') \<Longrightarrow>
      end_outcome (\<lambda>f. Waiting (f + 1)) w eid (view s) err (view s')"
    and dead_outcome: "inv s \<Longrightarrow> env_ok env \<Longrightarrow> st_MarkDeadLetter S env w eid oc s = (err, s') \<Longrightarrow>
      end_outcome (\<lambda>f. Dead (f + 1)) w eid (view s) err (view s')"
begin

text \<open>Every operation only moves events forward.\<close>

lemma claim_progress:
  assumes "inv s" "env_ok env" "st_ClaimNext S env w ttl s = (res, s')"
  shows "view_progress (view s) (view s')"
proof (cases res)
  case (Inl e)
  with claim_err[OF assms(1,2), of w ttl e s'] assms(3) show ?thesis by (auto dest: took_lease_progress)
next
  case (Inr r)
  with claim_some[OF assms(1,2), of w ttl _ s'] claim_none[OF assms(1,2), of w ttl s'] assms(3)
  show ?thesis by (cases r) (auto dest: took_lease_progress)
qed

lemma end_progress:
  assumes "inv s" "env_ok env"
  shows "st_MarkPublished S env w eid s = (err, s') \<Longrightarrow> view_progress (view s) (view s')"
    and "st_ScheduleRetry S env w eid delay oc s = (err, s') \<Longrightarrow> view_progress (view s) (view s')"
    and "st_MarkDeadLetter S env w eid oc s = (err, s') \<Longrightarrow> view_progress (view s) (view s')"
  by (auto dest!: publish_outcome[OF assms] retry_outcome[OF assms] dead_outcome[OF assms]
      dest: end_outcome_progress)

end

section \<open>PostgreSQL as a store\<close>

text \<open>A failure of the driver is neither the absence of a row nor one of the store's own errors.\<close>

definition store_env_ok :: "store_env \<Rightarrow> bool" where
  "store_env_ok env = (case se_fault env of None \<Rightarrow> True | Some e \<Rightarrow> \<not> errors_is e ErrNoRows)"

lemma ctx_sentinel_not_lost [simp]: "ErrLeaseLost \<noteq> ctx_sentinel x" "ctx_sentinel x \<noteq> ErrLeaseLost"
  by (cases x; simp)+

lemma outbox_map_err_not_lost [simp]: "\<not> errors_is (outbox_map_err env e) ErrLeaseLost"
  by (cases "se_parent env")
     (auto simp: outbox_map_err_def outbox_mapPostgresError_def outbox_queryContext_def
       with_timeout_cause_def ctx_err_def split: option.splits ctx_end.splits)

lemma pool_exec_cases:
  assumes "pool_exec env st d = (res, d')"
  obtains (ok) x where "res = Inr x" "st d = Inr (x, d')" "se_fault env = None"
    | (failed) e where "res = Inl e" "d' = d" "st d = Inl e \<or> se_fault env = Some e"
    | (landed) e x where "res = Inl e" "se_fault env = Some e" "st d = Inr (x, d')"
  using assms by (auto simp: pool_exec_def split: option.splits sum.splits if_splits)

lemma due_event_Some:
  assumes "due_event env d = Some r"
  shows "r \<in> set (outbox_events d)" "ob_owner r = None" "due (se_now env) r" "ob_id r \<notin> set (se_locked env)"
    and "\<And>x. x \<in> set (due_events env d) \<Longrightarrow> due_key r \<le> due_key x"
proof -
  from assms have ne: "due_events env d \<noteq> []" and r: "r = arg_min_list due_key (due_events env d)"
    by (auto simp: due_event_def split: list.splits)
  from ne have "r \<in> set (due_events env d)" unfolding r by (rule arg_min_list_in)
  then show "r \<in> set (outbox_events d)" "ob_owner r = None" "due (se_now env) r" "ob_id r \<notin> set (se_locked env)"
    by (auto simp: due_events_def)
  fix x
  assume "x \<in> set (due_events env d)"
  then have "Min (due_key ` set (due_events env d)) \<le> due_key x" by simp
  with ne show "due_key r \<le> due_key x" unfolding r by (simp add: f_arg_min_list_f)
qed

lemma sql_claim_Inr:
  assumes "sql_claim env w ttl d = Inr (ev, d')" "outbox_inv d"
  obtains r where "due_event env d = Some r" "d' = replace_row r (leased_row env w ttl r) d"
    "outbox_row_chk (leased_row env w ttl r)" "ev = event_of_row (leased_row env w ttl r)"
proof -
  from assms(1) obtain t r' rs where t: "due_event env d = Some t"
      and upd: "sql_update (\<lambda>r. ob_owner r = None \<and> ob_id r = ob_id t) (\<lambda>r. Inr (leased_row env w ttl r)) d = Inr (r' # rs, d')"
      and ev: "ev = event_of_row r'"
    by (auto simp: sql_claim_def split: option.splits sum.splits list.splits)
  from sql_update_one[OF upd assms(2), of "ob_id t"] obtain r where r: "r \<in> set (outbox_events d)" "ob_id r = ob_id t"
      "r' = leased_row env w ttl r" "outbox_row_chk r'" "d' = replace_row r r' d"
    by auto
  moreover from r(1,2) due_event_Some(1)[OF t] assms(2) have "r = t"
    by (auto simp: outbox_inv_def dest: distinct_map_eqD)
  ultimately show ?thesis using that t ev by blast
qed

lemma leased_row_simps [simp]:
  "ob_id (leased_row env w ttl r) = ob_id r" "ob_owner (leased_row env w ttl r) = ob_owner r"
  "ob_failed_attempts (leased_row env w ttl r) = ob_failed_attempts r"
  "lease_of_row (leased_row env w ttl r) = Leased w (ob_failed_attempts r)"
  by (simp_all add: leased_row_def lease_of_row_def)

lemma failures_lease_of_row [simp]: "failures (lease_of_row r) = ob_failed_attempts r"
  by (simp add: lease_of_row_def split: outbox_status.split)

lemma sql_claim_took:
  assumes "sql_claim env w ttl d = Inr (ev, d')" "outbox_inv d"
  shows "outbox_inv d'" "took_lease w (ev_ID ev) (lease_view d) (lease_view d')"
    "lease_view d' (ev_ID ev) = Some (Leased w (ev_FailedAttempts ev))"
proof -
  from assms obtain r where due: "due_event env d = Some r"
      and d': "d' = replace_row r (leased_row env w ttl r) d" and chk: "outbox_row_chk (leased_row env w ttl r)"
      and ev: "ev = event_of_row (leased_row env w ttl r)" by (rule sql_claim_Inr)
  note r = due_event_Some[OF due]
  show "outbox_inv d'" unfolding d' using assms(2) chk by (intro replace_row_inv) auto
  have view: "lease_view d' = (lease_view d)(ob_id r \<mapsto> Leased w (ob_failed_attempts r))"
    unfolding d' using replace_row_view[OF assms(2) r(1,2) _ _ chk] r(2) by simp
  have "lease_view d (ob_id r) = Some (lease_of_row r)" using lease_view_at[OF assms(2) r(1,2)] .
  moreover have "lease_of_row r = Waiting (ob_failed_attempts r) \<or>
      (\<exists>w'. lease_of_row r = Leased w' (ob_failed_attempts r))"
    using r(3) by (auto simp: due_def lease_of_row_def)
  ultimately show "took_lease w (ev_ID ev) (lease_view d) (lease_view d')"
      "lease_view d' (ev_ID ev) = Some (Leased w (ev_FailedAttempts ev))"
    using view by (auto simp: took_lease_def ev event_of_row_def)
qed


lemma ClaimNext_outcome:
  assumes "outbox_inv d" "ClaimNext env w ttl d = (res, d')"
  shows "outbox_inv d'"
    and "store_env_ok env \<Longrightarrow> res = Inr (Some ev) \<Longrightarrow> took_lease w (ev_ID ev) (lease_view d) (lease_view d') \<and>
      lease_view d' (ev_ID ev) = Some (Leased w (ev_FailedAttempts ev))"
    and "store_env_ok env \<Longrightarrow> res = Inr None \<Longrightarrow> d' = d"
    and "store_env_ok env \<Longrightarrow> res = Inl e \<Longrightarrow>
      lease_view d' = lease_view d \<or> (\<exists>eid. took_lease w eid (lease_view d) (lease_view d'))"
proof -
  have "outbox_inv d' \<and>
    (store_env_ok env \<longrightarrow> (case res of
       Inl e \<Rightarrow> lease_view d' = lease_view d \<or> (\<exists>eid. took_lease w eid (lease_view d) (lease_view d'))
     | Inr None \<Rightarrow> d' = d
     | Inr (Some ev) \<Rightarrow> took_lease w (ev_ID ev) (lease_view d) (lease_view d') \<and>
         lease_view d' (ev_ID ev) = Some (Leased w (ev_FailedAttempts ev))))"
  proof (cases "w = '''' \<or> ttl \<le> 0")
    case True
    with assms show ?thesis by (auto simp: ClaimNext_def split: if_splits)
  next
    case False
    obtain pr d1 where ex: "pool_exec env (sql_claim env w ttl) d = (pr, d1)" by fastforce
    from ex show ?thesis
    proof (cases rule: pool_exec_cases)
      case (ok ev)
      with False assms ex sql_claim_took[OF ok(2) assms(1)] show ?thesis by (auto simp: ClaimNext_def)
    next
      case (failed e)
      with False assms ex show ?thesis by (auto simp: ClaimNext_def split: if_splits)
    next
      case (landed e ev)
      with False assms ex sql_claim_took[OF landed(3) assms(1)] show ?thesis
        by (auto simp: ClaimNext_def store_env_ok_def split: if_splits)
    qed
  qed
  then show "outbox_inv d'"
    and "store_env_ok env \<Longrightarrow> res = Inr (Some ev) \<Longrightarrow> took_lease w (ev_ID ev) (lease_view d) (lease_view d') \<and>
      lease_view d' (ev_ID ev) = Some (Leased w (ev_FailedAttempts ev))"
    and "store_env_ok env \<Longrightarrow> res = Inr None \<Longrightarrow> d' = d"
    and "store_env_ok env \<Longrightarrow> res = Inl e \<Longrightarrow>
      lease_view d' = lease_view d \<or> (\<exists>eid. took_lease w eid (lease_view d) (lease_view d'))"
    by auto
qed

text \<open>The three transitions at once: an update of the fenced row that keeps its identity and puts it
  into the state \<open>final\<close>.\<close>

definition ends_as :: "(outbox_row \<Rightarrow> goerror + outbox_row) \<Rightarrow> (int \<Rightarrow> lease) \<Rightarrow> bool" where
  "ends_as upd final \<longleftrightarrow> (\<forall>r r'. upd r = Inr r' \<longrightarrow>
     ob_id r' = ob_id r \<and> ob_owner r' = ob_owner r \<and> lease_of_row r' = final (ob_failed_attempts r))"

definition fenced_update ::
  "go_string \<Rightarrow> string \<Rightarrow> (outbox_row \<Rightarrow> goerror + outbox_row) \<Rightarrow> db \<Rightarrow> goerror + (int \<times> db)" where
  "fenced_update w eid upd d = map_sum id (map_prod (int \<circ> length) id) (sql_update (fenced w eid) upd d)"

lemma no_fenced_view:
  assumes "outbox_inv d" "\<forall>r \<in> set (outbox_events d). \<not> fenced w eid r"
  shows "lease_view d eid \<noteq> Some (Leased w f)"
proof
  assume "lease_view d eid = Some (Leased w f)"
  then obtain r where r: "r \<in> set (outbox_events d)" "ob_owner r = None" "ob_id r = eid"
      "Leased w f = lease_of_row r" by (rule lease_view_SomeD)
  moreover have "outbox_row_chk r" using assms(1) r(1) by (simp add: outbox_inv_def)
  ultimately have "fenced w eid r"
    by (auto simp: fenced_def lease_of_row_def outbox_row_chk_def processing_lock_chk_def
        split: outbox_status.splits option.splits)
  with assms(2) r(1) show False by blast
qed

lemma fenced_update_Inr:
  assumes "fenced_update w eid upd d = Inr (n, d')" "outbox_inv d" "ends_as upd final"
  shows "(n = 0 \<and> d' = d \<and> (\<nexists>f. lease_view d eid = Some (Leased w f))) \<or>
    (n = 1 \<and> outbox_inv d' \<and> ended_lease final w eid (lease_view d) (lease_view d'))"
proof -
  from assms(1) obtain rows where upd: "sql_update (fenced w eid) upd d = Inr (rows, d')" "n = int (length rows)"
    by (auto simp: fenced_update_def map_sum_def map_prod_def split: sum.splits prod.splits)
  have "(rows = [] \<and> d' = d \<and> (\<forall>r \<in> set (outbox_events d). \<not> fenced w eid r)) \<or>
    (\<exists>r r'. r \<in> set (outbox_events d) \<and> fenced w eid r \<and> upd r = Inr r' \<and> outbox_row_chk r' \<and>
       rows = [r'] \<and> d' = replace_row r r' d)"
    by (rule sql_update_one[OF upd(1) assms(2)]) (simp add: fenced_def)
  then show ?thesis
  proof (elim disjE exE conjE)
    assume "rows = []" "d' = d" "\<forall>r \<in> set (outbox_events d). \<not> fenced w eid r"
    with upd(2) no_fenced_view[OF assms(2)] show ?thesis by auto
  next
    fix r r'
    assume r: "r \<in> set (outbox_events d)" "fenced w eid r" "upd r = Inr r'" "outbox_row_chk r'" "rows = [r']"
      and d': "d' = replace_row r r' d"
    then have same: "ob_id r' = ob_id r" "ob_owner r' = ob_owner r" "lease_of_row r' = final (ob_failed_attempts r)"
      using assms(3) by (auto simp: ends_as_def)
    have "outbox_inv d'" unfolding d' by (rule replace_row_inv[OF assms(2) same(1) r(4)])
    moreover have "lease_view d' = (lease_view d)(eid \<mapsto> final (ob_failed_attempts r))"
      unfolding d' using replace_row_view[OF assms(2) r(1) _ same(1) _ r(4)] r(2) same by (simp add: fenced_def)
    moreover have "lease_view d eid = Some (Leased w (ob_failed_attempts r))"
      using lease_view_at[OF assms(2) r(1)] r(2) by (auto simp: fenced_def lease_of_row_def)
    ultimately show ?thesis using upd(2) r(5) by (auto simp: ended_lease_def)
  qed
qed

lemma transition_outcome:
  assumes "outbox_inv d" "ends_as upd final"
    "transition_result env msg (pool_exec env (fenced_update w eid upd) d) = (err, d')"
  shows "outbox_inv d'" "end_outcome final w eid (lease_view d) err (lease_view d')"
proof -
  obtain pr d1 where ex: "pool_exec env (fenced_update w eid upd) d = (pr, d1)" by fastforce
  then have "outbox_inv d' \<and> end_outcome final w eid (lease_view d) err (lease_view d')"
  proof (cases rule: pool_exec_cases)
    case (ok n)
    with assms(3) ex fenced_update_Inr[OF ok(2) assms(1,2)] assms(1) show ?thesis
      by (auto simp: transition_result_def end_outcome_def)
  next
    case (failed e)
    with assms(1,3) ex show ?thesis by (auto simp: transition_result_def end_outcome_def)
  next
    case (landed e n)
    with assms(3) ex fenced_update_Inr[OF landed(3) assms(1,2)] assms(1) show ?thesis
      by (auto simp: transition_result_def end_outcome_def)
  qed
  then show "outbox_inv d'" "end_outcome final w eid (lease_view d) err (lease_view d')" by auto
qed

lemma ends_as_rows:
  "ends_as (\<lambda>r. Inr (published_row env r)) Delivered"
  "ends_as (int4_guard (retry_row env delay reason)) (\<lambda>f. Waiting (f + 1))"
  "ends_as (int4_guard (dead_letter_row env reason)) (\<lambda>f. Dead (f + 1))"
  by (auto simp: ends_as_def published_row_def retry_row_def dead_letter_row_def int4_guard_def
      lease_of_row_def split: if_splits)

lemma sql_transitions_fenced:
  "sql_mark_published env w eid = fenced_update w eid (\<lambda>r. Inr (published_row env r))"
  "sql_schedule_retry env w eid delay reason = fenced_update w eid (int4_guard (retry_row env delay reason))"
  "sql_mark_dead_letter env w eid reason = fenced_update w eid (int4_guard (dead_letter_row env reason))"
  by (auto simp: fun_eq_iff sql_mark_published_def sql_schedule_retry_def sql_mark_dead_letter_def
      fenced_update_def)

lemma end_outcome_unchanged: "\<not> errors_is e ErrLeaseLost \<Longrightarrow> end_outcome final w eid v (Some e) v"
  by (simp add: end_outcome_def)

lemmas transition_defs = MarkPublished_def ScheduleRetry_def MarkDeadLetter_def sql_transitions_fenced

lemma transitions_outcome:
  assumes "outbox_inv d"
  shows "MarkPublished env w eid d = (err, d') \<Longrightarrow>
      outbox_inv d' \<and> end_outcome Delivered w eid (lease_view d) err (lease_view d')"
    and "ScheduleRetry env w eid delay oc d = (err, d') \<Longrightarrow>
      outbox_inv d' \<and> end_outcome (\<lambda>f. Waiting (f + 1)) w eid (lease_view d) err (lease_view d')"
    and "MarkDeadLetter env w eid oc d = (err, d') \<Longrightarrow>
      outbox_inv d' \<and> end_outcome (\<lambda>f. Dead (f + 1)) w eid (lease_view d) err (lease_view d')"
  using assms transition_outcome[OF assms ends_as_rows(1)] transition_outcome[OF assms ends_as_rows(2)]
    transition_outcome[OF assms ends_as_rows(3)]
  by (auto simp: transition_defs end_outcome_unchanged split: if_splits)

interpretation pg: lease_store postgresStore store_env_ok outbox_inv lease_view
  by unfold_locales
     (auto simp: postgresStore_def dest: ClaimNext_outcome transitions_outcome)

section \<open>Properties\<close>

lemma leased_row_chk:
  assumes "outbox_row_chk r" "due (se_now env) r" "text_between 1 128 w" "ob_created_at r \<le> se_now env"
  shows "outbox_row_chk (leased_row env w ttl r)"
  using assms
  by (auto simp: outbox_row_chk_def leased_row_def failure_state_chk_def processing_lock_chk_def due_def)

lemma sql_update_id:
  assumes "outbox_inv d" "r \<in> set (outbox_events d)" "ob_owner r = None" "outbox_row_chk (f r)"
  shows "sql_update (\<lambda>x. ob_owner x = None \<and> ob_id x = ob_id r) (\<lambda>x. Inr (f x)) d = Inr ([f r], replace_row r (f r) d)"
proof -
  have only: "(ob_owner x = None \<and> ob_id x = ob_id r) \<longleftrightarrow> x = r" if "x \<in> set (outbox_events d)" for x
    using that assms by (auto simp: outbox_inv_def dest: distinct_map_eqD)
  have dist: "distinct (outbox_events d)" using assms(1) by (auto simp: outbox_inv_def distinct_map)
  have "filter (\<lambda>x. ob_owner x = None \<and> ob_id x = ob_id r) (outbox_events d) = filter (\<lambda>x. x = r) (outbox_events d)"
    using only by (intro filter_cong) auto
  also have "\<dots> = [r]"
    using dist assms(2) filter_key_le_one[of id "outbox_events d" r "\<lambda>_. True"]
    by (cases "filter (\<lambda>x. x = r) (outbox_events d)") (auto simp: filter_empty_conv dest: filter_eq_ConsD)
  finally have m: "filter (\<lambda>x. ob_owner x = None \<and> ob_id x = ob_id r) (outbox_events d) = [r]" .
  have "map (\<lambda>x. if ob_owner x = None \<and> ob_id x = ob_id r then projr ((checked_row \<circ> (\<lambda>x. Inr (f x))) x) else x) (outbox_events d)
      = map (\<lambda>x. if x = r then f r else x) (outbox_events d)"
    using only assms(4) by (intro map_cong) (auto simp: checked_row_def)
  with m assms(4) show ?thesis
    by (simp add: sql_update_def Let_def checked_row_def replace_row_def)
qed

text \<open>C11. When some committed event is due and no concurrent statement holds it, a claim that reaches
  the server finds one: the first by availability time and then identifier. It is returned with its
  payload and its recorded failures, and its row becomes leased to the worker until the lease time
  has passed.\<close>

theorem ClaimNext_available:
  assumes "outbox_inv d" "x \<in> set (due_events env d)" "se_fault env = None" "0 < ttl"
    "text_between 1 128 w" "\<forall>r \<in> set (outbox_events d). ob_created_at r \<le> se_now env"
  shows "\<exists>r \<in> set (due_events env d). (\<forall>y \<in> set (due_events env d). due_key r \<le> due_key y) \<and>
    ClaimNext env w ttl d = (Inr (Some (event_of_row r)), replace_row r (leased_row env w ttl r) d)"
proof -
  from assms(2) obtain r where r: "due_event env d = Some r"
    by (cases "due_events env d") (auto simp: due_event_def)
  note R = due_event_Some[OF r]
  have "r \<in> set (due_events env d)" using R(1-4) by (simp add: due_events_def)
  moreover have "outbox_row_chk (leased_row env w ttl r)"
    using R(1,3) assms by (intro leased_row_chk) (auto simp: outbox_inv_def)
  then have "sql_claim env w ttl d = Inr (event_of_row (leased_row env w ttl r), replace_row r (leased_row env w ttl r) d)"
    by (simp add: sql_claim_def r sql_update_id[OF assms(1) R(1,2)])
  then have "ClaimNext env w ttl d = (Inr (Some (event_of_row r)), replace_row r (leased_row env w ttl r) d)"
    using assms(3,4,5)
    by (auto simp: ClaimNext_def pool_exec_def event_of_row_def leased_row_def text_between_def rune_count_def)
  ultimately show ?thesis using R(5) by blast
qed

definition sample_env :: "timestamp \<Rightarrow> store_env" where
  "sample_env now = \<lparr>se_now = now, se_locked = [], se_fault = None, se_landed = False, se_parent = Live,
     se_expired = False, se_interval = (\<lambda>ns. ns div 1000), se_pgconn_timeout = (\<lambda>_. False)\<rparr>"

definition sample_row :: "string \<Rightarrow> timestamp \<Rightarrow> outbox_row" where
  "sample_row eid available = \<lparr>ob_id = eid, ob_aggregate_type = ''reward_claim'', ob_aggregate_id = ''c1'',
     ob_event_type = ''RewardClaimed'', ob_payload = ''{}'', ob_status = Pending, ob_failed_attempts = 0,
     ob_available_at = available, ob_last_failure_reason = None, ob_locked_by = None,
     ob_locked_until = None, ob_created_at = 0, ob_updated_at = 0, ob_published_at = None,
     ob_dead_lettered_at = None, ob_owner = None\<rparr>"

definition sample_outbox :: db where
  "sample_outbox = empty_db\<lparr>outbox_events := [sample_row ''e1'' 7, sample_row ''e2'' 5]\<rparr>"

lemma sample_row_chk: "outbox_row_chk (sample_row eid t)"
  by (simp add: sample_row_def row_chk_defs payload_object_chk_def text_between_def rune_count_ascii)

lemma sample_outbox_inv: "outbox_inv sample_outbox"
  by (simp add: outbox_inv_def sample_outbox_def sample_row_chk) (simp add: sample_row_def)

theorem ClaimNext_available_witness:
  "\<exists>r \<in> set (due_events (sample_env 10) sample_outbox).
     (\<forall>y \<in> set (due_events (sample_env 10) sample_outbox). due_key r \<le> due_key y) \<and>
     ClaimNext (sample_env 10) ''w1'' 1000000 sample_outbox =
       (Inr (Some (event_of_row r)), replace_row r (leased_row (sample_env 10) ''w1'' 1000000 r) sample_outbox)"
  by (rule ClaimNext_available[OF sample_outbox_inv, where x = "sample_row ''e1'' 7"])
     (simp_all add: due_events_def due_def sample_outbox_def sample_row_def sample_env_def
       text_between_def rune_count_ascii)

text \<open>C12. A lease excludes other workers until it expires: while the lease of an event has not run out,
  no claim, by whatever worker, with whatever failure of the network, touches that event.\<close>

theorem ClaimNext_respects_lease:
  assumes "outbox_inv d" "r \<in> set (outbox_events d)" "ob_status r = Processing"
    "ob_locked_until r = Some t" "se_now env < t"
  shows "r \<in> set (outbox_events (snd (ClaimNext env w ttl d)))"
proof -
  have keep: "r \<in> set (outbox_events d')" if cl: "sql_claim env w ttl d = Inr (ev, d')" for ev d'
  proof -
    from cl assms(1) obtain x where "due_event env d = Some x" and d': "d' = replace_row x (leased_row env w ttl x) d"
      by (rule sql_claim_Inr)
    then have "x \<noteq> r" using assms(3-5) due_event_Some(3)[of env d x] by (auto simp: due_def)
    with assms(2) show ?thesis by (force simp: d' replace_row_def)
  qed
  obtain pr d1 where ex: "pool_exec env (sql_claim env w ttl) d = (pr, d1)" by fastforce
  then have "r \<in> set (outbox_events d1)"
    by (cases rule: pool_exec_cases) (auto simp: assms(2) dest: keep)
  with assms(2) ex show ?thesis by (auto simp: ClaimNext_def split: sum.splits)
qed

definition sample_leased :: db where
  "sample_leased = empty_db\<lparr>outbox_events := [leased_row (sample_env 10) ''w1'' 1000000 (sample_row ''e1'' 7)]\<rparr>"

lemma sample_leased_inv: "outbox_inv sample_leased"
  using leased_row_chk[OF sample_row_chk, of "sample_env 10" "''e1''" 7 "''w1''" 1000000]
  by (simp add: outbox_inv_def sample_leased_def due_def sample_row_def sample_env_def text_between_def
      rune_count_ascii)

theorem ClaimNext_respects_lease_witness:
  "leased_row (sample_env 10) ''w1'' 1000000 (sample_row ''e1'' 7) \<in>
     set (outbox_events (snd (ClaimNext (sample_env 500) ''w2'' 1000000 sample_leased)))"
  by (rule ClaimNext_respects_lease[OF sample_leased_inv, where t = 1010])
     (simp_all add: sample_leased_def leased_row_def sample_env_def)

text \<open>What ending a lease does to the table, row by row: the row that is leased to the worker is replaced by
  a new one, and all other rows stay as they are.\<close>

definition leased_to :: "go_string \<Rightarrow> string \<Rightarrow> outbox_row \<Rightarrow> bool" where
  "leased_to w eid r \<longleftrightarrow>
     ob_owner r = None \<and> ob_id r = eid \<and> ob_status r = Processing \<and> ob_locked_by r = Some w"

definition lease_ends :: "go_string \<Rightarrow> string \<Rightarrow> (outbox_row \<Rightarrow> outbox_row) \<Rightarrow> db \<Rightarrow> db \<Rightarrow> bool" where
  "lease_ends w eid new d d' \<longleftrightarrow>
     (if \<exists>r \<in> set (outbox_events d). leased_to w eid r
      then \<exists>r \<in> set (outbox_events d). leased_to w eid r \<and> d' = replace_row r (new r) d
      else d' = d)"

definition fenced_result ::
  "store_env \<Rightarrow> go_string \<Rightarrow> string \<Rightarrow> (outbox_row \<Rightarrow> outbox_row) \<Rightarrow> db \<Rightarrow> goerror option \<times> db \<Rightarrow> bool" where
  "fenced_result env w eid new d res \<longleftrightarrow>
     (case se_fault env of
        None \<Rightarrow> lease_ends w eid new d (snd res) \<and>
          (if \<exists>r \<in> set (outbox_events d). leased_to w eid r then fst res = None
           else \<exists>e. fst res = Some e \<and> errors_is e ErrLeaseLost)
      | Some f \<Rightarrow> (if se_landed env then lease_ends w eid new d (snd res) else snd res = d) \<and>
          (\<exists>e. fst res = Some e \<and> \<not> errors_is e ErrLeaseLost))"

lemma leased_to_fenced: "leased_to w eid = fenced w eid"
  by (simp add: fun_eq_iff leased_to_def fenced_def)

lemma fenced_update_exact:
  assumes "outbox_inv d" "\<forall>r \<in> set (outbox_events d). fenced w eid r \<longrightarrow> upd r = Inr (new r) \<and> outbox_row_chk (new r)"
  shows "\<exists>n d'. fenced_update w eid upd d = Inr (n, d') \<and> lease_ends w eid new d d' \<and>
    n = (if \<exists>r \<in> set (outbox_events d). leased_to w eid r then 1 else 0)"
proof -
  have "List.find isl (map (checked_row \<circ> upd) (filter (fenced w eid) (outbox_events d))) = None"
    using assms(2) by (auto simp: find_None_conv checked_row_def)
  then obtain rows d' where upd: "sql_update (fenced w eid) upd d = Inr (rows, d')"
    by (simp add: sql_update_def Let_def)
  from sql_update_one[OF upd assms(1), of eid] assms(2) have
    "(rows = [] \<and> d' = d \<and> (\<forall>r \<in> set (outbox_events d). \<not> fenced w eid r)) \<or>
     (\<exists>r. r \<in> set (outbox_events d) \<and> fenced w eid r \<and> rows = [new r] \<and> d' = replace_row r (new r) d)"
    by (fastforce simp: fenced_def)
  with upd show ?thesis
    by (auto simp: fenced_update_def lease_ends_def leased_to_fenced)
qed

lemma fenced_transition:
  assumes "outbox_inv d" "\<forall>r \<in> set (outbox_events d). fenced w eid r \<longrightarrow> upd r = Inr (new r) \<and> outbox_row_chk (new r)"
  shows "fenced_result env w eid new d (transition_result env msg (pool_exec env (fenced_update w eid upd) d))"
proof -
  obtain n d' where "fenced_update w eid upd d = Inr (n, d')" "lease_ends w eid new d d'"
    "n = (if \<exists>r \<in> set (outbox_events d). leased_to w eid r then 1 else 0)"
    using fenced_update_exact[OF assms] by blast
  then show ?thesis
    by (auto simp: fenced_result_def transition_result_def pool_exec_def split: option.split)
qed

lemma ended_rows_chk:
  assumes "outbox_row_chk r" "fenced w eid r" "ob_created_at r \<le> se_now env"
  shows "outbox_row_chk (published_row env r)"
    and "ob_failed_attempts r + 1 < 2 ^ 31 \<Longrightarrow> reason \<in> failure_reasons \<Longrightarrow> outbox_row_chk (retry_row env delay reason r)"
    and "ob_failed_attempts r + 1 < 2 ^ 31 \<Longrightarrow> reason \<in> failure_reasons \<Longrightarrow> outbox_row_chk (dead_letter_row env reason r)"
  using assms
  by (auto simp: row_chk_defs fenced_def published_row_def retry_row_def dead_letter_row_def split: option.splits)

lemma outcome_reason: "oc \<noteq> PublishOutcomeSuccess \<Longrightarrow> outcome_string oc \<in> failure_reasons"
  by (cases oc) (simp_all add: failure_reasons_def)

text \<open>C10. Fencing: a worker ends a lease exactly while the row is leased to it. A call that reaches the server succeeds
  when the event is leased to the caller, and then replaces its row, and no other, by the published one, the one that waits
  for a retry with one more failure, or the dead letter; otherwise it returns \<open>ErrLeaseLost\<close> and the table is unchanged.
  When the connection fails, the caller gets another error, and the statement has done the same or has not been executed. The
  hypotheses: the arguments are valid, no row is from the future, and no counter of failures is at the end of its type.\<close>

theorem transitions_fenced:
  assumes "outbox_inv d" "w \<noteq> ''''" "eid \<noteq> ''''" "0 < delay" "oc \<noteq> PublishOutcomeSuccess"
    "\<And>r. r \<in> set (outbox_events d) \<Longrightarrow> ob_created_at r \<le> se_now env \<and> ob_failed_attempts r + 1 < 2 ^ 31"
  shows "fenced_result env w eid (\<lambda>r. r\<lparr>ob_status := Published, ob_published_at := Some (se_now env), ob_locked_by := None,
         ob_locked_until := None, ob_updated_at := se_now env\<rparr>) d (MarkPublished env w eid d) \<and>
       fenced_result env w eid (\<lambda>r. r\<lparr>ob_status := Pending, ob_failed_attempts := ob_failed_attempts r + 1,
         ob_available_at := se_now env + se_interval env delay, ob_locked_by := None, ob_locked_until := None,
         ob_last_failure_reason := Some (outcome_string oc), ob_updated_at := se_now env\<rparr>) d (ScheduleRetry env w eid delay oc d) \<and>
       fenced_result env w eid (\<lambda>r. r\<lparr>ob_status := DeadLetter, ob_failed_attempts := ob_failed_attempts r + 1,
         ob_dead_lettered_at := Some (se_now env), ob_locked_by := None, ob_locked_until := None,
         ob_last_failure_reason := Some (outcome_string oc), ob_updated_at := se_now env\<rparr>) d (MarkDeadLetter env w eid oc d)"
proof -
  have chk: "outbox_row_chk (published_row env r)" "outbox_row_chk (retry_row env delay (outcome_string oc) r)"
      "outbox_row_chk (dead_letter_row env (outcome_string oc) r)" "ob_failed_attempts r + 1 < 2 ^ 31"
    if "r \<in> set (outbox_events d)" "fenced w eid r" for r
    using ended_rows_chk[OF _ that(2)] that(1) assms(1,6) outcome_reason[OF assms(5)] by (auto simp: outbox_inv_def)
  have retry: "\<forall>r \<in> set (outbox_events d). fenced w eid r \<longrightarrow> int4_guard (retry_row env delay (outcome_string oc)) r =
      Inr (retry_row env delay (outcome_string oc) r) \<and> outbox_row_chk (retry_row env delay (outcome_string oc) r)"
    using chk by (force simp: int4_guard_def)
  have dead: "\<forall>r \<in> set (outbox_events d). fenced w eid r \<longrightarrow> int4_guard (dead_letter_row env (outcome_string oc)) r =
      Inr (dead_letter_row env (outcome_string oc) r) \<and> outbox_row_chk (dead_letter_row env (outcome_string oc) r)"
    using chk by (force simp: int4_guard_def)
  have "fenced_result env w eid (published_row env) d (MarkPublished env w eid d)"
    using assms(2,3) fenced_transition[OF assms(1), of w eid "\<lambda>r. Inr (published_row env r)" "published_row env"] chk(1)
    by (simp add: transition_defs)
  moreover have "fenced_result env w eid (retry_row env delay (outcome_string oc)) d (ScheduleRetry env w eid delay oc d)"
    using assms(2-4) fenced_transition[OF assms(1) retry] by (simp add: transition_defs)
  moreover have "fenced_result env w eid (dead_letter_row env (outcome_string oc)) d (MarkDeadLetter env w eid oc d)"
    using assms(2,3) fenced_transition[OF assms(1) dead] by (simp add: transition_defs)
  ultimately show ?thesis
    unfolding published_row_def[abs_def] retry_row_def[abs_def] dead_letter_row_def[abs_def] by blast
qed

theorem transitions_fenced_witness:
  "\<exists>e. fst (MarkPublished (sample_env 20) ''w2'' ''e1'' sample_leased) = Some e \<and> errors_is e ErrLeaseLost \<and>
     snd (MarkPublished (sample_env 20) ''w2'' ''e1'' sample_leased) = sample_leased"
proof -
  have "\<not> leased_to ''w2'' ''e1'' r" if "r \<in> set (outbox_events sample_leased)" for r
    using that by (auto simp: sample_leased_def leased_row_def leased_to_def)
  with transitions_fenced[OF sample_leased_inv, of "''w2''" "''e1''" 1 PublishOutcomeFailed "sample_env 20"] show ?thesis
    by (auto simp: fenced_result_def lease_ends_def sample_leased_def leased_row_def sample_row_def sample_env_def)
qed

end
