(* ===== verification/Go_Numbers.thy ===== *)
theory Go_Numbers
  imports Go_Json Go_Errors
begin

text \<open>
  Reading numbers: the parts of Go's \<^verbatim>\<open>strconv\<close>, \<^verbatim>\<open>time\<close> and \<^verbatim>\<open>strings\<close> packages that the
  configuration uses.
  \<^item> \<open>atoi\<close> is \<^verbatim>\<open>strconv.Atoi\<close> on a platform with 64-bit \<^verbatim>\<open>int\<close>.
  \<^item> \<open>parse_duration\<close> is \<^verbatim>\<open>time.ParseDuration\<close>: the running total is an unsigned 64-bit number,
    and the fraction of a component goes through IEEE double precision (\<open>float_round\<close> rounds
    a positive rational to nearest, ties to even).
  \<^item> \<open>lower_view\<close> is \<^verbatim>\<open>strings.ToLower\<close> as a comparison with an ASCII word sees it.
  Decimal numbers that \<open>show_pos\<close> prints are read back.
\<close>

definition wrap64 :: "int \<Rightarrow> int" where
  "wrap64 x = (x + 2 ^ 63) mod 2 ^ 64 - 2 ^ 63"

definition int64 :: "int \<Rightarrow> bool" where
  "int64 x \<longleftrightarrow> - (2 ^ 63) \<le> x \<and> x < 2 ^ 63"

lemma wrap64_id [simp]: "int64 x \<Longrightarrow> wrap64 x = x"
  by (simp add: int64_def wrap64_def)

definition digit_value :: "char \<Rightarrow> int" where
  "digit_value c = byte_of c - 48"

section \<open>Integers\<close>

text \<open>\<^verbatim>\<open>strconv.ParseUint(s, 10, 64)\<close>: a character that is no digit is a syntax error, a number of
  more than 64 bits a range error.\<close>

fun parse_uint :: "int \<Rightarrow> go_string \<Rightarrow> goerror + int" where
  "parse_uint n [] = Inr n"
| "parse_uint n (c # s) =
     (if \<not> is_digit c then Inl (Plain ''invalid syntax'')
      else if n * 10 + digit_value c \<ge> 2 ^ 64 then Inl (Plain ''value out of range'')
      else parse_uint (n * 10 + digit_value c) s)"

definition atoi :: "go_string \<Rightarrow> goerror + int" where
  "atoi s =
     (let signed = s \<noteq> [] \<and> (hd s = CHR ''-'' \<or> hd s = CHR ''+'');
          neg = signed \<and> hd s = CHR ''-'';
          digits = (if signed then tl s else s)
      in if digits = [] then Inl (Plain ''invalid syntax'')
         else (case parse_uint 0 digits of
             Inl e \<Rightarrow> Inl e
           | Inr n \<Rightarrow>
               if \<not> neg \<and> n \<ge> 2 ^ 63 then Inl (Plain ''value out of range'')
               else if neg \<and> n > 2 ^ 63 then Inl (Plain ''value out of range'')
               else Inr (if neg then - n else n)))"

section \<open>Double precision\<close>

text \<open>The double nearest to \<open>n / d\<close> for positive \<open>n\<close> and \<open>d\<close>, as a mantissa of at most 53
  bits and a binary exponent. The values of this development are far from the ends of the
  exponent range.\<close>

function bit_length :: "int \<Rightarrow> int" where
  "bit_length n = (if n \<le> 0 then 0 else 1 + bit_length (n div 2))"
  by pat_completeness auto
termination
  by (relation "measure nat") auto

declare bit_length.simps [simp del]

definition div_pow2 :: "int \<Rightarrow> int \<Rightarrow> int \<Rightarrow> int \<times> int" where
  "div_pow2 n d e = (if 0 \<le> e then (n, d * 2 ^ nat e) else (n * 2 ^ nat (- e), d))"

definition round_half_even :: "int \<Rightarrow> int \<Rightarrow> int" where
  "round_half_even n d =
     (let q = n div d; r = n mod d
      in if 2 * r < d then q
         else if 2 * r > d then q + 1
         else if even q then q else q + 1)"

definition float_round :: "int \<Rightarrow> int \<Rightarrow> int \<times> int" where
  "float_round n d =
     (let e0 = bit_length n - bit_length d - 53;
          (a0, b0) = div_pow2 n d e0;
          e = (if a0 \<ge> b0 * 2 ^ 53 then e0 + 1 else e0);
          (a, b) = div_pow2 n d e
      in (round_half_even a b, e))"

definition float_mult :: "int \<times> int \<Rightarrow> int \<times> int \<Rightarrow> int \<times> int" where
  "float_mult x y =
     (let (m, e) = float_round (fst x * fst y) 1 in (m, e + snd x + snd y))"

text \<open>\<^verbatim>\<open>uint64(x)\<close> for a double in range: the fraction is dropped.\<close>

definition float_trunc :: "int \<times> int \<Rightarrow> int" where
  "float_trunc x = (if 0 \<le> snd x then fst x * 2 ^ nat (snd x) else fst x div 2 ^ nat (- snd x))"

section \<open>Durations\<close>

text \<open>\<^verbatim>\<open>leadingInt\<close>: \<open>None\<close> when the number does not fit.\<close>

fun leading_int :: "int \<Rightarrow> go_string \<Rightarrow> (int \<times> go_string) option" where
  "leading_int x [] = Some (x, [])"
| "leading_int x (c # s) =
     (if \<not> is_digit c then Some (x, c # s)
      else if x > 2 ^ 63 div 10 then None
      else if x * 10 + digit_value c > 2 ^ 63 then None
      else leading_int (x * 10 + digit_value c) s)"

text \<open>\<^verbatim>\<open>leadingFraction\<close>: the digits that fit, and the power of ten they are to be divided by.\<close>

fun leading_fraction :: "int \<Rightarrow> nat \<Rightarrow> bool \<Rightarrow> go_string \<Rightarrow> int \<times> nat \<times> go_string" where
  "leading_fraction x k overflow [] = (x, k, [])"
| "leading_fraction x k overflow (c # s) =
     (if \<not> is_digit c then (x, k, c # s)
      else if overflow then leading_fraction x k True s
      else if x > (2 ^ 63 - 1) div 10 then leading_fraction x k True s
      else if x * 10 + digit_value c > 2 ^ 63 then leading_fraction x k True s
      else leading_fraction (x * 10 + digit_value c) (Suc k) False s)"

text \<open>\<^verbatim>\<open>unitMap\<close>, with both ways to write a micro sign in UTF-8.\<close>

definition unit_map :: "go_string \<Rightarrow> int option" where
  "unit_map u = map_of
     [(''ns'', 1), (''us'', 1000), ([CHR 0xC2, CHR 0xB5, CHR ''s''], 1000),
      ([CHR 0xCE, CHR 0xBC, CHR ''s''], 1000), (''ms'', 1000000), (''s'', 1000000000),
      (''m'', 60000000000), (''h'', 3600000000000)] u"

definition is_unit_char :: "char \<Rightarrow> bool" where
  "is_unit_char c \<longleftrightarrow> c \<noteq> CHR ''.'' \<and> \<not> is_digit c"

definition invalid_duration :: goerror where
  "invalid_duration = Plain ''time: invalid duration''"

definition add_fraction :: "int \<Rightarrow> int \<Rightarrow> nat \<Rightarrow> int \<Rightarrow> int" where
  "add_fraction v f k u =
     (if 0 < f
      then (v + float_trunc (float_mult (float_round f 1) (float_round u (10 ^ k)))) mod 2 ^ 64
      else v)"

text \<open>One turn of the loop: the value of the next component, and the rest.\<close>

definition duration_component :: "go_string \<Rightarrow> goerror + int \<times> go_string" where
  "duration_component s =
     (if \<not> (hd s = CHR ''.'' \<or> is_digit (hd s)) then Inl invalid_duration
      else (case leading_int 0 s of
          None \<Rightarrow> Inl invalid_duration
        | Some (v, s1) \<Rightarrow>
            (let pre = length s \<noteq> length s1;
                 dot = s1 \<noteq> [] \<and> hd s1 = CHR ''.'';
                 (f, k, s2) = (if dot then leading_fraction 0 0 False (tl s1) else (0, 0, s1));
                 post = dot \<and> length (tl s1) \<noteq> length s2;
                 u = takeWhile is_unit_char s2;
                 s3 = dropWhile is_unit_char s2
             in if \<not> pre \<and> \<not> post then Inl invalid_duration
                else if u = [] then Inl (Plain ''time: missing unit in duration'')
                else (case unit_map u of
                    None \<Rightarrow> Inl (Plain ''time: unknown unit in duration'')
                  | Some un \<Rightarrow>
                      if v > 2 ^ 63 div un then Inl invalid_duration
                      else (let v' = add_fraction (v * un) f k un
                            in if v' > 2 ^ 63 then Inl invalid_duration else Inr (v', s3))))))"

lemma leading_int_length: "leading_int x s = Some (v, r) \<Longrightarrow> length r \<le> length s"
  by (induction x s rule: leading_int.induct) (auto split: if_splits)

lemma leading_fraction_length: "leading_fraction x k ov s = (f, k', r) \<Longrightarrow> length r \<le> length s"
  by (induction x k ov s rule: leading_fraction.induct) (auto split: if_splits)

lemma dropWhile_shorter: "takeWhile P s \<noteq> [] \<Longrightarrow> length (dropWhile P s) < length s"
  by (metis append_Nil length_append length_greater_0_conv less_add_same_cancel2 takeWhile_dropWhile_id)

lemma duration_component_shorter:
  assumes "duration_component s = Inr (v, r)"
  shows "length r < length s"
proof -
  from assms obtain x s1 where s1: "leading_int 0 s = Some (x, s1)"
    by (auto simp: duration_component_def split: if_splits option.splits)
  define dot where "dot = (s1 \<noteq> [] \<and> hd s1 = CHR ''.'')"
  obtain f k s2 where s2: "(if dot then leading_fraction 0 0 False (tl s1) else (0, 0, s1)) = (f, k, s2)"
    by (metis prod_cases3)
  from assms s1 s2 have u: "takeWhile is_unit_char s2 \<noteq> []" and r: "r = dropWhile is_unit_char s2"
    by (auto simp: duration_component_def Let_def dot_def split: if_splits option.splits)
  have "length s2 \<le> length s1"
    using s2 leading_fraction_length[of 0 0 False "tl s1" f k s2] by (auto split: if_splits)
  with dropWhile_shorter[OF u] leading_int_length[OF s1] r show ?thesis by simp
qed

function duration_loop :: "int \<Rightarrow> go_string \<Rightarrow> goerror + int" where
  "duration_loop d s =
     (if s = [] then Inr d
      else (case duration_component s of
          Inl e \<Rightarrow> Inl e
        | Inr (v, r) \<Rightarrow>
            (let d' = (d + v) mod 2 ^ 64
             in if d' > 2 ^ 63 then Inl invalid_duration else duration_loop d' r)))"
  by pat_completeness auto
termination
  by (relation "measure (length \<circ> snd)") (auto dest: duration_component_shorter)

declare duration_loop.simps [simp del]

definition parse_duration :: "go_string \<Rightarrow> goerror + int" where
  "parse_duration orig =
     (let signed = orig \<noteq> [] \<and> (hd orig = CHR ''-'' \<or> hd orig = CHR ''+'');
          neg = signed \<and> hd orig = CHR ''-'';
          s = (if signed then tl orig else orig)
      in if s = ''0'' then Inr 0
         else if s = [] then Inl invalid_duration
         else (case duration_loop 0 s of
             Inl e \<Rightarrow> Inl e
           | Inr d \<Rightarrow>
               if neg then Inr (- d)
               else if d > 2 ^ 63 - 1 then Inl invalid_duration
               else Inr d))"

section \<open>Lower case\<close>

text \<open>\<^verbatim>\<open>strings.ToLower\<close> maps every rune to its lower case. Besides the Latin capitals only
  U+0130 and U+212A have an ASCII lower case; every other rune stays outside ASCII and is left
  as it is here, which no comparison with an ASCII word can tell.\<close>

definition lower_rune :: "rune \<Rightarrow> rune" where
  "lower_rune r =
     (if 65 \<le> r \<and> r \<le> 90 then r + 32
      else if r = 304 then 105
      else if r = 8490 then 107
      else r)"

definition lower_view :: "go_string \<Rightarrow> rune list" where
  "lower_view s = map lower_rune (runes s)"

section \<open>Facts\<close>

lemma digit_value_dec_digit [simp]: "digit_value (dec_digit n) = n mod 10"
proof -
  have "\<forall>k \<in> set [0..<10]. digit_value (''0123456789'' ! k) = int k" by code_simp
  moreover have "nat (n mod 10) \<in> set [0..<10]" by (simp add: nat_less_iff)
  ultimately have "digit_value (''0123456789'' ! nat (n mod 10)) = int (nat (n mod 10))" by blast
  then show ?thesis by (simp add: dec_digit_def)
qed

text \<open>Reading a printed number leaves the number and what follows it, in each of the two readers.\<close>

lemma leading_int_show_pos:
  "0 \<le> n \<Longrightarrow> n \<le> 2 ^ 63 \<Longrightarrow> leading_int 0 (show_pos n @ t) = leading_int n t"
proof (induction n arbitrary: t rule: show_pos.induct)
  case (1 n)
  show ?case
  proof (cases "n < 10")
    case True
    with "1.prems" show ?thesis by (subst show_pos.simps) simp
  next
    case False
    have split: "n div 10 * 10 + n mod 10 = n" by simp
    have "leading_int 0 (show_pos n @ t) = leading_int 0 (show_pos (n div 10) @ dec_digit n # t)"
      using False by (subst show_pos.simps) simp
    also have "\<dots> = leading_int (n div 10) (dec_digit n # t)"
      using False "1.prems" by (intro "1.IH") auto
    also have "\<dots> = leading_int n t"
      using "1.prems"(2) zdiv_mono1[OF "1.prems"(2), of 10] split by simp
    finally show ?thesis .
  qed
qed

lemma parse_uint_show_pos:
  "0 \<le> n \<Longrightarrow> n < 2 ^ 64 \<Longrightarrow> parse_uint 0 (show_pos n @ t) = parse_uint n t"
proof (induction n arbitrary: t rule: show_pos.induct)
  case (1 n)
  show ?case
  proof (cases "n < 10")
    case True
    with "1.prems" show ?thesis by (subst show_pos.simps) simp
  next
    case False
    have split: "n div 10 * 10 + n mod 10 = n" by simp
    have "parse_uint 0 (show_pos n @ t) = parse_uint 0 (show_pos (n div 10) @ dec_digit n # t)"
      using False by (subst show_pos.simps) simp
    also have "\<dots> = parse_uint (n div 10) (dec_digit n # t)"
      using False "1.prems" by (intro "1.IH") auto
    also have "\<dots> = parse_uint n t" using "1.prems"(2) split by simp
    finally show ?thesis .
  qed
qed

lemma leading_int_stop: "t = [] \<or> \<not> is_digit (hd t) \<Longrightarrow> leading_int n t = Some (n, t)"
  by (cases t) auto

lemma show_pos_hd_digit: "is_digit (hd (show_pos n @ t))"
  using show_pos_digits[of n] show_pos_nonempty[of n] by (cases "show_pos n") auto

lemma atoi_show_pos:
  assumes "0 \<le> n" "n < 2 ^ 63"
  shows "atoi (show_pos n) = Inr n"
proof -
  have "is_digit (hd (show_pos n))" using show_pos_hd_digit[of n "[]"] by simp
  then have hd: "hd (show_pos n) \<noteq> CHR ''-''" "hd (show_pos n) \<noteq> CHR ''+''" by (auto simp: is_digit_def)
  have "parse_uint 0 (show_pos n) = Inr n"
    using parse_uint_show_pos[of n "[]"] assms by simp
  with hd assms show ?thesis by (simp add: atoi_def show_pos_nonempty)
qed

text \<open>A unit is read whole.\<close>

lemma unit_map_chars:
  assumes "unit_map u = Some k"
  shows "u \<noteq> []" "takeWhile is_unit_char u = u" "0 < k" "k \<le> 3600000000000" "hd u \<noteq> CHR ''.''" "\<not> is_digit (hd u)"
    "dropWhile is_unit_char u = []"
  using assms by (auto simp: unit_map_def is_unit_char_def is_digit_def split: if_splits)

lemma parse_duration_show:
  assumes u: "unit_map u = Some k" and n: "0 \<le> n" and le: "n * k < 2 ^ 63"
  shows "parse_duration (show_pos n @ u) = Inr (n * k)"
proof -
  note c = unit_map_chars[OF u]
  let ?s = "show_pos n @ u"
  have "n * 1 \<le> n * k" using n c(3) by (intro mult_left_mono) auto
  with le have n63: "n \<le> 2 ^ 63" by simp
  have li: "leading_int 0 ?s = Some (n, u)"
    using leading_int_show_pos[OF n n63, of u] leading_int_stop[of u n] c by simp
  have hd: "is_digit (hd ?s)" by (rule show_pos_hd_digit)
  then have sign: "hd ?s \<noteq> CHR ''-''" "hd ?s \<noteq> CHR ''+''" by (auto simp: is_digit_def)
  have "n \<le> 2 ^ 63 div k" using zdiv_mono1[of "n * k" "2 ^ 63" k] le c(3) by simp
  then have comp: "duration_component ?s = Inr (n * k, [])"
    using li hd c u le by (simp add: duration_component_def add_fraction_def show_pos_nonempty Let_def
        takeWhile_eq_all_conv[THEN iffD2])
  have "0 \<le> n * k" using n c(3) by simp
  then have "duration_loop 0 ?s = Inr (n * k)"
    using comp le c(1) by (simp add: duration_loop.simps[of 0 ?s] duration_loop.simps[of _ "[]"])
  moreover have "?s \<noteq> ''0''"
  proof
    assume "?s = ''0''"
    then have "last ?s = CHR ''0''" by simp
    then have "last u = CHR ''0''" using c(1) by simp
    moreover have "last u \<in> set u" using c(1) by simp
    moreover have "\<forall>x \<in> set u. is_unit_char x" using c(2) by (metis set_takeWhileD)
    ultimately have "is_unit_char (CHR ''0'')" by metis
    then show False by (simp add: is_unit_char_def is_digit_def)
  qed
  ultimately show ?thesis using sign le c(1) by (simp add: parse_duration_def)
qed

lemma duration_loop_range: "duration_loop d s = Inr r \<Longrightarrow> 0 \<le> d \<Longrightarrow> d \<le> 2 ^ 63 \<Longrightarrow> 0 \<le> r \<and> r \<le> 2 ^ 63"
proof (induction d s rule: duration_loop.induct)
  case (1 d s)
  then show ?case
    by (auto simp: duration_loop.simps[of d s] Let_def split: if_splits sum.splits)
qed

lemma parse_duration_int64: "parse_duration s = Inr d \<Longrightarrow> int64 d"
  by (auto simp: parse_duration_def Let_def int64_def split: if_splits sum.splits
      dest!: duration_loop_range)

lemma parse_uint_range: "parse_uint n s = Inr r \<Longrightarrow> 0 \<le> n \<Longrightarrow> 0 \<le> r"
  by (induction n s rule: parse_uint.induct) (auto simp: digit_value_def is_digit_def split: if_splits)

lemma atoi_int64: "atoi s = Inr n \<Longrightarrow> int64 n"
  by (auto simp: atoi_def Let_def int64_def split: if_splits sum.splits dest!: parse_uint_range)

end
