(* ===== verification/Outbox_Backoff.thy ===== *)
theory Outbox_Backoff
  imports Go_Numbers
begin

text \<open>
  \<^verbatim>\<open>internal/outbox/backoff.go\<close>: the retry delays of the outbox worker.

  A \<^verbatim>\<open>time.Duration\<close> is a number of nanoseconds in 64 bits; the arithmetic of the loop is written
  with its wrap-around (\<open>wrap64\<close>), and the theorem shows that it never wraps.
\<close>

record backoffPolicy =
  bo_base :: int
  bo_max :: int

definition newBackoffPolicy :: "int \<Rightarrow> int \<Rightarrow> goerror + backoffPolicy" where
  "newBackoffPolicy base mx =
     (if base \<le> 0 then Inl (Plain ''base backoff must be greater than zero'')
      else if mx \<le> 0 then Inl (Plain ''max backoff must be greater than zero'')
      else if mx < base
        then Inl (Plain ''max backoff must be greater than or equal to base backoff'')
      else Inr \<lparr>bo_base = base, bo_max = mx\<rparr>)"

text \<open>The \<^verbatim>\<open>for\<close> loop; its variable \<^verbatim>\<open>remaining\<close> counts down to zero.\<close>

primrec delay_loop :: "backoffPolicy \<Rightarrow> int \<Rightarrow> nat \<Rightarrow> int" where
  "delay_loop p delay 0 = delay"
| "delay_loop p delay (Suc remaining) =
     (if delay > wrap64 (bo_max p - delay) then bo_max p
      else delay_loop p (wrap64 (delay * 2)) remaining)"

definition retryDelay :: "backoffPolicy \<Rightarrow> int \<Rightarrow> int" where
  "retryDelay p failedAttempts =
     (if failedAttempts \<le> 1 then bo_base p
      else delay_loop p (bo_base p) (nat (wrap64 (failedAttempts - 1))))"

section \<open>Facts\<close>

definition policy_ok :: "backoffPolicy \<Rightarrow> bool" where
  "policy_ok p \<longleftrightarrow> 0 < bo_base p \<and> bo_base p \<le> bo_max p \<and> int64 (bo_max p)"

lemma newBackoffPolicy_ok:
  "newBackoffPolicy base mx = Inr p \<Longrightarrow> int64 mx \<Longrightarrow> policy_ok p \<and> p = \<lparr>bo_base = base, bo_max = mx\<rparr>"
  by (auto simp: newBackoffPolicy_def policy_ok_def split: if_splits)

lemma delay_loop_eq:
  assumes "policy_ok p" "0 < delay" "delay \<le> bo_max p"
  shows "delay_loop p delay n = min (bo_max p) (delay * 2 ^ n)"
  using assms(2,3)
proof (induction n arbitrary: delay)
  case (Suc n)
  have wrap: "wrap64 (bo_max p - delay) = bo_max p - delay"
    using Suc.prems assms(1) by (intro wrap64_id) (auto simp: policy_ok_def int64_def)
  have le: "delay * 2 \<le> delay * 2 ^ Suc n" using Suc.prems(1) by simp
  show ?case
  proof (cases "delay > bo_max p - delay")
    case True
    then show ?thesis using wrap le by (simp add: min_def)
  next
    case False
    then have "wrap64 (delay * 2) = delay * 2"
      using Suc.prems assms(1) by (intro wrap64_id) (auto simp: policy_ok_def int64_def)
    with False wrap Suc show ?thesis by (simp add: mult.assoc)
  qed
qed simp

lemma retryDelay_eq:
  assumes "policy_ok p" "int64 n"
  shows "retryDelay p n = min (bo_max p) (bo_base p * 2 ^ nat (n - 1))"
proof (cases "n \<le> 1")
  case True
  with assms show ?thesis by (simp add: retryDelay_def policy_ok_def)
next
  case False
  with assms(2) have "wrap64 (n - 1) = n - 1" by (intro wrap64_id) (auto simp: int64_def)
  with False assms show ?thesis
    by (simp add: retryDelay_def delay_loop_eq policy_ok_def)
qed

lemma retryDelay_bounds:
  assumes "policy_ok p" "int64 n"
  shows "bo_base p \<le> retryDelay p n" "retryDelay p n \<le> bo_max p" "0 < retryDelay p n"
proof -
  have "bo_base p * 1 \<le> bo_base p * 2 ^ nat (n - 1)"
    using assms(1) by (intro mult_left_mono) (auto simp: policy_ok_def)
  then show "bo_base p \<le> retryDelay p n" "retryDelay p n \<le> bo_max p" "0 < retryDelay p n"
    using assms by (auto simp: retryDelay_eq policy_ok_def)
qed

text \<open>C15. The delay before the next attempt is the base doubled once per earlier failure, capped at
  the maximum, for every policy the constructor accepts and every number of failures: the 64-bit
  arithmetic of the loop never wraps.\<close>

theorem retryDelay_exact:
  assumes "newBackoffPolicy base mx = Inr p" "int64 mx" "int64 n"
  shows "retryDelay p n = min mx (base * 2 ^ nat (n - 1))"
  using newBackoffPolicy_ok[OF assms(1,2)] retryDelay_eq[of p n] assms(3) by auto

theorem retryDelay_exact_witness:
  "retryDelay \<lparr>bo_base = 1000000000, bo_max = 2 ^ 63 - 1\<rparr> 60 =
     min (2 ^ 63 - 1) (1000000000 * 2 ^ nat (60 - 1))"
  by (rule retryDelay_exact[where base = 1000000000]) (simp_all add: newBackoffPolicy_def int64_def)

end
