(* ===== verification/Outbox_Worker.thy ===== *)
theory Outbox_Worker
  imports Outbox_Store Outbox_Backoff
begin

text \<open>
  \<^verbatim>\<open>internal/outbox/worker.go\<close>, with \<^verbatim>\<open>observer.go\<close> and \<^verbatim>\<open>publisher.go\<close>: claiming an event, publishing
  it, recording the outcome, and the polling loop.

  The store is any value of the record \<open>Store\<close>. What one iteration meets is a record \<open>work_env\<close>:
  the environments of its two store calls, the publisher's answer, the context at each moment the
  code looks at it, and what other workers do between the claim and the final transition
  (\<open>we_others\<close>). The calls to the observer are returned as a list, in order; log records carry
  no state and are left out.
\<close>

section \<open>Data\<close>

datatype ClaimOutcome = ClaimOutcomeClaimed | ClaimOutcomeEmpty | ClaimOutcomeError

datatype observation =
    ObserveClaim ClaimOutcome
  | ObservePublish go_string PublishOutcome int
  | ObservePublished go_string
  | ObserveRetry go_string PublishOutcome
  | ObserveDeadLetter go_string PublishOutcome
  | ObserveLeaseLoss go_string operation
  | ObserveOperationError operation

record WorkerConfig =
  wc_WorkerID :: go_string
  wc_PollInterval :: int
  wc_LockTTL :: int
  wc_PublishTimeout :: int
  wc_MaxFailures :: int
  wc_BaseBackoff :: int
  wc_MaxBackoff :: int

record Worker =
  w_workerID :: go_string
  w_pollInterval :: int
  w_lockTTL :: int
  w_publishTimeout :: int
  w_maxFailures :: int
  w_backoff :: backoffPolicy

definition maxWorkerIDLength :: nat where
  "maxWorkerIDLength = 128"

text \<open>The three flags say whether the interface values are non-nil; the observer, nil or not, is the
  list of observations.\<close>

definition NewWorker :: "bool \<Rightarrow> bool \<Rightarrow> bool \<Rightarrow> WorkerConfig \<Rightarrow> goerror + Worker" where
  "NewWorker has_store has_publisher has_logger cfg =
     (if \<not> has_store then Inl (Plain ''store must not be nil'')
      else if \<not> has_publisher then Inl (Plain ''publisher must not be nil'')
      else if \<not> has_logger then Inl (Plain ''logger must not be nil'')
      else if wc_WorkerID cfg = '''' then Inl (Plain ''worker id must not be empty'')
      else if rune_count (wc_WorkerID cfg) > maxWorkerIDLength
        then Inl (Plain ''worker id must be at most %d characters'')
      else if wc_PollInterval cfg \<le> 0 then Inl (Plain ''poll interval must be greater than zero'')
      else if wc_LockTTL cfg \<le> 0 then Inl (Plain ''lock ttl must be greater than zero'')
      else if wc_PublishTimeout cfg \<le> 0 then Inl (Plain ''publish timeout must be greater than zero'')
      else if wc_LockTTL cfg \<le> wc_PublishTimeout cfg
        then Inl (Plain ''lock ttl must be greater than publish timeout'')
      else if wc_MaxFailures cfg \<le> 0 then Inl (Plain ''max failures must be greater than zero'')
      else (case newBackoffPolicy (wc_BaseBackoff cfg) (wc_MaxBackoff cfg) of
          Inl e \<Rightarrow> Inl (Wrapf ''invalid backoff policy: %w'' e)
        | Inr b \<Rightarrow> Inr \<lparr>
            w_workerID = wc_WorkerID cfg, w_pollInterval = wc_PollInterval cfg,
            w_lockTTL = wc_LockTTL cfg, w_publishTimeout = wc_PublishTimeout cfg,
            w_maxFailures = wc_MaxFailures cfg, w_backoff = b\<rparr>))"

record ('env, 's) work_env =
  we_claim :: 'env
  we_ctx_claim :: context_state
  we_publish :: "Event \<Rightarrow> goerror option"
  we_publish_parent :: context_state
  we_publish_expired :: bool
  we_duration :: int
  we_ctx_failed :: context_state
  we_others :: "'s \<Rightarrow> 's"
  we_transition :: 'env
  we_ctx_transition :: context_state
  we_ctx_run :: context_state

section \<open>Operations\<close>

definition wrapWorkerOperationError :: "operation \<Rightarrow> goerror \<Rightarrow> goerror" where
  "wrapWorkerOperationError oper e = WorkerOperationError oper e"

fun operation_string :: "operation \<Rightarrow> string" where
  "operation_string OperationClaim = ''claim''"
| "operation_string OperationMarkPublished = ''mark_published''"
| "operation_string OperationScheduleRetry = ''schedule_retry''"
| "operation_string OperationMarkDeadLetter = ''mark_dead_letter''"

definition workerErrorOperation :: "goerror \<Rightarrow> string" where
  "workerErrorOperation err =
     (case errors_as node_operation err of Some oper \<Rightarrow> operation_string oper | None \<Rightarrow> ''unknown'')"

definition classifyPublishOutcome :: "context_state \<Rightarrow> goerror option \<Rightarrow> PublishOutcome" where
  "classifyPublishOutcome publishCtx err =
     (case err of
        None \<Rightarrow> PublishOutcomeSuccess
      | Some e \<Rightarrow>
          if ctx_err publishCtx = Some DeadlineExceeded then PublishOutcomeTimeout
          else if errors_is e DeadlineExceeded then PublishOutcomeTimeout
          else if ctx_err publishCtx = Some Canceled then PublishOutcomeCanceled
          else if errors_is e Canceled then PublishOutcomeCanceled
          else PublishOutcomeFailed)"

definition handleTransitionError ::
  "context_state \<Rightarrow> Event \<Rightarrow> operation \<Rightarrow> goerror \<Rightarrow> goerror \<times> observation list" where
  "handleTransitionError ctx event oper err =
     (if is_ctx_error ctx err then (Sentinel (the (ctx_err ctx)), [])
      else if errors_is err ErrLeaseLost
      then (Sentinel ErrLeaseLost, [ObserveLeaseLoss (ev_EventType event) oper])
      else (wrapWorkerOperationError oper err, [ObserveOperationError oper]))"

text \<open>The end of \<^verbatim>\<open>processEvent\<close>: one transition of the store and what follows from its result.\<close>

definition transition_end ::
  "('env, 's) work_env \<Rightarrow> Event \<Rightarrow> operation \<Rightarrow> string \<Rightarrow> observation \<Rightarrow> goerror option \<times> 's \<Rightarrow>
     goerror option \<times> observation list \<times> 's" where
  "transition_end env event oper msg done res =
     (case res of
        (Some err, s) \<Rightarrow>
          (let (e, obs) = handleTransitionError (we_ctx_transition env) event oper err
           in (Some (Wrapf msg e), obs, s))
      | (None, s) \<Rightarrow> (None, [done], s))"

text \<open>\<^verbatim>\<open>processEvent\<close> after the call to the publisher has returned \<open>publishErr\<close>.\<close>

definition settleEvent ::
  "('env, 's) Store \<Rightarrow> Worker \<Rightarrow> ('env, 's) work_env \<Rightarrow> Event \<Rightarrow> goerror option \<Rightarrow> 's \<Rightarrow>
     goerror option \<times> observation list \<times> 's" where
  "settleEvent S w env event publishErr s =
     (let publishCtx = with_timeout (we_publish_expired env) (we_publish_parent env);
          publishOutcome = classifyPublishOutcome publishCtx publishErr;
          obs = [ObservePublish (ev_EventType event) publishOutcome (we_duration env)];
          failedAttempts = wrap64 (ev_FailedAttempts event + 1)
      in case (case publishErr of
            None \<Rightarrow>
              transition_end env event OperationMarkPublished ''mark published event %q: %w''
                (ObservePublished (ev_EventType event))
                (st_MarkPublished S (we_transition env) (w_workerID w) (ev_ID event) s)
          | Some _ \<Rightarrow>
              (case ctx_err (we_ctx_failed env) of
                 Some c \<Rightarrow> (Some (Sentinel c), [], s)
               | None \<Rightarrow>
                   if failedAttempts \<ge> w_maxFailures w then
                     transition_end env event OperationMarkDeadLetter ''mark event %q dead letter: %w''
                       (ObserveDeadLetter (ev_EventType event) publishOutcome)
                       (st_MarkDeadLetter S (we_transition env) (w_workerID w) (ev_ID event)
                          publishOutcome s)
                   else
                     transition_end env event OperationScheduleRetry ''schedule retry for event %q: %w''
                       (ObserveRetry (ev_EventType event) publishOutcome)
                       (st_ScheduleRetry S (we_transition env) (w_workerID w) (ev_ID event)
                          (retryDelay (w_backoff w) failedAttempts) publishOutcome s))) of
           (err, obs', s') \<Rightarrow> (err, obs @ obs', s'))"

definition processEvent ::
  "('env, 's) Store \<Rightarrow> Worker \<Rightarrow> ('env, 's) work_env \<Rightarrow> Event \<Rightarrow> 's \<Rightarrow>
     goerror option \<times> observation list \<times> 's" where
  "processEvent S w env event s = settleEvent S w env event (we_publish env event) (we_others env s)"

text \<open>\<^verbatim>\<open>runOnce\<close> returns whether an event was processed, or an error.\<close>

definition runOnce ::
  "('env, 's) Store \<Rightarrow> Worker \<Rightarrow> ('env, 's) work_env \<Rightarrow> 's \<Rightarrow> (goerror + bool) \<times> observation list \<times> 's"
where
  "runOnce S w env s =
     (case st_ClaimNext S (we_claim env) (w_workerID w) (w_lockTTL w) s of
        (Inl err, s1) \<Rightarrow>
          if is_ctx_error (we_ctx_claim env) err
          then (Inl (Sentinel (the (ctx_err (we_ctx_claim env)))), [], s1)
          else (Inl (wrapWorkerOperationError OperationClaim err),
                [ObserveClaim ClaimOutcomeError, ObserveOperationError OperationClaim], s1)
      | (Inr None, s1) \<Rightarrow> (Inr False, [ObserveClaim ClaimOutcomeEmpty], s1)
      | (Inr (Some event), s1) \<Rightarrow>
          (case processEvent S w env event s1 of
             (Some err, obs, s2) \<Rightarrow>
               (if errors_is err ErrLeaseLost then Inr False else Inl err,
                ObserveClaim ClaimOutcomeClaimed # obs, s2)
           | (None, obs, s2) \<Rightarrow> (Inr True, ObserveClaim ClaimOutcomeClaimed # obs, s2)))"

section \<open>The polling loop\<close>

text \<open>What the \<^verbatim>\<open>select\<close> of \<^verbatim>\<open>Run\<close> picks: the end of the context, or the timer.\<close>

datatype ('env, 's) run_event = CtxDone | TimerFired "('env, 's) work_env"

text \<open>The state of \<^verbatim>\<open>Run\<close> after a script of such choices: still polling, with the wait the timer was
  last set to, or returned with an error or nil.\<close>

datatype run_state = Polling int | Returned "goerror option"

definition run_iteration ::
  "('env, 's) Store \<Rightarrow> Worker \<Rightarrow> ('env, 's) work_env \<Rightarrow> 's \<Rightarrow> run_state \<times> observation list \<times> 's" where
  "run_iteration S w env s =
     (case runOnce S w env s of
        (Inl err, obs, s') \<Rightarrow>
          if is_ctx_error (we_ctx_run env) err then (Returned None, obs, s')
          else if errors_is err ErrStoreUnavailable then (Polling (w_pollInterval w), obs, s')
          else (Returned (Some (Wrapf ''outbox worker %s operation failed: %w'' (Sentinel ErrWorkerFatal))),
                obs, s')
      | (Inr processed, obs, s') \<Rightarrow> (Polling (if processed then 0 else w_pollInterval w), obs, s'))"

fun run_loop ::
  "('env, 's) Store \<Rightarrow> Worker \<Rightarrow> int \<Rightarrow> ('env, 's) run_event list \<Rightarrow> 's \<Rightarrow>
     run_state \<times> observation list \<times> 's" where
  "run_loop S w wait [] s = (Polling wait, [], s)"
| "run_loop S w wait (CtxDone # _) s = (Returned None, [], s)"
| "run_loop S w wait (TimerFired env # script) s =
     (case run_iteration S w env s of
        (Polling wait', obs, s') \<Rightarrow>
          (case run_loop S w wait' script s' of (st, obs', s'') \<Rightarrow> (st, obs @ obs', s''))
      | (Returned r, obs, s') \<Rightarrow> (Returned r, obs, s'))"

text \<open>\<^verbatim>\<open>Run\<close>: the context is looked at before the timer is made and again before \<^verbatim>\<open>onStarted\<close>; the flag
  of the result says whether \<^verbatim>\<open>onStarted\<close> was called.\<close>

definition Run ::
  "('env, 's) Store \<Rightarrow> Worker \<Rightarrow> context_state \<Rightarrow> context_state \<Rightarrow> ('env, 's) run_event list \<Rightarrow> 's \<Rightarrow>
     bool \<times> run_state \<times> observation list \<times> 's" where
  "Run S w ctx1 ctx2 script s =
     (if ctx_err ctx1 \<noteq> None then (False, Returned None, [], s)
      else if ctx_err ctx2 \<noteq> None then (False, Returned None, [], s)
      else (True, run_loop S w 0 script s))"

section \<open>The logging publisher\<close>

definition NewLoggingPublisher :: "'logger option \<Rightarrow> goerror + 'logger" where
  "NewLoggingPublisher logger =
     (case logger of None \<Rightarrow> Inl (Plain ''logger must not be nil'') | Some l \<Rightarrow> Inr l)"

definition loggingPublisher_Publish :: "context_state \<Rightarrow> Event \<Rightarrow> goerror option" where
  "loggingPublisher_Publish ctx event = map_option Sentinel (ctx_err ctx)"

section \<open>What an iteration does to a lease\<close>

text \<open>The state a settled event ends in: \<open>None\<close> when a shutdown leaves the lease to expire.\<close>

definition settle_final :: "Worker \<Rightarrow> ('env, 's) work_env \<Rightarrow> Event \<Rightarrow> goerror option \<Rightarrow> (int \<Rightarrow> lease) option" where
  "settle_final w env ev publishErr =
     (case publishErr of
        None \<Rightarrow> Some Delivered
      | Some _ \<Rightarrow>
          if ctx_err (we_ctx_failed env) \<noteq> None then None
          else if wrap64 (ev_FailedAttempts ev + 1) \<ge> w_maxFailures w then Some (\<lambda>f. Dead (f + 1))
          else Some (\<lambda>f. Waiting (f + 1)))"

text \<open>An error of the store is passed on as the end of the context, as a lost lease or as a failed
  operation; a lost lease stays one unless the context has ended.\<close>

lemma handleTransitionError_lost:
  "errors_is (fst (handleTransitionError ctx ev oper err)) ErrLeaseLost \<longleftrightarrow>
     errors_is err ErrLeaseLost \<and> \<not> is_ctx_error ctx err"
  by (cases ctx) (auto simp: handleTransitionError_def wrapWorkerOperationError_def)

lemma transition_end_cases:
  assumes "transition_end env ev oper msg done res = (err, obs, s')"
  obtains "res = (None, s')" "err = None" "obs = [done]"
    | e where "res = (Some e, s')" "err = Some (Wrapf msg (fst (handleTransitionError (we_ctx_transition env) ev oper e)))"
        "obs = snd (handleTransitionError (we_ctx_transition env) ev oper e)"
  using assms by (auto simp: transition_end_def Let_def split: prod.splits option.splits)

definition settle_outcome ::
  "(int \<Rightarrow> lease) option \<Rightarrow> go_string \<Rightarrow> string \<Rightarrow> (string \<Rightarrow> lease option) \<Rightarrow> goerror option \<Rightarrow>
     (string \<Rightarrow> lease option) \<Rightarrow> bool" where
  "settle_outcome fin w eid v err v' =
     (case fin of
        None \<Rightarrow> v' = v \<and> err \<noteq> None
      | Some final \<Rightarrow>
          (case err of
             None \<Rightarrow> ended_lease final w eid v v'
           | Some e \<Rightarrow>
               if errors_is e ErrLeaseLost then v' = v \<and> (\<nexists>f. v eid = Some (Leased w f))
               else v' = v \<or> ended_lease final w eid v v'))"

lemma settleEvent_cases:
  assumes "settleEvent S w env ev publishErr s = (err, obs, s')"
  obtains (shutdown) c where "settle_final w env ev publishErr = None" "err = Some (Sentinel c)" "s' = s"
      "ctx_err (we_ctx_failed env) = Some c" "publishErr \<noteq> None"
    | (published) msg dn obs' where "settle_final w env ev publishErr = Some Delivered" "publishErr = None"
        "transition_end env ev OperationMarkPublished msg dn
           (st_MarkPublished S (we_transition env) (w_workerID w) (ev_ID ev) s) = (err, obs', s')"
    | (dead) msg dn obs' oc where "settle_final w env ev publishErr = Some (\<lambda>f. Dead (f + 1))"
        "publishErr \<noteq> None" "oc = classifyPublishOutcome (with_timeout (we_publish_expired env) (we_publish_parent env)) publishErr"
        "transition_end env ev OperationMarkDeadLetter msg dn
           (st_MarkDeadLetter S (we_transition env) (w_workerID w) (ev_ID ev) oc s) = (err, obs', s')"
    | (retry) msg dn obs' oc where "settle_final w env ev publishErr = Some (\<lambda>f. Waiting (f + 1))"
        "publishErr \<noteq> None" "oc = classifyPublishOutcome (with_timeout (we_publish_expired env) (we_publish_parent env)) publishErr"
        "transition_end env ev OperationScheduleRetry msg dn
           (st_ScheduleRetry S (we_transition env) (w_workerID w) (ev_ID ev)
              (retryDelay (w_backoff w) (wrap64 (ev_FailedAttempts ev + 1))) oc s) = (err, obs', s')"
proof (cases publishErr)
  case None
  with assms show ?thesis
    by (auto simp: settleEvent_def settle_final_def Let_def split: prod.splits intro: published)
next
  case (Some e)
  show ?thesis
  proof (cases "ctx_err (we_ctx_failed env)")
    case (Some c)
    with assms \<open>publishErr = Some e\<close> show ?thesis
      by (intro shutdown) (auto simp: settleEvent_def settle_final_def Let_def)
  next
    case None
    show ?thesis
    proof (cases "wrap64 (ev_FailedAttempts ev + 1) \<ge> w_maxFailures w")
      case True
      with assms Some None show ?thesis
        by (auto simp: settleEvent_def settle_final_def Let_def split: prod.splits intro: dead)
    next
      case False
      with assms Some None show ?thesis
        by (auto simp: settleEvent_def settle_final_def Let_def split: prod.splits intro: retry)
    qed
  qed
qed

context lease_store
begin

lemma transition_end_outcome:
  assumes "transition_end env ev oper msg done (res, s1) = (err, obs, s')"
    "end_outcome final w eid (view s) res (view s1)"
  shows "settle_outcome (Some final) w eid (view s) err (view s') \<and> s' = s1"
  using assms(1)
proof (cases rule: transition_end_cases)
  case 1
  with assms(2) show ?thesis by (simp add: settle_outcome_def end_outcome_def)
next
  case (2 e)
  with assms(2) show ?thesis
    by (auto simp: settle_outcome_def end_outcome_def handleTransitionError_lost split: if_splits)
qed

lemma settleEvent_outcome:
  assumes "inv s" "env_ok (we_transition env)" "settleEvent S w env ev publishErr s = (err, obs, s')"
  shows "inv s'"
    and "settle_outcome (settle_final w env ev publishErr) (w_workerID w) (ev_ID ev) (view s) err (view s')"
proof -
  have step: "inv s' \<and> settle_outcome (Some final) (w_workerID w) (ev_ID ev) (view s) err (view s')"
    if "transition_end env ev oper msg dn call = (err, obs', s')"
      "\<And>res s1. call = (res, s1) \<Longrightarrow> inv s1 \<and> end_outcome final (w_workerID w) (ev_ID ev) (view s) res (view s1)"
    for oper msg dn call obs' final
    using that transition_end_outcome by (cases call) blast
  have "inv s' \<and> settle_outcome (settle_final w env ev publishErr) (w_workerID w) (ev_ID ev) (view s) err (view s')"
    using assms(3)
  proof (cases rule: settleEvent_cases)
    case shutdown
    with assms(1) show ?thesis by (simp add: settle_outcome_def)
  next
    case published
    with step[OF published(3), of Delivered] show ?thesis using publish_inv[OF assms(1)] publish_outcome[OF assms(1,2)] by simp
  next
    case dead
    with step[OF dead(4), of "\<lambda>f. Dead (f + 1)"] show ?thesis using dead_inv[OF assms(1)] dead_outcome[OF assms(1,2)] by simp
  next
    case retry
    with step[OF retry(4), of "\<lambda>f. Waiting (f + 1)"] show ?thesis using retry_inv[OF assms(1)] retry_outcome[OF assms(1,2)] by simp
  qed
  then show "inv s'"
    and "settle_outcome (settle_final w env ev publishErr) (w_workerID w) (ev_ID ev) (view s) err (view s')" by auto
qed

text \<open>One iteration that claimed an event.\<close>

lemma runOnce_claimed:
  assumes "inv s" "env_ok (we_claim env)" "env_ok (we_transition env)"
    "\<And>x. inv x \<Longrightarrow> inv (we_others env x)" "runOnce S w env s = (r, obs, s')"
    "st_ClaimNext S (we_claim env) (w_workerID w) (w_lockTTL w) s = (Inr (Some ev), s1)"
  obtains err where "r = (case err of None \<Rightarrow> Inr True | Some e \<Rightarrow> if errors_is e ErrLeaseLost then Inr False else Inl e)"
    "took_lease (w_workerID w) (ev_ID ev) (view s) (view s1)" "inv s'"
    "settle_outcome (settle_final w env ev (we_publish env ev)) (w_workerID w) (ev_ID ev) (view (we_others env s1)) err (view s')"
    "\<exists>obs'. settleEvent S w env ev (we_publish env ev) (we_others env s1) = (err, obs', s')"
proof -
  from assms(5,6) obtain err obs' where se: "settleEvent S w env ev (we_publish env ev) (we_others env s1) = (err, obs', s')"
      and r: "r = (case err of None \<Rightarrow> Inr True | Some e \<Rightarrow> if errors_is e ErrLeaseLost then Inr False else Inl e)"
    by (auto simp: runOnce_def processEvent_def split: prod.splits option.splits)
  have "inv (we_others env s1)" using claim_inv[OF assms(1,6)] assms(4) by simp
  note out = settleEvent_outcome[OF this assms(3) se]
  from that[OF r _ out] se claim_some[OF assms(1,2,6)] show thesis by blast
qed

end

section \<open>The worker on PostgreSQL\<close>

lemma ClaimNext_row:
  assumes "outbox_inv d" "ClaimNext env w ttl d = (Inr (Some ev), d1)"
  obtains r where "r \<in> set (outbox_events d)" "ev = event_of_row r" "outbox_row_chk r"
proof -
  obtain pr d2 where ex: "pool_exec env (sql_claim env w ttl) d = (pr, d2)" by fastforce
  with assms(2) have "pr = Inr ev" by (auto simp: ClaimNext_def split: if_splits sum.splits)
  with ex have "sql_claim env w ttl d = Inr (ev, d2)" by (auto elim: pool_exec_cases)
  then obtain r where "due_event env d = Some r" "ev = event_of_row (leased_row env w ttl r)"
    using sql_claim_Inr[OF _ assms(1)] by metis
  with due_event_Some(1) assms(1) that[of r] show ?thesis
    by (auto simp: event_of_row_def leased_row_def outbox_inv_def)
qed

lemma event_failures:
  assumes "outbox_inv d" "ClaimNext env w ttl d = (Inr (Some ev), d1)"
  shows "0 \<le> ev_FailedAttempts ev" "ev_FailedAttempts ev < 2 ^ 31"
    "wrap64 (ev_FailedAttempts ev + 1) = ev_FailedAttempts ev + 1"
proof -
  from assms obtain r where "ev = event_of_row r" "outbox_row_chk r" by (rule ClaimNext_row)
  then show *: "0 \<le> ev_FailedAttempts ev" "ev_FailedAttempts ev < 2 ^ 31"
    by (auto simp: event_of_row_def outbox_row_chk_def)
  then show "wrap64 (ev_FailedAttempts ev + 1) = ev_FailedAttempts ev + 1"
    by (intro wrap64_id) (simp add: int64_def)
qed

section \<open>What an iteration does to the table\<close>

text \<open>What the store does to the table: one committed row is replaced by one with the same identity.\<close>

definition row_changed :: "db \<Rightarrow> db \<Rightarrow> bool" where
  "row_changed d d' \<longleftrightarrow> d' = d \<or>
     (\<exists>r r'. r \<in> set (outbox_events d) \<and> ob_owner r = None \<and> ob_owner r' = None \<and> ob_id r' = ob_id r \<and>
        ob_aggregate_id r' = ob_aggregate_id r \<and> outbox_row_chk r' \<and> d' = replace_row r r' d)"

lemma row_changed_replace:
  "\<lbrakk>r \<in> set (outbox_events d); ob_owner r = None; ob_owner r' = None; ob_id r' = ob_id r;
    ob_aggregate_id r' = ob_aggregate_id r; outbox_row_chk r'\<rbrakk> \<Longrightarrow> row_changed d (replace_row r r' d)"
  unfolding row_changed_def by blast

lemma row_changed_refl [simp]: "row_changed d d"
  by (simp add: row_changed_def)

lemma ClaimNext_changed:
  assumes "outbox_inv d" "ClaimNext env w ttl d = (res, d')"
  shows "row_changed d d'"
proof -
  have claimed: "row_changed d x" if cl: "sql_claim env w ttl d = Inr (ev, x)" for ev x
  proof -
    from cl assms(1) obtain r where r: "due_event env d = Some r" "x = replace_row r (leased_row env w ttl r) d"
        "outbox_row_chk (leased_row env w ttl r)" by (rule sql_claim_Inr)
    with due_event_Some(1,2)[OF r(1)] show ?thesis
      by (auto intro!: row_changed_replace) (simp add: leased_row_def)
  qed
  obtain pr d1 where ex: "pool_exec env (sql_claim env w ttl) d = (pr, d1)" by fastforce
  then have "row_changed d d1" by (cases rule: pool_exec_cases) (auto dest: claimed)
  with ex assms(2) show ?thesis
    by (auto simp: ClaimNext_def split: if_splits sum.splits)
qed

definition keeps_identity :: "(outbox_row \<Rightarrow> goerror + outbox_row) \<Rightarrow> bool" where
  "keeps_identity upd \<longleftrightarrow> (\<forall>r r'. upd r = Inr r' \<longrightarrow>
     ob_id r' = ob_id r \<and> ob_owner r' = ob_owner r \<and> ob_aggregate_id r' = ob_aggregate_id r)"

lemma keeps_identity_rows:
  "keeps_identity (\<lambda>r. Inr (published_row env r))"
  "keeps_identity (int4_guard (retry_row env delay reason))"
  "keeps_identity (int4_guard (dead_letter_row env reason))"
  by (auto simp: keeps_identity_def published_row_def retry_row_def dead_letter_row_def int4_guard_def
      split: if_splits)

lemma fenced_changed:
  assumes "outbox_inv d" "keeps_identity upd"
    "transition_result env msg (pool_exec env (fenced_update w eid upd) d) = (err, d')"
  shows "row_changed d d'"
proof -
  have changed: "row_changed d x" if up: "fenced_update w eid upd d = Inr (n, x)" for n x
  proof -
    from up obtain rows where "sql_update (fenced w eid) upd d = Inr (rows, x)"
      by (auto simp: fenced_update_def map_sum_def map_prod_def split: sum.splits prod.splits)
    from sql_update_one[OF this assms(1), of eid] assms(2) show ?thesis
      by (auto simp: fenced_def keeps_identity_def intro!: row_changed_replace)
  qed
  obtain pr d1 where ex: "pool_exec env (fenced_update w eid upd) d = (pr, d1)" by fastforce
  then have "row_changed d d1" by (cases rule: pool_exec_cases) (auto dest: changed)
  with ex assms(3) show ?thesis by (auto simp: transition_result_def split: sum.splits if_splits)
qed

lemma transitions_changed:
  assumes "outbox_inv d"
  shows "MarkPublished env w eid d = (err, d') \<Longrightarrow> row_changed d d'"
    and "ScheduleRetry env w eid delay oc d = (err, d') \<Longrightarrow> row_changed d d'"
    and "MarkDeadLetter env w eid oc d = (err, d') \<Longrightarrow> row_changed d d'"
  by (auto simp: transition_defs split: if_splits dest: fenced_changed[OF assms keeps_identity_rows(1)]
      fenced_changed[OF assms keeps_identity_rows(2)] fenced_changed[OF assms keeps_identity_rows(3)])

lemma settleEvent_changed:
  assumes "outbox_inv d" "settleEvent postgresStore w env ev answer d = (err, obs, d')"
  shows "row_changed d d'"
proof -
  have te: "row_changed d d'"
    if "transition_end env ev oper msg dn call = (err, obs', d')" "\<And>x y. call = (x, y) \<Longrightarrow> row_changed d y"
    for oper msg dn call obs'
    using that by (cases call) (auto elim: transition_end_cases)
  from assms(2) show ?thesis
    by (cases rule: settleEvent_cases)
       (auto simp: postgresStore_def dest: transitions_changed[OF assms(1)] elim!: te)
qed

text \<open>Every row keeps its identifier, and none is empty.\<close>

definition outbox_ok :: "db \<Rightarrow> bool" where
  "outbox_ok d \<longleftrightarrow> outbox_inv d \<and> (\<forall>r \<in> set (outbox_events d). ob_id r \<noteq> '''')"

lemma row_changed_ok: "row_changed d d' \<Longrightarrow> outbox_ok d \<Longrightarrow> outbox_ok d'"
  by (auto simp: row_changed_def outbox_ok_def intro: replace_row_inv) (auto simp: replace_row_def)

lemma runOnce_ok:
  assumes "runOnce postgresStore w env d = (r, obs, d')" "outbox_ok d" "\<And>x. outbox_ok x \<Longrightarrow> outbox_ok (we_others env x)"
  shows "outbox_ok d'"
proof -
  obtain res d1 where cl: "ClaimNext (we_claim env) (w_workerID w) (w_lockTTL w) d = (res, d1)" by fastforce
  have "outbox_inv d" using assms(2) by (simp add: outbox_ok_def)
  from row_changed_ok[OF ClaimNext_changed[OF this cl] assms(2)] have d1: "outbox_ok d1" .
  then have d2: "outbox_ok (we_others env d1)" by (rule assms(3))
  have "outbox_ok x" if "settleEvent postgresStore w env ev ans (we_others env d1) = (err, obs', x)" for ev ans err obs' x
    using settleEvent_changed[OF _ that] row_changed_ok[OF _ d2] d2 by (simp add: outbox_ok_def)
  with assms(1) cl d1 show ?thesis
    by (auto simp: runOnce_def processEvent_def postgresStore_def split: prod.splits sum.splits option.splits if_splits)
qed

section \<open>Errors\<close>

text \<open>A context that has ended stays ended.\<close>

definition ctx_le :: "context_state \<Rightarrow> context_state \<Rightarrow> bool" where
  "ctx_le c c' \<longleftrightarrow> c = Live \<or> c' = c"

text \<open>The moments at which one iteration looks at its context, in order.\<close>

definition ctx_monotone :: "(store_env, db) work_env \<Rightarrow> bool" where
  "ctx_monotone env \<longleftrightarrow>
     ctx_le (se_parent (we_claim env)) (we_ctx_claim env) \<and> ctx_le (we_ctx_claim env) (we_publish_parent env) \<and>
     ctx_le (we_publish_parent env) (we_ctx_failed env) \<and>
     ctx_le (we_ctx_failed env) (se_parent (we_transition env)) \<and>
     ctx_le (se_parent (we_transition env)) (we_ctx_transition env) \<and>
     ctx_le (we_ctx_transition env) (we_ctx_run env)"

text \<open>The errors of an iteration the loop knows: the store unavailable, the store failed, or the
  context ended.\<close>

definition worker_error :: "context_state \<Rightarrow> goerror \<Rightarrow> bool" where
  "worker_error ctx e \<longleftrightarrow>
     errors_is e ErrStoreUnavailable \<or> errors_is e ErrStoreInternal \<or> is_ctx_error ctx e"

lemma ctx_le_error: "ctx_le c c' \<Longrightarrow> is_ctx_error c e \<Longrightarrow> is_ctx_error c' e"
  by (auto simp: ctx_le_def)

lemma ctx_le_trans: "ctx_le a b \<Longrightarrow> ctx_le b c \<Longrightarrow> ctx_le a c"
  by (auto simp: ctx_le_def)

lemma worker_error_mono: "worker_error c e \<Longrightarrow> ctx_le c c' \<Longrightarrow> worker_error c' e"
  by (auto simp: worker_error_def intro: ctx_le_error)

lemma is_ctx_error_sentinel [simp]: "is_ctx_error c e \<Longrightarrow> is_ctx_error c (Sentinel (the (ctx_err c)))"
  by (cases c) auto

lemma outbox_map_err_worker_error: "worker_error (se_parent env) (outbox_map_err env e)"
  by (cases "se_parent env")
     (auto simp: worker_error_def outbox_map_err_def outbox_mapPostgresError_def outbox_queryContext_def
       with_timeout_cause_def)

lemma worker_error_Wrapf [simp]: "worker_error c (Wrapf m e) = worker_error c e"
  by (cases c) (auto simp: worker_error_def)

lemma worker_error_op [simp]: "worker_error c (WorkerOperationError oper e) = worker_error c e"
  by (cases c) (auto simp: worker_error_def)

text \<open>With arguments that pass its checks, every error of a store call is one of these or a lost
  lease.\<close>

lemma transition_result_error:
  "transition_result env msg x = (Some e, d') \<Longrightarrow> worker_error (se_parent env) e \<or> errors_is e ErrLeaseLost"
  by (auto simp: transition_result_def outbox_map_err_worker_error split: prod.splits sum.splits if_splits)

lemma store_errors:
  "ClaimNext env w ttl d = (Inl e, d') \<Longrightarrow> w \<noteq> '''' \<Longrightarrow> 0 < ttl \<Longrightarrow> worker_error (se_parent env) e"
  "MarkPublished env w eid d = (Some e, d') \<Longrightarrow> w \<noteq> '''' \<Longrightarrow> eid \<noteq> '''' \<Longrightarrow>
     worker_error (se_parent env) e \<or> errors_is e ErrLeaseLost"
  "ScheduleRetry env w eid delay oc d = (Some e, d') \<Longrightarrow> w \<noteq> '''' \<Longrightarrow> eid \<noteq> '''' \<Longrightarrow> 0 < delay \<Longrightarrow>
     worker_error (se_parent env) e \<or> errors_is e ErrLeaseLost"
  "MarkDeadLetter env w eid oc d = (Some e, d') \<Longrightarrow> w \<noteq> '''' \<Longrightarrow> eid \<noteq> '''' \<Longrightarrow>
     worker_error (se_parent env) e \<or> errors_is e ErrLeaseLost"
  by (auto simp: ClaimNext_def MarkPublished_def ScheduleRetry_def MarkDeadLetter_def
      outbox_map_err_worker_error split: if_splits prod.splits sum.splits dest: transition_result_error)

lemma handleTransitionError_class:
  assumes "worker_error c e \<or> errors_is e ErrLeaseLost" "ctx_le c ctx"
  shows "worker_error ctx (fst (handleTransitionError ctx ev oper e)) \<or>
    errors_is (fst (handleTransitionError ctx ev oper e)) ErrLeaseLost"
  using assms worker_error_mono[of c e ctx]
  by (auto simp: handleTransitionError_def wrapWorkerOperationError_def worker_error_def)

text \<open>What the constructor guarantees to the store.\<close>

definition worker_ok :: "Worker \<Rightarrow> bool" where
  "worker_ok w \<longleftrightarrow>
     w_workerID w \<noteq> '''' \<and> text_between 1 128 (w_workerID w) \<and> 0 < w_pollInterval w \<and> 0 < w_publishTimeout w \<and>
     w_publishTimeout w < w_lockTTL w \<and> 0 < w_maxFailures w \<and> policy_ok (w_backoff w)"

lemma NewWorker_ok:
  assumes "NewWorker a b c cfg = Inr w" "int64 (wc_MaxBackoff cfg)"
  shows "worker_ok w"
  using assms rune_count_pos[of "wc_WorkerID cfg"]
  by (auto simp: NewWorker_def worker_ok_def text_between_def maxWorkerIDLength_def
      split: if_splits sum.splits dest: newBackoffPolicy_ok)

lemma settleEvent_errors:
  assumes "settleEvent postgresStore w env ev publishErr d = (Some err, obs, d')" "worker_ok w"
    "ctx_monotone env" "ev_ID ev \<noteq> ''''" "int64 (wrap64 (ev_FailedAttempts ev + 1))"
  shows "worker_error (we_ctx_run env) err \<or> errors_is err ErrLeaseLost"
proof -
  note mono = assms(3)[unfolded ctx_monotone_def]
  have step: "worker_error (we_ctx_run env) err \<or> errors_is err ErrLeaseLost"
    if te: "transition_end env ev oper msg dn call = (Some err, obs', d')"
      and call: "\<And>e x. call = (Some e, x) \<Longrightarrow> worker_error (se_parent (we_transition env)) e \<or> errors_is e ErrLeaseLost"
    for oper msg dn call obs'
    using te
  proof (cases rule: transition_end_cases)
    case (2 e)
    from handleTransitionError_class[OF call[OF 2(1)], of "we_ctx_transition env" ev oper] mono 2(2) show ?thesis
      by (auto dest: worker_error_mono)
  qed simp
  have delay: "0 < retryDelay (w_backoff w) (wrap64 (ev_FailedAttempts ev + 1))"
    using assms(2,5) by (intro retryDelay_bounds) (auto simp: worker_ok_def)
  have wid: "w_workerID w \<noteq> ''''" using assms(2) by (simp add: worker_ok_def)
  from assms(1) show ?thesis
  proof (cases rule: settleEvent_cases)
    case (shutdown c)
    then have "is_ctx_error (we_ctx_failed env) err" by (cases "we_ctx_failed env") auto
    moreover have "ctx_le (we_ctx_failed env) (we_ctx_run env)" using mono by (blast intro: ctx_le_trans)
    ultimately show ?thesis by (auto simp: worker_error_def intro: ctx_le_error)
  next
    case published
    show ?thesis by (rule step[OF published(3)]) (auto simp: postgresStore_def wid assms(4) dest: store_errors(2))
  next
    case dead
    show ?thesis by (rule step[OF dead(4)]) (auto simp: postgresStore_def wid assms(4) dest: store_errors(4))
  next
    case retry
    show ?thesis by (rule step[OF retry(4)])
        (auto simp: postgresStore_def wid assms(4) delay dest: store_errors(3))
  qed
qed

lemma int64_wrap64 [simp]: "int64 (wrap64 x)"
  unfolding int64_def wrap64_def
  using pos_mod_bound[of "2 ^ 64" "x + 2 ^ 63"] pos_mod_sign[of "2 ^ 64" "x + 2 ^ 63"] by simp

lemma runOnce_errors:
  assumes "runOnce postgresStore w env d = (Inl err, obs, d')" "worker_ok w" "ctx_monotone env"
    "outbox_inv d" "\<forall>r \<in> set (outbox_events d). ob_id r \<noteq> ''''"
  shows "worker_error (we_ctx_run env) err"
proof -
  note mono = assms(3)[unfolded ctx_monotone_def]
  obtain res d1 where cl: "ClaimNext (we_claim env) (w_workerID w) (w_lockTTL w) d = (res, d1)" by fastforce
  then have cl': "st_ClaimNext postgresStore (we_claim env) (w_workerID w) (w_lockTTL w) d = (res, d1)"
    by (simp add: postgresStore_def)
  show ?thesis
  proof (cases res)
    case (Inl e)
    with cl assms(2) have "worker_error (se_parent (we_claim env)) e"
      by (intro store_errors(1)) (auto simp: worker_ok_def)
    then have "worker_error (we_ctx_claim env) e" using mono by (blast intro: worker_error_mono)
    then have "worker_error (we_ctx_claim env) err"
      using assms(1) cl' Inl
      by (auto simp: runOnce_def wrapWorkerOperationError_def worker_error_def split: if_splits)
    moreover have "ctx_le (we_ctx_claim env) (we_ctx_run env)" using mono by (blast intro: ctx_le_trans)
    ultimately show ?thesis by (rule worker_error_mono)
  next
    case (Inr o')
    with assms(1) cl' obtain ev obs' where o': "o' = Some ev"
        and se: "settleEvent postgresStore w env ev (we_publish env ev) (we_others env d1) = (Some err, obs', d')"
        and "\<not> errors_is err ErrLeaseLost"
      by (auto simp: runOnce_def processEvent_def split: option.splits prod.splits if_splits)
    moreover from cl Inr o' assms(4) obtain r where "r \<in> set (outbox_events d)" "ev = event_of_row r"
      using ClaimNext_row by blast
    then have "ev_ID ev \<noteq> ''''" using assms(5) by (simp add: event_of_row_def)
    ultimately show ?thesis using settleEvent_errors[OF se assms(2,3)] by simp
  qed
qed

section \<open>Properties\<close>

definition sample_config :: WorkerConfig where
  "sample_config = \<lparr>wc_WorkerID = ''w1'', wc_PollInterval = 1, wc_LockTTL = 3, wc_PublishTimeout = 2,
     wc_MaxFailures = 5, wc_BaseBackoff = 1, wc_MaxBackoff = 8\<rparr>"

definition sample_worker :: Worker where
  "sample_worker = \<lparr>w_workerID = ''w1'', w_pollInterval = 1, w_lockTTL = 3, w_publishTimeout = 2,
     w_maxFailures = 5, w_backoff = \<lparr>bo_base = 1, bo_max = 8\<rparr>\<rparr>"

definition sample_work :: "store_env \<Rightarrow> goerror option \<Rightarrow> (store_env, db) work_env" where
  "sample_work cl answer = \<lparr>we_claim = cl, we_ctx_claim = Live, we_publish = (\<lambda>_. answer),
     we_publish_parent = Live, we_publish_expired = False, we_duration = 4, we_ctx_failed = Live,
     we_others = (\<lambda>d. d), we_transition = sample_env 11, we_ctx_transition = Live, we_ctx_run = Live\<rparr>"

lemma sample_worker_new: "NewWorker True True True sample_config = Inr sample_worker"
  by (simp add: NewWorker_def sample_config_def sample_worker_def newBackoffPolicy_def rune_count_ascii
      maxWorkerIDLength_def)

lemma sample_env_ok [simp]: "store_env_ok (sample_env t)"
  by (simp add: store_env_ok_def sample_env_def)


text \<open>What the answer of the publisher demands of the lease of an event: nothing when it failed and the context has
  ended meanwhile.\<close>

definition demanded :: "Worker \<Rightarrow> (store_env, db) work_env \<Rightarrow> Event \<Rightarrow> (int \<Rightarrow> lease) option" where
  "demanded w env ev =
     (case we_publish env ev of
        None \<Rightarrow> Some Delivered
      | Some _ \<Rightarrow>
          if ctx_err (we_ctx_failed env) \<noteq> None then None
          else if ev_FailedAttempts ev + 1 \<ge> w_maxFailures w then Some (\<lambda>f. Dead (f + 1))
          else Some (\<lambda>f. Waiting (f + 1)))"

definition event_settled ::
  "Worker \<Rightarrow> (store_env, db) work_env \<Rightarrow> Event \<Rightarrow> (string \<Rightarrow> lease option) \<Rightarrow> goerror + bool \<Rightarrow>
     (string \<Rightarrow> lease option) \<Rightarrow> bool" where
  "event_settled w env ev v r v' \<longleftrightarrow>
     (case demanded w env ev of
        None \<Rightarrow> v' = v \<and> r = Inl (Sentinel (the (ctx_err (we_ctx_failed env))))
      | Some final \<Rightarrow>
          (case r of
             Inr True \<Rightarrow> ended_lease final (w_workerID w) (ev_ID ev) v v'
           | Inr False \<Rightarrow> v' = v \<and> (\<nexists>f. v (ev_ID ev) = Some (Leased (w_workerID w) f))
           | Inl e \<Rightarrow> \<not> errors_is e ErrLeaseLost \<and>
               (v' = v \<or> ended_lease final (w_workerID w) (ev_ID ev) v v')))"

lemma settle_final_demanded:
  "wrap64 (ev_FailedAttempts ev + 1) = ev_FailedAttempts ev + 1 \<Longrightarrow>
     settle_final w env ev (we_publish env ev) = demanded w env ev"
  by (simp add: settle_final_def demanded_def split: option.split)

lemma settled_shutdown:
  assumes "settleEvent S w env ev (we_publish env ev) s = (err, obs, s')" "demanded w env ev = None"
  shows "err = Some (Sentinel (the (ctx_err (we_ctx_failed env))))"
  using assms by (auto simp: demanded_def settleEvent_def Let_def split: option.splits if_splits)

lemma ctx_err_not_lost [simp]: "ctx_err c \<noteq> Some ErrLeaseLost"
  by (cases c) auto

lemma event_settledI:
  assumes "settleEvent S w env ev (we_publish env ev) s = (err, obs, s')"
    "settle_outcome (demanded w env ev) (w_workerID w) (ev_ID ev) v err v'"
  shows "event_settled w env ev v
    (case err of None \<Rightarrow> Inr True | Some e \<Rightarrow> if errors_is e ErrLeaseLost then Inr False else Inl e) v'"
proof (cases "demanded w env ev")
  case None
  then obtain c where "ctx_err (we_ctx_failed env) = Some c" by (auto simp: demanded_def split: option.splits if_splits)
  with None assms(2) settled_shutdown[OF assms(1) None] show ?thesis by (auto simp: event_settled_def settle_outcome_def)
next
  case (Some final)
  with assms(2) show ?thesis by (auto simp: event_settled_def settle_outcome_def split: option.splits if_splits)
qed

text \<open>C13. One iteration of the worker on every branch. A claim that fails is reported as the end of the context, or wrapped; it
  has changed at most one lease, to one of this worker (when only the answer was lost). When nothing is due, nothing happens. A claimed event is
  leased to the worker and handed to the publisher, and its lease is ended as the publisher's answer demands: delivered
  when it was accepted; otherwise with one more failure, dead when the failures have reached the maximum and waiting for a
  retry before that; but when the publisher failed and the context has ended, the lease is left as it is and the iteration ends with the error
  of the context. An iteration that reports a processed event has done this; one that reports none has found the lease
  taken by someone else and has changed nothing; after any other error it has been done or not.\<close>

theorem worker_iteration:
  assumes "outbox_inv d" "store_env_ok (we_claim env)" "store_env_ok (we_transition env)"
    "\<forall>x. outbox_inv x \<longrightarrow> outbox_inv (we_others env x)"
    "runOnce postgresStore w env d = (r, obs, d')"
  shows "outbox_inv d' \<and>
    (case ClaimNext (we_claim env) (w_workerID w) (w_lockTTL w) d of
       (Inl e, d1) \<Rightarrow> d' = d1 \<and>
         (lease_view d' = lease_view d \<or> (\<exists>eid. took_lease (w_workerID w) eid (lease_view d) (lease_view d'))) \<and>
         r = Inl (if is_ctx_error (we_ctx_claim env) e then Sentinel (the (ctx_err (we_ctx_claim env)))
                  else WorkerOperationError OperationClaim e)
     | (Inr None, d1) \<Rightarrow> d' = d \<and> r = Inr False
     | (Inr (Some ev), d1) \<Rightarrow> took_lease (w_workerID w) (ev_ID ev) (lease_view d) (lease_view d1) \<and>
         event_settled w env ev (lease_view (we_others env d1)) r (lease_view d'))"
proof -
  obtain res d1 where cl: "ClaimNext (we_claim env) (w_workerID w) (w_lockTTL w) d = (res, d1)" by fastforce
  then have cl': "st_ClaimNext postgresStore (we_claim env) (w_workerID w) (w_lockTTL w) d = (res, d1)"
    by (simp add: postgresStore_def)
  note inv1 = pg.claim_inv[OF assms(1) cl']
  show ?thesis
  proof (cases res)
    case (Inl e)
    with assms(5) cl cl' inv1 pg.claim_err[OF assms(1,2) cl'[unfolded Inl]] show ?thesis
      by (auto simp: runOnce_def wrapWorkerOperationError_def)
  next
    case (Inr o')
    show ?thesis
    proof (cases o')
      case None
      with Inr assms(1,5) cl cl' pg.claim_none[OF assms(1,2), of "w_workerID w" "w_lockTTL w" d1] show ?thesis
        by (auto simp: runOnce_def)
    next
      case (Some ev)
      have oth: "\<And>x. outbox_inv x \<Longrightarrow> outbox_inv (we_others env x)" using assms(4) by blast
      from pg.runOnce_claimed[OF assms(1-3) oth assms(5) cl'[unfolded Inr Some]] obtain err obs' where
          r: "r = (case err of None \<Rightarrow> Inr True | Some e \<Rightarrow> if errors_is e ErrLeaseLost then Inr False else Inl e)"
          and took: "took_lease (w_workerID w) (ev_ID ev) (lease_view d) (lease_view d1)" "outbox_inv d'"
          and out: "settle_outcome (settle_final w env ev (we_publish env ev)) (w_workerID w) (ev_ID ev)
            (lease_view (we_others env d1)) err (lease_view d')"
          and se: "settleEvent postgresStore w env ev (we_publish env ev) (we_others env d1) = (err, obs', d')"
        by blast
      have dem: "settle_final w env ev (we_publish env ev) = demanded w env ev"
        by (rule settle_final_demanded) (rule event_failures(3)[OF assms(1) cl[unfolded Inr Some]])
      with took Inr Some cl event_settledI[OF se out[unfolded dem]] r show ?thesis by simp
    qed
  qed
qed

theorem worker_iteration_witness:
  "\<exists>obs d'. runOnce postgresStore sample_worker (sample_work (sample_env 10) None) sample_outbox = (Inr True, obs, d') \<and>
    (case ClaimNext (sample_env 10) ''w1'' 3 sample_outbox of
       (Inr (Some ev), d1) \<Rightarrow> took_lease ''w1'' (ev_ID ev) (lease_view sample_outbox) (lease_view d1) \<and>
         ended_lease Delivered ''w1'' (ev_ID ev) (lease_view d1) (lease_view d')
     | _ \<Rightarrow> False)"
proof -
  let ?env = "sample_work (sample_env 10) None"
  have "fst (runOnce postgresStore sample_worker ?env sample_outbox) = Inr True" by code_simp
  then obtain obs d' where run: "runOnce postgresStore sample_worker ?env sample_outbox = (Inr True, obs, d')"
    by (metis prod.collapse)
  have dem: "demanded sample_worker ?env ev = Some Delivered" for ev by (simp add: demanded_def sample_work_def)
  have env: "store_env_ok (we_claim ?env)" "store_env_ok (we_transition ?env)" "we_others ?env x = x"
    "we_claim ?env = sample_env 10" "w_workerID sample_worker = ''w1''" "w_lockTTL sample_worker = 3" for x
    by (simp_all add: sample_work_def sample_worker_def)
  from worker_iteration[OF sample_outbox_inv env(1,2) _ run] have
    "case ClaimNext (sample_env 10) ''w1'' 3 sample_outbox of
       (Inr (Some ev), d1) \<Rightarrow> took_lease ''w1'' (ev_ID ev) (lease_view sample_outbox) (lease_view d1) \<and>
         ended_lease Delivered ''w1'' (ev_ID ev) (lease_view d1) (lease_view d')
     | _ \<Rightarrow> False"
    unfolding env by (auto simp: event_settled_def dem env split: sum.splits option.splits prod.splits)
  show ?thesis by (intro exI conjI) (rule run, fact)
qed

text \<open>A run of the loop over some iterations that all let it go on: each one reported whether it processed an event, or
  failed because the store was unavailable while the context was live. The loop then waits not at all after a processed event, and the
  poll interval otherwise.\<close>

inductive polls :: "Worker \<Rightarrow> int \<Rightarrow> db \<Rightarrow> (store_env, db) work_env list \<Rightarrow> observation list \<Rightarrow> int \<Rightarrow> db \<Rightarrow> bool"
  for w :: Worker where
  polls_nil: "polls w wait d [] [] wait d"
| polls_done: "runOnce postgresStore w env d = (Inr processed, obs, d1) \<Longrightarrow>
    polls w (if processed then 0 else w_pollInterval w) d1 envs obs' wait' d' \<Longrightarrow>
    polls w wait d (env # envs) (obs @ obs') wait' d'"
| polls_unavailable: "runOnce postgresStore w env d = (Inl e, obs, d1) \<Longrightarrow> \<not> is_ctx_error (we_ctx_run env) e \<Longrightarrow>
    errors_is e ErrStoreUnavailable \<Longrightarrow> polls w (w_pollInterval w) d1 envs obs' wait' d' \<Longrightarrow>
    polls w wait d (env # envs) (obs @ obs') wait' d'"

text \<open>An iteration of the run that failed: the ones before it let the loop go on.\<close>

definition fails_at ::
  "Worker \<Rightarrow> int \<Rightarrow> db \<Rightarrow> (store_env, db) run_event list \<Rightarrow> (context_state \<Rightarrow> goerror \<Rightarrow> bool) \<Rightarrow> observation list \<Rightarrow> db \<Rightarrow> bool"
where
  "fails_at w wait d script P obs d' \<longleftrightarrow>
     (\<exists>envs env rest obs1 obs2 wait' d1 e. script = map TimerFired envs @ TimerFired env # rest \<and>
        polls w wait d envs obs1 wait' d1 \<and> runOnce postgresStore w env d1 = (Inl e, obs2, d') \<and> obs = obs1 @ obs2 \<and>
        P (we_ctx_run env) e)"

text \<open>How the loop can stand after a script: polling on at its end, returned nil for the end of the context, at the select or
  in an iteration, or returned the fatal error for an iteration whose store failed.\<close>

fun loop_ends :: "Worker \<Rightarrow> int \<Rightarrow> db \<Rightarrow> (store_env, db) run_event list \<Rightarrow> run_state \<Rightarrow> observation list \<Rightarrow> db \<Rightarrow> bool" where
  "loop_ends w wait d script (Polling wait') obs d' \<longleftrightarrow>
     (\<exists>envs. script = map TimerFired envs \<and> polls w wait d envs obs wait' d')"
| "loop_ends w wait d script (Returned None) obs d' \<longleftrightarrow>
     (\<exists>envs rest wait'. script = map TimerFired envs @ CtxDone # rest \<and> polls w wait d envs obs wait' d') \<or>
     fails_at w wait d script is_ctx_error obs d'"
| "loop_ends w wait d script (Returned (Some err)) obs d' \<longleftrightarrow> errors_is err ErrWorkerFatal \<and>
     fails_at w wait d script
       (\<lambda>ctx e. \<not> is_ctx_error ctx e \<and> \<not> errors_is e ErrStoreUnavailable \<and> errors_is e ErrStoreInternal) obs d'"

lemma fails_at_first:
  "runOnce postgresStore w env d = (Inl e, obs, d') \<Longrightarrow> P (we_ctx_run env) e \<Longrightarrow>
     fails_at w wait d (TimerFired env # script) P obs d'"
  unfolding fails_at_def
  by (rule exI[of _ "[]"], rule exI[of _ env], rule exI[of _ script], rule exI[of _ "[]"]) (auto intro: polls_nil)

text \<open>One more iteration in front of a run.\<close>

lemma fails_at_Cons:
  assumes "fails_at w wait1 d1 script P obs' d'"
    and step: "\<And>envs obs1 wait' dx. polls w wait1 d1 envs obs1 wait' dx \<Longrightarrow> polls w wait d (env # envs) (obs @ obs1) wait' dx"
  shows "fails_at w wait d (TimerFired env # script) P (obs @ obs') d'"
proof -
  from assms(1) obtain envs env' rest obs1 obs2 wait' d2 e where
    b: "script = map TimerFired envs @ TimerFired env' # rest" "polls w wait1 d1 envs obs1 wait' d2"
      "runOnce postgresStore w env' d2 = (Inl e, obs2, d')" "obs' = obs1 @ obs2" "P (we_ctx_run env') e"
    unfolding fails_at_def by blast
  then have "TimerFired env # script = map TimerFired (env # envs) @ TimerFired env' # rest"
    "obs @ obs' = (obs @ obs1) @ obs2" by simp_all
  with b(3,5) step[OF b(2)] show ?thesis unfolding fails_at_def by blast
qed

lemma loop_ends_Cons:
  assumes "loop_ends w wait1 d1 script st obs' d'"
    and step: "\<And>envs obs1 wait' dx. polls w wait1 d1 envs obs1 wait' dx \<Longrightarrow> polls w wait d (env # envs) (obs @ obs1) wait' dx"
  shows "loop_ends w wait d (TimerFired env # script) st (obs @ obs') d'"
proof (cases st)
  case (Polling wait')
  with assms(1) obtain envs where "script = map TimerFired envs" "polls w wait1 d1 envs obs' wait' d'" by auto
  with Polling step show ?thesis by (auto intro!: exI[of _ "env # envs"])
next
  case [simp]: (Returned ret)
  have front: "fails_at w wait d (TimerFired env # script) P (obs @ obs') d'" if "fails_at w wait1 d1 script P obs' d'" for P
    using fails_at_Cons[OF that step] .
  show ?thesis
  proof (cases ret)
    case (Some err)
    with assms(1) front show ?thesis by simp
  next
    case [simp]: None
    with assms(1) consider "fails_at w wait1 d1 script is_ctx_error obs' d'"
      | envs rest wait' where "script = map TimerFired envs @ CtxDone # rest" "polls w wait1 d1 envs obs' wait' d'"
      by auto
    then show ?thesis
    proof cases
      case 1
      with front show ?thesis by simp
    next
      case 2
      then have "TimerFired env # script = map TimerFired (env # envs) @ CtxDone # rest" by simp
      with step[OF 2(2)] show ?thesis unfolding Returned None loop_ends.simps by blast
    qed
  qed
qed

text \<open>What an iteration may assume: contexts that have ended stay ended, and the other workers keep the table in order.\<close>

definition iteration_ok :: "(store_env, db) work_env \<Rightarrow> bool" where
  "iteration_ok env \<longleftrightarrow> ctx_monotone env \<and> (\<forall>x. outbox_ok x \<longrightarrow> outbox_ok (we_others env x))"

lemma run_loop_ends:
  assumes "worker_ok w" "outbox_ok d" "\<forall>env. TimerFired env \<in> set script \<longrightarrow> iteration_ok env"
    "run_loop postgresStore w wait script d = (st, obs, d')"
  shows "loop_ends w wait d script st obs d'"
  using assms(2-4)
proof (induction script arbitrary: wait d obs)
  case Nil
  then show ?case by (auto intro: polls_nil)
next
  case (Cons c script)
  show ?case
  proof (cases c)
    case CtxDone
    with Cons.prems have "st = Returned None" "obs = []" "d' = d" by auto
    moreover have "c # script = map TimerFired [] @ CtxDone # script" using CtxDone by simp
    ultimately show ?thesis using polls_nil[of w wait d] by (metis loop_ends.simps(2))
  next
    case (TimerFired env)
    obtain r o1 d1 where once: "runOnce postgresStore w env d = (r, o1, d1)" by (metis prod_cases3)
    have env: "iteration_ok env" "\<forall>env. TimerFired env \<in> set script \<longrightarrow> iteration_ok env"
      using Cons.prems(2) TimerFired by auto
    have ok1: "outbox_ok d1" using runOnce_ok[OF once Cons.prems(1)] env(1) by (auto simp: iteration_ok_def)
    have go: "loop_ends w wait d (c # script) st obs d'"
      if it: "run_iteration postgresStore w env d = (Polling wait1, o1, d1)"
        and step: "\<And>envs obs1 wait' dx. polls w wait1 d1 envs obs1 wait' dx \<Longrightarrow> polls w wait d (env # envs) (o1 @ obs1) wait' dx"
      for wait1
    proof -
      from Cons.prems(3) TimerFired it obtain o2 where "run_loop postgresStore w wait1 script d1 = (st, o2, d')" "obs = o1 @ o2"
        by (auto split: prod.splits)
      with loop_ends_Cons[OF Cons.IH[OF ok1 env(2)] step] TimerFired show ?thesis by simp
    qed
    show ?thesis
    proof (cases r)
      case (Inr processed)
      with once show ?thesis by (intro go) (auto simp: run_iteration_def intro: polls_done)
    next
      case (Inl e)
      have we: "worker_error (we_ctx_run env) e"
        using runOnce_errors[OF once[unfolded Inl] assms(1)] env(1) Cons.prems(1) by (auto simp: iteration_ok_def outbox_ok_def)
      show ?thesis
      proof (cases "\<not> is_ctx_error (we_ctx_run env) e \<and> errors_is e ErrStoreUnavailable")
        case True
        with once Inl show ?thesis by (intro go) (auto simp: run_iteration_def intro: polls_unavailable)
      next
        case False
        with once Inl Cons.prems(3) TimerFired have res: "obs = o1" "d' = d1"
            "st = Returned (if is_ctx_error (we_ctx_run env) e then None
               else Some (Wrapf ''outbox worker %s operation failed: %w'' (Sentinel ErrWorkerFatal)))"
          by (auto simp: run_iteration_def split: if_splits)
        show ?thesis
          using False we res TimerFired fails_at_first[OF once[unfolded Inl]]
          by (cases "is_ctx_error (we_ctx_run env) e") (auto simp: worker_error_def)
      qed
    qed
  qed
qed

text \<open>C14. \<open>Run\<close> of a worker made by \<open>NewWorker\<close>, for every script of what its select meets: it does not start when the
  context has already ended. Otherwise it goes on as long as its iterations process events, find none, or fail
  because the store is unavailable, and then waits the poll interval, or not at all after a processed event. It returns nil exactly where
  the context ends, at the select or in an iteration; and it returns the fatal error only at an iteration that failed
  because the store failed internally: the argument checks of the store are never what fails. After it has returned it does nothing.\<close>

theorem worker_stops_only_on_failure:
  assumes "NewWorker hs hp hl cfg = Inr w" "int64 (wc_MaxBackoff cfg)" "outbox_ok d"
    "\<forall>env. TimerFired env \<in> set script \<longrightarrow> iteration_ok env"
    "Run postgresStore w ctx1 ctx2 script d = (started, st, obs, d')"
  shows "if ctx_err ctx1 \<noteq> None \<or> ctx_err ctx2 \<noteq> None
    then \<not> started \<and> st = Returned None \<and> obs = [] \<and> d' = d
    else started \<and> loop_ends w 0 d script st obs d'"
  using assms(5) run_loop_ends[OF NewWorker_ok[OF assms(1,2)] assms(3,4)]
  by (auto simp: Run_def split: if_splits)

text \<open>A store that is unavailable at first and then fails.\<close>

definition failing_work :: "string \<Rightarrow> (store_env, db) work_env" where
  "failing_work code = sample_work ((sample_env 10)\<lparr>se_fault := Some (PgError code)\<rparr>) None"

lemma failing_iteration:
  "runOnce postgresStore sample_worker (failing_work ''57P03'') sample_outbox =
     (Inl (WorkerOperationError OperationClaim (Wrapf ''claim next outbox event: %w''
        (Wrapf ''postgres outbox operation: %w'' (Sentinel ErrStoreUnavailable)))),
      [ObserveClaim ClaimOutcomeError, ObserveOperationError OperationClaim], sample_outbox)"
  "runOnce postgresStore sample_worker (failing_work ''XX000'') sample_outbox =
     (Inl (WorkerOperationError OperationClaim (Wrapf ''claim next outbox event: %w''
        (Wrapf ''postgres outbox operation: %w'' (Sentinel ErrStoreInternal)))),
      [ObserveClaim ClaimOutcomeError, ObserveOperationError OperationClaim], sample_outbox)"
  by (simp_all add: failing_work_def runOnce_def postgresStore_def ClaimNext_def pool_exec_def sample_work_def sample_env_def
      sample_worker_def outbox_map_err_def outbox_mapPostgresError_def outbox_queryContext_def
      with_timeout_cause_def isUnavailableSQLState_def wrapWorkerOperationError_def IsUnavailable_def)

theorem worker_stops_only_on_failure_witness:
  "\<exists>err obs d'. Run postgresStore sample_worker Live Live [TimerFired (failing_work ''57P03''), TimerFired (failing_work ''XX000''), CtxDone]
      sample_outbox = (True, Returned (Some err), obs, d') \<and>
    loop_ends sample_worker 0 sample_outbox [TimerFired (failing_work ''57P03''), TimerFired (failing_work ''XX000''), CtxDone]
      (Returned (Some err)) obs d'"
proof -
  let ?script = "[TimerFired (failing_work ''57P03''), TimerFired (failing_work ''XX000''), CtxDone]"
  have ctx: "we_ctx_run (failing_work code) = Live" for code by (simp add: failing_work_def sample_work_def)
  obtain err obs d' where run: "Run postgresStore sample_worker Live Live ?script sample_outbox = (True, Returned (Some err), obs, d')"
    by (simp add: Run_def run_iteration_def failing_iteration ctx)
  have "outbox_ok sample_outbox" using sample_outbox_inv by (simp add: outbox_ok_def sample_outbox_def sample_row_def)
  moreover have "iteration_ok (failing_work code)" for code
    by (simp add: iteration_ok_def failing_work_def ctx_monotone_def ctx_le_def sample_work_def sample_env_def)
  ultimately show ?thesis
    using worker_stops_only_on_failure[OF sample_worker_new _ _ _ run] run by (auto simp: sample_config_def int64_def)
qed

end
