(* ===== verification/System.thy ===== *)
theory System
  imports Claim_Machine Outbox_Worker
begin

text \<open>
  The whole system: any number of request transactions and outbox workers on one database, one
  call at a time and in any order, with failures of calls, lost acknowledgements of commits,
  crashes of requests and workers, and the two clean-up procedures of \<^verbatim>\<open>docs/runbook.md\<close>.

  The requests are those of theory \<open>Claim_Machine\<close>, the workers those of \<open>Outbox_Worker\<close>. A worker
  goes through a claim, the call to the publisher and the settlement, each a step of its own.
  Three fields of the state are observations that no code reads: the rewards for which a new claim was
  answered with 201 (\<open>sys_fresh\<close>), the events the publisher has accepted (\<open>sys_accepted\<close>), and the
  events that clean-up has removed, with their aggregate (\<open>sys_retired\<close>).

  This theory has the state, the steps, and the invariant of the requests.
\<close>

section \<open>State and steps\<close>

datatype work_pc = WIdle | WClaimed Event | WAnswered Event "goerror option"

record system =
  sys_db :: db
  sys_req :: "session \<Rightarrow> req_pc option"
  sys_work :: "go_string \<Rightarrow> work_pc"
  sys_fresh :: "(go_string \<times> go_string \<times> go_string) list"
  sys_accepted :: "string set"
  sys_retired :: "(string \<times> string) set"

definition fresh_created :: "goerror + CreateClaimResult \<Rightarrow> bool" where
  "fresh_created r =
     (case r of Inl _ \<Rightarrow> False | Inr res \<Rightarrow> res_StatusCode res = createClaimStatusCreated \<and> \<not> res_Replayed res)"

definition fresh_of :: "goerror + CreateClaimResult \<Rightarrow> createClaimParams \<Rightarrow> (go_string \<times> go_string \<times> go_string) list" where
  "fresh_of r p = (if fresh_created r then [par_identity p] else [])"

definition expire_keys :: "(idem_row \<Rightarrow> bool) \<Rightarrow> db \<Rightarrow> db" where
  "expire_keys sel d = d\<lparr>idem_keys :=
     filter (\<lambda>r. \<not> (ik_owner r = None \<and> ik_response_status r \<noteq> None \<and> sel r)) (idem_keys d)\<rparr>"

definition retirable :: "(outbox_row \<Rightarrow> bool) \<Rightarrow> outbox_row \<Rightarrow> bool" where
  "retirable sel r \<longleftrightarrow> ob_owner r = None \<and> ob_status r = Published \<and> sel r"

definition retire_events :: "(outbox_row \<Rightarrow> bool) \<Rightarrow> db \<Rightarrow> db" where
  "retire_events sel d = d\<lparr>outbox_events := filter (\<lambda>r. \<not> retirable sel r) (outbox_events d)\<rparr>"

inductive sys_step :: "(go_string \<Rightarrow> Worker) \<Rightarrow> system \<Rightarrow> system \<Rightarrow> bool"
  for W :: "go_string \<Rightarrow> Worker" where
  req_begin:
    "\<lbrakk>sys_req s sid = None; tx_sid tx = sid; prepareCreateClaim cmd = Inr p\<rbrakk> \<Longrightarrow>
     sys_step W s (s\<lparr>sys_req := (sys_req s)(sid \<mapsto> RBegun tx p)\<rparr>)"
| req_call:
    "\<lbrakk>sys_req s sid = Some pc; calm tk; req_next tk pc (sys_db s) = Some (Continue pc', d')\<rbrakk> \<Longrightarrow>
     sys_step W s (s\<lparr>sys_db := d', sys_req := (sys_req s)(sid \<mapsto> pc')\<rparr>)"
| req_end:
    "\<lbrakk>sys_req s sid = Some pc; calm tk; req_next tk pc (sys_db s) = Some (Finish r, d')\<rbrakk> \<Longrightarrow>
     sys_step W s (s\<lparr>sys_db := d', sys_req := (sys_req s)(sid := None),
       sys_fresh := sys_fresh s @ fresh_of r (req_params pc)\<rparr>)"
| req_crash:
    "sys_req s sid = Some pc \<Longrightarrow>
     sys_step W s (s\<lparr>sys_db := rollback_rows sid (sys_db s), sys_req := (sys_req s)(sid := None)\<rparr>)"
| work_claim:
    "\<lbrakk>sys_work s w = WIdle; store_env_ok env; ClaimNext env w (w_lockTTL (W w)) (sys_db s) = (res, d')\<rbrakk> \<Longrightarrow>
     sys_step W s (s\<lparr>sys_db := d', sys_work := (sys_work s)(w :=
       (case res of Inr (Some ev) \<Rightarrow> WClaimed ev | _ \<Rightarrow> WIdle))\<rparr>)"
| work_publish:
    "\<lbrakk>sys_work s w = WClaimed ev; answer = None \<longrightarrow> taken\<rbrakk> \<Longrightarrow>
     sys_step W s (s\<lparr>sys_work := (sys_work s)(w := WAnswered ev answer),
       sys_accepted := (if taken then insert (ev_ID ev) (sys_accepted s) else sys_accepted s)\<rparr>)"
| work_settle:
    "\<lbrakk>sys_work s w = WAnswered ev answer; store_env_ok (we_transition env);
      settleEvent postgresStore (W w) env ev answer (sys_db s) = (err, obs, d')\<rbrakk> \<Longrightarrow>
     sys_step W s (s\<lparr>sys_db := d', sys_work := (sys_work s)(w := WIdle)\<rparr>)"
| work_crash:
    "sys_step W s (s\<lparr>sys_work := (sys_work s)(w := WIdle)\<rparr>)"
| cleanup_keys:
    "sys_step W s (s\<lparr>sys_db := expire_keys sel (sys_db s)\<rparr>)"
| cleanup_events:
    "sys_step W s (s\<lparr>sys_db := retire_events sel (sys_db s),
       sys_retired := sys_retired s \<union>
         (\<lambda>r. (ob_id r, ob_aggregate_id r)) ` {r \<in> set (outbox_events (sys_db s)). retirable sel r}\<rparr>)"

definition sys_init :: "system \<Rightarrow> bool" where
  "sys_init s \<longleftrightarrow> sys_db s = empty_db \<and> (\<forall>sid. sys_req s sid = None) \<and> (\<forall>w. sys_work s w = WIdle) \<and>
     sys_fresh s = [] \<and> sys_accepted s = {} \<and> sys_retired s = {}"

section \<open>The database by owner\<close>

definition claims_of :: "session option \<Rightarrow> db \<Rightarrow> claim_row list" where
  "claims_of ow d = filter (\<lambda>r. rc_owner r = ow) (reward_claims d)"

definition keys_of :: "session option \<Rightarrow> db \<Rightarrow> idem_row list" where
  "keys_of ow d = filter (\<lambda>r. ik_owner r = ow) (idem_keys d)"

definition events_of :: "session option \<Rightarrow> db \<Rightarrow> outbox_row list" where
  "events_of ow d = filter (\<lambda>r. ob_owner r = ow) (outbox_events d)"

lemmas of_defs = claims_of_def keys_of_def events_of_def

definition frame :: "session \<Rightarrow> db \<Rightarrow> db \<Rightarrow> bool" where
  "frame sid d d' \<longleftrightarrow> (\<forall>ow. ow \<noteq> Some sid \<longrightarrow>
     claims_of ow d' = claims_of ow d \<and> keys_of ow d' = keys_of ow d \<and> events_of ow d' = events_of ow d)"

definition unique_rows :: "db \<Rightarrow> bool" where
  "unique_rows d \<longleftrightarrow> unique_keys d \<and> distinct (map rc_identity (reward_claims d)) \<and>
     distinct (map rc_id (reward_claims d)) \<and> outbox_inv d"

lemma frame_refl [simp]: "frame sid d d"
  by (simp add: frame_def)

lemma frame_append:
  "rc_owner c = Some sid \<Longrightarrow> frame sid d (d\<lparr>reward_claims := reward_claims d @ [c]\<rparr>)"
  "ik_owner k = Some sid \<Longrightarrow> frame sid d (d\<lparr>idem_keys := idem_keys d @ [k]\<rparr>)"
  "ob_owner b = Some sid \<Longrightarrow> frame sid d (d\<lparr>outbox_events := outbox_events d @ [b]\<rparr>)"
  by (auto simp: frame_def of_defs)

lemma frame_rollback: "frame sid d (rollback_rows sid d)"
  by (auto simp: frame_def of_defs rollback_rows_def filter_filter intro!: filter_cong)

lemma own_rollback [simp]:
  "claims_of (Some sid) (rollback_rows sid d) = []" "keys_of (Some sid) (rollback_rows sid d) = []"
  "events_of (Some sid) (rollback_rows sid d) = []"
  by (auto simp: of_defs rollback_rows_def filter_empty_conv)

lemma own_append [simp]:
  "claims_of ow (d\<lparr>reward_claims := reward_claims d @ [c]\<rparr>) = claims_of ow d @ (if rc_owner c = ow then [c] else [])"
  "keys_of ow (d\<lparr>idem_keys := idem_keys d @ [k]\<rparr>) = keys_of ow d @ (if ik_owner k = ow then [k] else [])"
  "events_of ow (d\<lparr>outbox_events := outbox_events d @ [b]\<rparr>) = events_of ow d @ (if ob_owner b = ow then [b] else [])"
  "claims_of ow (d\<lparr>idem_keys := ks\<rparr>) = claims_of ow d" "claims_of ow (d\<lparr>outbox_events := bs\<rparr>) = claims_of ow d"
  "keys_of ow (d\<lparr>reward_claims := cs\<rparr>) = keys_of ow d" "keys_of ow (d\<lparr>outbox_events := bs\<rparr>) = keys_of ow d"
  "events_of ow (d\<lparr>reward_claims := cs\<rparr>) = events_of ow d" "events_of ow (d\<lparr>idem_keys := ks\<rparr>) = events_of ow d"
  by (auto simp: of_defs)

lemma unique_rows_rollback: "unique_rows d \<Longrightarrow> unique_rows (rollback_rows sid d)"
  by (auto simp: unique_rows_def unique_keys_def outbox_inv_def rollback_rows_def)

lemma outbox_row_chk_owner [simp]: "outbox_row_chk (r\<lparr>ob_owner := w\<rparr>) = outbox_row_chk r"
  by (simp add: outbox_row_chk_def failure_state_chk_def processing_lock_chk_def)

lemma unique_rows_commit: "unique_rows d \<Longrightarrow> unique_rows (commit_rows sid d)"
  unfolding unique_rows_def unique_keys_def outbox_inv_def commit_rows_columns
  by (auto simp: commit_rows_def)

lemma own_commit:
  "claims_of (Some sid) (commit_rows sid d) = []" "keys_of (Some sid) (commit_rows sid d) = []"
  "events_of (Some sid) (commit_rows sid d) = []"
  by (auto simp: of_defs commit_rows_def filter_empty_conv)

lemma commit_committed:
  "set (claims_of None (commit_rows sid d)) =
     set (claims_of None d) \<union> (\<lambda>r. r\<lparr>rc_owner := None\<rparr>) ` set (claims_of (Some sid) d)"
  "set (keys_of None (commit_rows sid d)) =
     set (keys_of None d) \<union> (\<lambda>r. r\<lparr>ik_owner := None\<rparr>) ` set (keys_of (Some sid) d)"
  "set (events_of None (commit_rows sid d)) =
     set (events_of None d) \<union> (\<lambda>r. r\<lparr>ob_owner := None\<rparr>) ` set (events_of (Some sid) d)"
  by (auto simp: of_defs commit_rows_def image_iff)

lemma commit_others:
  assumes "s' \<noteq> sid"
  shows "claims_of (Some s') (commit_rows sid d) = claims_of (Some s') d"
    "keys_of (Some s') (commit_rows sid d) = keys_of (Some s') d"
    "events_of (Some s') (commit_rows sid d) = events_of (Some s') d"
proof -
  have gen: "filter P (map f xs) = filter P xs" if "\<And>x. P (f x) = P x" "\<And>x. P x \<Longrightarrow> f x = x" for P and f :: "'r \<Rightarrow> 'r" and xs
    using that by (induction xs) auto
  show "claims_of (Some s') (commit_rows sid d) = claims_of (Some s') d"
    "keys_of (Some s') (commit_rows sid d) = keys_of (Some s') d"
    "events_of (Some s') (commit_rows sid d) = events_of (Some s') d"
    using assms by (auto simp: of_defs commit_rows_def intro!: gen split: if_splits)
qed

section \<open>The effect of each driver call\<close>

definition answered_row :: "idem_row \<Rightarrow> bool" where
  "answered_row k =
     (case (ik_response_status k, ik_response_body k) of
        (Some st, Some b) \<Rightarrow> (st = 201 \<or> st = 409) \<and> valid_string b \<and> json_valid b \<and> b \<noteq> []
      | _ \<Rightarrow> False)"

definition new_event :: "tx \<Rightarrow> outbox_row \<Rightarrow> bool" where
  "new_event tx b \<longleftrightarrow> ob_aggregate_id b = newUUIDV4 (tx_rand_claim tx) \<and> ob_status b = Pending \<and>
     ob_failed_attempts b = 0 \<and> ob_owner b = Some (tx_sid tx)"

lemma calm_stmt:
  "calm tk \<Longrightarrow> run_stmt st tk d = Some (r, d') \<Longrightarrow>
     (\<exists>e. r = Inl e \<and> d' = d) \<or> (\<exists>x. r = Inr x \<and> st d = Done x d')"
  by (auto simp: run_stmt_def calm_def split: option.splits stmt.splits)

lemma reserve_effect:
  assumes "calm tk" "tryReserveIdempotencyKey tx p tk d = Some (r, d')"
  obtains e where "r = Inl e" "d' = d" | "r = Inr False" "d' = d"
    | "r = Inr True" "key_free p d" "d' = d\<lparr>idem_keys := idem_keys d @ [reserved_row tx p]\<rparr>"
proof -
  consider e where "r = Inl e" "d' = d" | n where "r = Inr (n = 1)" "sql_reserve tx p d = Done n d'"
    using assms(2) calm_stmt[OF assms(1), of "sql_reserve tx p" d]
    by (auto simp: tryReserveIdempotencyKey_def split: option.splits sum.splits)
  then show ?thesis
  proof cases
    case 2
    then have "(n = 0 \<and> d' = d) \<or>
        (n = 1 \<and> key_free p d \<and> d' = d\<lparr>idem_keys := idem_keys d @ [reserved_row tx p]\<rparr>)"
      by (auto simp: sql_reserve_def find_None_conv key_free_def split: option.splits if_splits)
    with 2 that(2,3) show ?thesis by auto
  qed (rule that(1))
qed

lemma load_effect:
  assumes "calm tk" "tryLoadIdempotentClaimResult tx p tk d = Some (r, d')"
  shows "d' = d" and "r = Inr (Some res) \<Longrightarrow> res_Replayed res"
proof -
  show "d' = d" using assms(2) calm_stmt[OF assms(1), of "sql_load tx p" d]
    by (auto simp: tryLoadIdempotentClaimResult_def sql_load_def split: option.splits sum.splits if_splits)
  show "r = Inr (Some res) \<Longrightarrow> res_Replayed res" using assms(2)
    by (auto simp: tryLoadIdempotentClaimResult_def check_stored_def split: option.splits sum.splits if_splits)
qed

lemma insert_effect:
  assumes "calm tk" "tryInsertClaim tx p tk d = Some (r, d')"
  obtains e where "r = Inl e" "d' = d" | "r = Inr None" "d' = d"
    | "r = Inr (Some (new_claim tx p))" "identity_free p d"
      "\<forall>c \<in> set (reward_claims d). rc_id c \<noteq> newUUIDV4 (tx_rand_claim tx)"
      "d' = d\<lparr>reward_claims := reward_claims d @ [inserted_claim_row tx p]\<rparr>"
proof -
  consider e where "r = Inl e" "d' = d" | "r = Inr None" "d' = d"
    | x where "r = Inr (Some (claim_of_row x))" "sql_insert_claim tx p d = Done x d'"
    using assms(2) calm_stmt[OF assms(1), of "sql_insert_claim tx p" d]
    by (auto simp: tryInsertClaim_def split: option.splits sum.splits if_splits)
  then show ?thesis
  proof cases
    case 3
    then have "x = inserted_claim_row tx p \<and> identity_free p d \<and>
        (\<forall>c \<in> set (reward_claims d). rc_id c \<noteq> newUUIDV4 (tx_rand_claim tx)) \<and>
        d' = d\<lparr>reward_claims := reward_claims d @ [inserted_claim_row tx p]\<rparr>"
      by (auto simp: sql_insert_claim_def Let_def find_None_conv identity_free_def
          split: option.splits if_splits)
    with 3 that(3) show ?thesis by (simp add: new_claim_def)
  qed (rule that(1) that(2); assumption)+
qed

lemma event_effect:
  assumes "calm tk" "insertEvent_call tx (new_claim tx p) payload tk d = Some (r, d')"
  obtains e where "r = Inl e" "d' = d"
    | b where "r = Inr ()" "d' = d\<lparr>outbox_events := outbox_events d @ [b]\<rparr>" "new_event tx b" "outbox_row_chk b"
      "\<forall>x \<in> set (outbox_events d). ob_id x \<noteq> ob_id b"
proof -
  consider e where "r = Inl e" "d' = d"
    | "r = Inr ()" "sql_insert_outbox tx (new_claim tx p) (event_id tx) payload d = Done () d'"
    using assms(2) calm_stmt[OF assms(1), of "sql_insert_outbox tx (new_claim tx p) (event_id tx) payload" d]
    by (auto simp: insertEvent_call_def split: option.splits sum.splits)
  then show ?thesis
  proof cases
    case 2
    then obtain stored where "d' = d\<lparr>outbox_events := outbox_events d @ [inserted_outbox_row tx (new_claim tx p) (event_id tx) stored]\<rparr>"
        "outbox_row_chk (inserted_outbox_row tx (new_claim tx p) (event_id tx) stored)"
        "\<forall>x \<in> set (outbox_events d). ob_id x \<noteq> ob_id (inserted_outbox_row tx (new_claim tx p) (event_id tx) stored)"
      by (auto simp: sql_insert_outbox_def Let_def find_None_conv split: option.splits if_splits)
    moreover have "new_event tx (inserted_outbox_row tx (new_claim tx p) (event_id tx) stored)"
      by (simp add: new_event_def inserted_outbox_row_def)
    ultimately show ?thesis using 2 that(2) by blast
  qed (use that(1) in blast)
qed

lemma complete_effect:
  assumes "calm tk" "completeIdempotencyKey tx p st b c tk d = Some (r, d')"
  shows "d' = d \<or> d' = d\<lparr>idem_keys := map (\<lambda>r. if open_row tx p r then completed_row st b c r else r) (idem_keys d)\<rparr>"
    and "r = Inr () \<Longrightarrow> d' = d\<lparr>idem_keys := map (\<lambda>r. if open_row tx p r then completed_row st b c r else r) (idem_keys d)\<rparr>"
  using assms(2) calm_stmt[OF assms(1), of "sql_complete tx p st b c" d]
  by (auto simp: completeIdempotencyKey_def sql_complete_def Let_def split: option.splits sum.splits if_splits)

lemma answered_not_open: "answered_row k \<Longrightarrow> \<not> open_row tx p k"
  by (auto simp: answered_row_def open_row_def split: option.splits)

lemma keys_of_map:
  assumes "\<And>r. ik_owner (f r) = ik_owner r"
  shows "keys_of ow (d\<lparr>idem_keys := map f (idem_keys d)\<rparr>) = map f (keys_of ow d)"
  unfolding keys_of_def by (simp add: filter_map comp_def assms)

lemma complete_frame:
  fixes tx :: tx and p :: createClaimParams and st :: int and b :: go_string and c :: string
  assumes "\<forall>k \<in> set (keys_of None d). answered_row k"
  defines "f \<equiv> \<lambda>r. if open_row tx p r then completed_row st b c r else r"
  shows "frame (tx_sid tx) d (d\<lparr>idem_keys := map f (idem_keys d)\<rparr>)"
    and "keys_of (Some (tx_sid tx)) d = [reserved_row tx p] \<Longrightarrow>
      keys_of (Some (tx_sid tx)) (d\<lparr>idem_keys := map f (idem_keys d)\<rparr>) = [completed_row st b c (reserved_row tx p)]"
    and "unique_rows d \<Longrightarrow> unique_rows (d\<lparr>idem_keys := map f (idem_keys d)\<rparr>)"
proof -
  have own: "ik_owner (f r) = ik_owner r" for r by (simp add: f_def)
  have "map f (keys_of ow d) = keys_of ow d" if "ow \<noteq> Some (tx_sid tx)" for ow
  proof (rule map_idI)
    fix r
    assume "r \<in> set (keys_of ow d)"
    then have "ik_owner r = ow" by (simp add: keys_of_def)
    then have "\<not> open_row tx p r"
      using that assms(1) \<open>r \<in> set (keys_of ow d)\<close> answered_not_open
      by (cases ow) (auto simp: open_row_def)
    then show "f r = r" by (simp add: f_def)
  qed
  then show "frame (tx_sid tx) d (d\<lparr>idem_keys := map f (idem_keys d)\<rparr>)"
    by (simp add: frame_def keys_of_map[of f, OF own])
  show "keys_of (Some (tx_sid tx)) d = [reserved_row tx p] \<Longrightarrow>
      keys_of (Some (tx_sid tx)) (d\<lparr>idem_keys := map f (idem_keys d)\<rparr>) = [completed_row st b c (reserved_row tx p)]"
    by (simp add: keys_of_map[of f, OF own]) (simp add: f_def)
  have "ik_key_hash (f r) = ik_key_hash r" for r by (simp add: f_def)
  then show "unique_rows d \<Longrightarrow> unique_rows (d\<lparr>idem_keys := map f (idem_keys d)\<rparr>)"
    by (simp add: unique_rows_def unique_keys_def outbox_inv_def comp_def)
qed

section \<open>The invariant of the requests\<close>

definition owns :: "session \<Rightarrow> idem_row list \<Rightarrow> claim_row list \<Rightarrow> outbox_row list \<Rightarrow> db \<Rightarrow> bool" where
  "owns sid ks cs bs d \<longleftrightarrow>
     keys_of (Some sid) d = ks \<and> claims_of (Some sid) d = cs \<and> events_of (Some sid) d = bs"

lemma answered_completed:
  assumes "st = 201 \<or> st = 409" "valid_string b" "json_valid b" "b \<noteq> []"
  shows "answered_row (completed_row st b c r)"
  using assms by (auto simp: answered_row_def completed_row_def)

text \<open>A key row with the response that a request is about to return.\<close>

definition key_answers :: "createClaimParams \<Rightarrow> CreateClaimResult \<Rightarrow> idem_row \<Rightarrow> bool" where
  "key_answers p r k \<longleftrightarrow> answered_row k \<and> ik_key_hash k = par_KeyHash p \<and> check_stored p k = Inr (r\<lparr>res_Replayed := True\<rparr>)"

lemma key_answers_completed:
  assumes "st = 201 \<or> st = 409" "valid_string b" "json_valid b" "b \<noteq> []"
  shows "key_answers p \<lparr>res_StatusCode = st, res_ResponseBody = b, res_Replayed = x\<rparr> (completed_row st b c (reserved_row tx p))"
  using answered_completed[OF assms] check_stored_completed[OF assms] by (simp add: key_answers_def)

text \<open>The uncommitted rows of a request, by its program counter.\<close>

fun pc_owns :: "req_pc \<Rightarrow> db \<Rightarrow> bool" where
  "pc_owns (RBegun tx p) d \<longleftrightarrow> owns (tx_sid tx) [] [] [] d"
| "pc_owns (RLoading tx p) d \<longleftrightarrow> owns (tx_sid tx) [] [] [] d"
| "pc_owns (RReserved tx p) d \<longleftrightarrow> owns (tx_sid tx) [reserved_row tx p] [] [] d"
| "pc_owns (RDuplicate tx p) d \<longleftrightarrow> owns (tx_sid tx) [reserved_row tx p] [] [] d"
| "pc_owns (RInserted tx p c) d \<longleftrightarrow> c = new_claim tx p \<and>
     owns (tx_sid tx) [reserved_row tx p] [inserted_claim_row tx p] [] d"
| "pc_owns (REvent tx p c) d \<longleftrightarrow> c = new_claim tx p \<and> (\<exists>b. new_event tx b \<and>
     owns (tx_sid tx) [reserved_row tx p] [inserted_claim_row tx p] [b] d)"
| "pc_owns (RReady tx p r) d \<longleftrightarrow>
     (if res_Replayed r then owns (tx_sid tx) [] [] [] d
      else (\<exists>k. key_answers p r k \<and>
        (if res_StatusCode r = createClaimStatusCreated
         then (\<exists>b. new_event tx b \<and> owns (tx_sid tx) [k] [inserted_claim_row tx p] [b] d)
         else owns (tx_sid tx) [k] [] [] d)))"

lemma pc_owns_cong:
  assumes "\<And>ks cs bs. owns (tx_sid (req_tx pc)) ks cs bs d' = owns (tx_sid (req_tx pc)) ks cs bs d"
  shows "pc_owns pc d' = pc_owns pc d"
  using assms by (cases pc) simp_all

lemma owns_frame: "frame sid d d' \<Longrightarrow> sid' \<noteq> sid \<Longrightarrow> owns sid' ks cs bs d' = owns sid' ks cs bs d"
  by (simp add: frame_def owns_def)

lemma owns_rollback [simp]: "owns sid [] [] [] (rollback_rows sid d)"
  by (simp add: owns_def)

text \<open>What is committed: every key has its response, every claim has its event, or had one that was
  published and retired.\<close>

definition committed_ok :: "(string \<times> string) set \<Rightarrow> db \<Rightarrow> bool" where
  "committed_ok retired d \<longleftrightarrow>
     (\<forall>k \<in> set (keys_of None d). answered_row k) \<and>
     (\<forall>c \<in> set (claims_of None d). rc_id c \<in> snd ` retired \<or>
        (\<exists>b \<in> set (events_of None d). ob_aggregate_id b = rc_id c))"

lemma committed_ok_frame: "frame sid d d' \<Longrightarrow> committed_ok retired d' = committed_ok retired d"
  by (simp add: frame_def committed_ok_def)

definition stepped :: "req_pc \<Rightarrow> db \<Rightarrow> req_state \<Rightarrow> db \<Rightarrow> bool" where
  "stepped pc d st d' \<longleftrightarrow> frame (tx_sid (req_tx pc)) d d' \<and> unique_rows d' \<and>
     (case st of
        Continue pc' \<Rightarrow> req_tx pc' = req_tx pc \<and> req_params pc' = req_params pc \<and> pc_owns pc' d'
      | Finish r \<Rightarrow> (\<exists>e. r = Inl e) \<and> owns (tx_sid (req_tx pc)) [] [] [] d')"

lemma frame_rollback_after: "frame sid d d1 \<Longrightarrow> frame sid d (rollback_rows sid d1)"
  using frame_rollback[of sid d1] by (simp add: frame_def)

text \<open>One rule for every call before the commit: look at the call.\<close>

definition call_ok :: "req_pc \<Rightarrow> db \<Rightarrow> ('a \<Rightarrow> req_state) \<Rightarrow> goerror + 'a \<Rightarrow> db \<Rightarrow> bool" where
  "call_ok pc d nxt r d1 \<longleftrightarrow> frame (tx_sid (req_tx pc)) d d1 \<and> unique_rows d1 \<and>
     (case r of
        Inl e \<Rightarrow> True
      | Inr x \<Rightarrow>
          (case nxt x of
             Continue pc' \<Rightarrow> req_tx pc' = req_tx pc \<and> req_params pc' = req_params pc \<and> pc_owns pc' d1
           | Finish r' \<Rightarrow> \<exists>e. r' = Inl e))"

lemma stepped_advance:
  assumes "advance (req_tx pc) (c tk d) nxt = Some (st, d')"
    and "\<And>r d1. c tk d = Some (r, d1) \<Longrightarrow> call_ok pc d nxt r d1"
  shows "stepped pc d st d'"
proof -
  from assms(1) obtain r d1 where c: "c tk d = Some (r, d1)"
    by (auto simp: advance_def split: option.splits)
  from assms(2)[OF this] assms(1) c show ?thesis
    by (auto simp: advance_def stepped_def call_ok_def unique_rows_rollback frame_rollback_after
        split: sum.splits req_state.splits)
qed

lemma unique_rows_appends:
  assumes "unique_rows d"
  shows "key_free p d \<Longrightarrow> unique_rows (d\<lparr>idem_keys := idem_keys d @ [reserved_row tx p]\<rparr>)"
    and "identity_free p d \<Longrightarrow> \<forall>c \<in> set (reward_claims d). rc_id c \<noteq> newUUIDV4 (tx_rand_claim tx) \<Longrightarrow>
      unique_rows (d\<lparr>reward_claims := reward_claims d @ [inserted_claim_row tx p]\<rparr>)"
    and "outbox_row_chk b \<Longrightarrow> \<forall>x \<in> set (outbox_events d). ob_id x \<noteq> ob_id b \<Longrightarrow>
      unique_rows (d\<lparr>outbox_events := outbox_events d @ [b]\<rparr>)"
  using assms by (auto simp: unique_rows_def unique_keys_def outbox_inv_def key_free_def identity_free_def)

lemma duplicate_stepped:
  assumes "calm tk" "unique_rows d" "committed_ok retired d" "pc_owns pc d" "pc = RDuplicate tx p" "req_next tk pc d = Some (st, d')"
    and fin: "key_answers p conflict_result (completed_row createClaimStatusConflict marshalDuplicateClaimResponse '''' (reserved_row tx p))"
  shows "stepped pc d st d'"
proof (rule stepped_advance[of pc "completeIdempotencyKey tx p createClaimStatusConflict marshalDuplicateClaimResponse ''''"])
  fix r d1
  assume "completeIdempotencyKey tx p createClaimStatusConflict marshalDuplicateClaimResponse '''' tk d = Some (r, d1)"
  note eff = complete_effect[OF assms(1) this]
  note fr = complete_frame[of d tx p createClaimStatusConflict marshalDuplicateClaimResponse "''''"]
  show "call_ok pc d (\<lambda>x. Continue (RReady tx p conflict_result)) r d1"
    using eff fr assms(2-5) fin
    by (auto simp: call_ok_def committed_ok_def owns_def conflict_result_def createClaimStatusConflict_def
        createClaimStatusCreated_def split: sum.split)
qed (use assms(5,6) in simp)

lemma created_stepped:
  assumes "calm tk" "unique_rows d" "committed_ok retired d" "pc_owns pc d" "pc = REvent tx p c" "req_next tk pc d = Some (st, d')"
    and fin: "key_answers p \<lparr>res_StatusCode = createClaimStatusCreated, res_ResponseBody = marshalCreatedClaimResponse c,
      res_Replayed = False\<rparr> (completed_row createClaimStatusCreated (marshalCreatedClaimResponse c) (cl_ID c) (reserved_row tx p))"
  shows "stepped pc d st d'"
proof (rule stepped_advance[of pc "completeIdempotencyKey tx p createClaimStatusCreated (marshalCreatedClaimResponse c) (cl_ID c)"])
  fix r d1
  assume "completeIdempotencyKey tx p createClaimStatusCreated (marshalCreatedClaimResponse c) (cl_ID c) tk d = Some (r, d1)"
  note eff = complete_effect[OF assms(1) this]
  note fr = complete_frame[of d tx p createClaimStatusCreated "marshalCreatedClaimResponse c" "cl_ID c"]
  show "call_ok pc d (\<lambda>x. Continue (RReady tx p \<lparr>res_StatusCode = createClaimStatusCreated,
      res_ResponseBody = marshalCreatedClaimResponse c, res_Replayed = False\<rparr>)) r d1"
    using eff fr assms(2-5) fin by (auto simp: call_ok_def committed_ok_def owns_def split: sum.split)
qed (use assms(5,6) in simp)

lemma req_next_stepped:
  assumes "calm tk" "unique_rows d" "committed_ok retired d" "pc_owns pc d"
    "req_next tk pc d = Some (st, d')" "\<forall>tx p r. pc \<noteq> RReady tx p r"
  shows "stepped pc d st d'"
proof (cases pc)
  case (RBegun tx p)
  show ?thesis
  proof (rule stepped_advance[of pc "tryReserveIdempotencyKey tx p"])
    fix r d1
    assume "tryReserveIdempotencyKey tx p tk d = Some (r, d1)"
    with assms(1) show "call_ok pc d (\<lambda>x. Continue (if x then RReserved tx p else RLoading tx p)) r d1"
      using assms(2,4) RBegun
      by (cases rule: reserve_effect) (auto simp: call_ok_def frame_append unique_rows_appends owns_def)
  qed (use assms(5) RBegun in simp)
next
  case (RLoading tx p)
  show ?thesis
  proof (rule stepped_advance[of pc "tryLoadIdempotentClaimResult tx p"])
    fix r d1
    assume "tryLoadIdempotentClaimResult tx p tk d = Some (r, d1)"
    from load_effect[OF assms(1) this] show "call_ok pc d (\<lambda>x. Continue (case x of None \<Rightarrow> RBegun tx p | Some r \<Rightarrow> RReady tx p r)) r d1"
      using assms(2,4) RLoading by (auto simp: call_ok_def split: sum.split option.split)
  qed (use assms(5) RLoading in simp)
next
  case (RReserved tx p)
  show ?thesis
  proof (rule stepped_advance[of pc "tryInsertClaim tx p"])
    fix r d1
    assume "tryInsertClaim tx p tk d = Some (r, d1)"
    with assms(1) show "call_ok pc d (\<lambda>x. (case x of None \<Rightarrow> Continue (RDuplicate tx p) | Some c \<Rightarrow> (case marshal_event (event_id tx) c of None \<Rightarrow> Finish (Inl (Wrapf ''marshal reward claimed outbox payload: %w'' (Sentinel RewardsErrInternal))) | Some _ \<Rightarrow> Continue (RInserted tx p c)))) r d1"
      using assms(2,4) RReserved
      by (cases rule: insert_effect) (auto simp: call_ok_def frame_append unique_rows_appends owns_def split: option.split)
  qed (use assms(5) RReserved in simp)
next
  case (RDuplicate tx p)
  have "key_answers p conflict_result (completed_row createClaimStatusConflict marshalDuplicateClaimResponse '''' (reserved_row tx p))"
    unfolding conflict_result_def by (rule key_answers_completed) (simp_all add: createClaimStatusConflict_def marshalDuplicateClaimResponse_valid)
  from duplicate_stepped[OF assms(1-4) RDuplicate assms(5) this] show ?thesis .
next
  case (RInserted tx p c)
  show ?thesis
  proof (rule stepped_advance[of pc "insertEvent_call tx c (the (marshal_event (event_id tx) c))"])
    fix r d1
    assume "insertEvent_call tx c (the (marshal_event (event_id tx) c)) tk d = Some (r, d1)"
    then have "insertEvent_call tx (new_claim tx p) (the (marshal_event (event_id tx) c)) tk d = Some (r, d1)"
      using assms(4) RInserted by simp
    with assms(1) show "call_ok pc d (\<lambda>x. Continue (REvent tx p c)) r d1"
      using assms(2,4) RInserted
      by (cases rule: event_effect) (auto simp: call_ok_def frame_append unique_rows_appends owns_def new_event_def)
  qed (use assms(5) RInserted in simp)
next
  case (REvent tx p c)
  have "key_answers p \<lparr>res_StatusCode = createClaimStatusCreated, res_ResponseBody = marshalCreatedClaimResponse c,
      res_Replayed = False\<rparr> (completed_row createClaimStatusCreated (marshalCreatedClaimResponse c) (cl_ID c) (reserved_row tx p))"
    by (rule key_answers_completed) (simp_all add: createClaimStatusCreated_def marshalCreatedClaimResponse_valid)
  from created_stepped[OF assms(1-4) REvent assms(5) this] show ?thesis .
qed (use assms(6) in blast)

section \<open>The commit\<close>

lemma rollback_commit: "rollback_rows sid (commit_rows sid d) = commit_rows sid d"
  by (rule idle_session_rollback) (auto simp: idle_session_def commit_rows_def)

lemma req_next_ready:
  assumes "calm tk" "req_next tk (RReady tx p r) d = Some (st, d')"
  obtains (returned) "st = Finish (Inr r)" "d' = commit_rows (tx_sid tx) d"
    | (landed) e where "st = Finish (Inl e)" "d' = commit_rows (tx_sid tx) d"
    | (lost) e where "st = Finish (Inl e)" "d' = rollback_rows (tx_sid tx) d"
  using assms
  by (auto simp: advance_def tx_commit_def calm_def Let_def rollback_commit split: option.splits if_splits)

lemma commit_ok:
  assumes "committed_ok retired d" "pc_owns (RReady tx p r) d"
  shows "committed_ok retired (commit_rows (tx_sid tx) d)"
proof -
  have keys: "\<forall>k \<in> set (keys_of (Some (tx_sid tx)) d). answered_row k"
    using assms(2) by (auto simp: owns_def key_answers_def split: if_splits)
  have claims: "\<forall>c \<in> set (claims_of (Some (tx_sid tx)) d). \<exists>b \<in> set (events_of (Some (tx_sid tx)) d). ob_aggregate_id b = rc_id c"
    using assms(2) by (auto simp: owns_def new_event_def split: if_splits)
  have upd: "answered_row (k\<lparr>ik_owner := None\<rparr>) = answered_row k" for k
    by (simp add: answered_row_def)
  let ?d' = "commit_rows (tx_sid tx) d"
  have "\<forall>k \<in> set (keys_of None ?d'). answered_row k"
    using assms(1) keys unfolding commit_committed by (auto simp: upd committed_ok_def)
  moreover have "rc_id c \<in> snd ` retired \<or> (\<exists>b \<in> set (events_of None ?d'). ob_aggregate_id b = rc_id c)"
    if "c \<in> set (claims_of None ?d')" for c
  proof (cases "c \<in> set (claims_of None d)")
    case True
    then consider "rc_id c \<in> snd ` retired" | b where "b \<in> set (events_of None d)" "ob_aggregate_id b = rc_id c"
      using assms(1) unfolding committed_ok_def by blast
    then show ?thesis by cases (auto simp: commit_committed)
  next
    case False
    with that obtain x where "x \<in> set (claims_of (Some (tx_sid tx)) d)" "c = x\<lparr>rc_owner := None\<rparr>"
      by (auto simp: commit_committed)
    with claims obtain b where "b \<in> set (events_of (Some (tx_sid tx)) d)" "ob_aggregate_id b = rc_id c" by auto
    then have "b\<lparr>ob_owner := None\<rparr> \<in> set (events_of None ?d')" "ob_aggregate_id (b\<lparr>ob_owner := None\<rparr>) = rc_id c"
      by (auto simp: commit_committed)
    then show ?thesis by blast
  qed
  ultimately show ?thesis unfolding committed_ok_def by blast
qed

lemma frame_claims: "frame sid d d' \<Longrightarrow> claims_of None d' = claims_of None d"
  by (simp add: frame_def)

section \<open>The invariant of the requests is kept\<close>

definition req_rows_ok :: "system \<Rightarrow> session \<Rightarrow> bool" where
  "req_rows_ok s sid =
     (case sys_req s sid of
        None \<Rightarrow> owns sid [] [] [] (sys_db s)
      | Some pc \<Rightarrow> tx_sid (req_tx pc) = sid \<and> pc_owns pc (sys_db s))"

definition fresh_ok :: "(go_string \<times> go_string \<times> go_string) list \<Rightarrow> db \<Rightarrow> bool" where
  "fresh_ok fresh d \<longleftrightarrow> distinct fresh \<and> set fresh \<subseteq> rc_identity ` set (claims_of None d)"

definition req_inv :: "system \<Rightarrow> bool" where
  "req_inv s \<longleftrightarrow> unique_rows (sys_db s) \<and> committed_ok (sys_retired s) (sys_db s) \<and>
     (\<forall>sid. req_rows_ok s sid) \<and> fresh_ok (sys_fresh s) (sys_db s)"

lemma req_inv_pc: "req_inv s \<Longrightarrow> sys_req s sid = Some pc \<Longrightarrow> tx_sid (req_tx pc) = sid \<and> pc_owns pc (sys_db s)"
  unfolding req_inv_def req_rows_ok_def by (auto dest!: spec[of _ sid] split: option.splits)

lemma req_rows_other:
  assumes "req_rows_ok s sid'" "sys_req s' sid' = sys_req s sid'"
    "\<And>ks cs bs. owns sid' ks cs bs (sys_db s') = owns sid' ks cs bs (sys_db s)"
  shows "req_rows_ok s' sid'"
proof -
  have "tx_sid (req_tx pc) = sid' \<Longrightarrow> pc_owns pc (sys_db s') = pc_owns pc (sys_db s)" for pc
    using assms(3) by (intro pc_owns_cong) simp
  with assms show ?thesis by (auto simp: req_rows_ok_def split: option.splits)
qed

lemma owns_commit_other:
  "sid' \<noteq> sid \<Longrightarrow> owns sid' ks cs bs (commit_rows sid d) = owns sid' ks cs bs d"
  by (simp add: owns_def commit_others)

lemma owns_commit [simp]: "owns sid [] [] [] (commit_rows sid d)"
  by (simp add: owns_def own_commit)

text \<open>A step of one request that leaves the others alone.\<close>

lemma req_inv_framed:
  assumes "req_inv s" "frame sid (sys_db s) d'" "unique_rows d'"
    "req_rows_ok (s\<lparr>sys_db := d', sys_req := (sys_req s)(sid := pc)\<rparr>) sid"
  shows "req_inv (s\<lparr>sys_db := d', sys_req := (sys_req s)(sid := pc)\<rparr>)"
proof -
  have "req_rows_ok (s\<lparr>sys_db := d', sys_req := (sys_req s)(sid := pc)\<rparr>) sid'" for sid'
  proof (cases "sid' = sid")
    case False
    show ?thesis
      by (rule req_rows_other[of s]) (use assms(1,2) False owns_frame in \<open>auto simp: req_inv_def\<close>)
  qed (use assms(4) in simp)
  with assms show ?thesis
    by (auto simp: req_inv_def committed_ok_frame[OF assms(2)] fresh_ok_def frame_claims[OF assms(2)])
qed

lemma commit_claims_mono:
  "rc_identity ` set (claims_of None d) \<subseteq> rc_identity ` set (claims_of None (commit_rows sid d))"
  by (intro image_mono) (auto simp: commit_committed)

lemma req_inv_commit:
  assumes inv: "req_inv s" and pc: "sys_req s sid = Some (RReady tx p r)"
    and fresh: "fresh = sys_fresh s \<or> (fresh = sys_fresh s @ [par_identity p] \<and>
      res_StatusCode r = createClaimStatusCreated \<and> \<not> res_Replayed r)"
  shows "req_inv (s\<lparr>sys_db := commit_rows sid (sys_db s), sys_req := (sys_req s)(sid := None), sys_fresh := fresh\<rparr>)"
    (is "req_inv ?t")
proof -
  let ?d = "sys_db s"
  have own: "tx_sid tx = sid" "pc_owns (RReady tx p r) ?d"
    using req_inv_pc[OF inv pc] by (simp_all del: pc_owns.simps)
  have rows: "req_rows_ok ?t sid'" for sid'
  proof (cases "sid' = sid")
    case True
    then show ?thesis by (simp add: req_rows_ok_def)
  next
    case False
    show ?thesis
      by (rule req_rows_other[of s]) (use inv False owns_commit_other in \<open>auto simp: req_inv_def\<close>)
  qed
  have old: "fresh_ok (sys_fresh s) ?d" using inv by (simp add: req_inv_def)
  have "fresh_ok fresh (commit_rows sid ?d)"
    using fresh
  proof
    assume "fresh = sys_fresh s"
    with old commit_claims_mono[of ?d sid] show ?thesis by (auto simp: fresh_ok_def)
  next
    assume new: "fresh = sys_fresh s @ [par_identity p] \<and> res_StatusCode r = createClaimStatusCreated \<and> \<not> res_Replayed r"
    with own have mine: "claims_of (Some sid) ?d = [inserted_claim_row tx p]" by (auto simp: owns_def)
    then have "par_identity p \<notin> set (sys_fresh s)"
    proof -
      have "inserted_claim_row tx p \<in> set (reward_claims ?d)" "rc_owner (inserted_claim_row tx p) = Some sid"
        using mine by (auto simp: claims_of_def filter_eq_Cons_iff own(1))
      moreover have "distinct (map rc_identity (reward_claims ?d))"
        using inv by (simp add: req_inv_def unique_rows_def)
      ultimately have "\<forall>c \<in> set (claims_of None ?d). rc_identity c \<noteq> par_identity p"
        by (auto simp: claims_of_def dest: distinct_map_eqD)
      then have "par_identity p \<notin> rc_identity ` set (claims_of None ?d)" by force
      with old show ?thesis unfolding fresh_ok_def by blast
    qed
    moreover have "par_identity p \<in> rc_identity ` set (claims_of None (commit_rows sid ?d))"
      by (auto simp: commit_committed mine image_iff rc_identity_def par_identity_def inserted_claim_row_def)
    ultimately show ?thesis using old new commit_claims_mono[of ?d sid] by (auto simp: fresh_ok_def)
  qed
  with inv rows commit_ok[OF _ own(2)] own(1) show ?thesis
    by (auto simp: req_inv_def unique_rows_commit)
qed

lemma row_changed_parts:
  assumes "row_changed d d'"
  shows "claims_of ow d' = claims_of ow d" "keys_of ow d' = keys_of ow d"
    "events_of (Some sid) d' = events_of (Some sid) d"
    and "b \<in> set (events_of None d) \<Longrightarrow> \<exists>b' \<in> set (events_of None d'). ob_aggregate_id b' = ob_aggregate_id b"
    and "unique_rows d \<Longrightarrow> unique_rows d'"
proof -
  show "claims_of ow d' = claims_of ow d" "keys_of ow d' = keys_of ow d"
    using assms by (auto simp: row_changed_def replace_row_def)
  show "unique_rows d \<Longrightarrow> unique_rows d'"
    using assms by (auto simp: row_changed_def unique_rows_def unique_keys_def intro: replace_row_inv)
       (auto simp: replace_row_def)
  have gen: "filter P (map f xs) = filter P xs" if "\<And>x. P (f x) = P x" "\<And>x. P x \<Longrightarrow> f x = x" for P and f :: "'r \<Rightarrow> 'r" and xs
    using that by (induction xs) auto
  show "events_of (Some sid) d' = events_of (Some sid) d"
    using assms by (auto simp: row_changed_def events_of_def replace_row_def intro!: gen split: if_splits)
  assume b: "b \<in> set (events_of None d)"
  from assms show "\<exists>b' \<in> set (events_of None d'). ob_aggregate_id b' = ob_aggregate_id b"
    unfolding row_changed_def
  proof (elim disjE exE conjE)
    fix r r'
    assume "d' = replace_row r r' d" "ob_owner r' = None" "ob_aggregate_id r' = ob_aggregate_id r"
    with b show ?thesis
      by (intro bexI[of _ "if b = r then r' else b"]) (auto simp: events_of_def replace_row_def)
  qed (use b in auto)
qed

lemma req_inv_row_changed:
  assumes "req_inv s" "row_changed (sys_db s) d'"
  shows "req_inv (s\<lparr>sys_db := d', sys_work := work\<rparr>)"
proof -
  note parts = row_changed_parts[OF assms(2)]
  have "req_rows_ok (s\<lparr>sys_db := d', sys_work := work\<rparr>) sid" for sid
    by (rule req_rows_other[of s]) (use assms(1) in \<open>auto simp: req_inv_def owns_def parts(1-3)\<close>)
  moreover have "committed_ok (sys_retired s) d'"
    using assms(1) parts(4) unfolding req_inv_def committed_ok_def parts(1,2) by metis
  ultimately show ?thesis
    using assms(1) parts(5) by (auto simp: req_inv_def fresh_ok_def parts(1))
qed

lemma req_inv_cleanup_keys:
  assumes "req_inv s"
  shows "req_inv (s\<lparr>sys_db := expire_keys sel (sys_db s)\<rparr>)"
proof -
  let ?d = "sys_db s" and ?d' = "expire_keys sel (sys_db s)"
  have keys: "keys_of (Some sid) ?d' = keys_of (Some sid) ?d" "set (keys_of None ?d') \<subseteq> set (keys_of None ?d)" for sid
    by (auto simp: keys_of_def expire_keys_def filter_filter intro!: filter_cong)
  have rest: "claims_of ow ?d' = claims_of ow ?d" "events_of ow ?d' = events_of ow ?d" for ow
    by (simp_all add: of_defs expire_keys_def)
  have "req_rows_ok (s\<lparr>sys_db := ?d'\<rparr>) sid" for sid
    by (rule req_rows_other[of s]) (use assms in \<open>auto simp: req_inv_def owns_def keys(1) rest\<close>)
  moreover have "unique_rows ?d'"
    using assms by (auto simp: req_inv_def unique_rows_def unique_keys_def outbox_inv_def expire_keys_def)
  ultimately show ?thesis
    using assms keys(2) by (auto simp: req_inv_def committed_ok_def fresh_ok_def rest)
qed

lemma req_inv_cleanup_events:
  assumes "req_inv s"
  shows "req_inv (s\<lparr>sys_db := retire_events sel (sys_db s), sys_retired := sys_retired s \<union>
     (\<lambda>r. (ob_id r, ob_aggregate_id r)) ` {r \<in> set (outbox_events (sys_db s)). retirable sel r}\<rparr>)"
    (is "req_inv (s\<lparr>sys_db := ?d', sys_retired := ?ret\<rparr>)")
proof -
  let ?d = "sys_db s"
  have rest: "claims_of ow ?d' = claims_of ow ?d" "keys_of ow ?d' = keys_of ow ?d"
      "events_of (Some sid) ?d' = events_of (Some sid) ?d" for ow sid
    by (auto simp: of_defs retire_events_def retirable_def filter_filter intro!: filter_cong)
  have rows: "req_rows_ok (s\<lparr>sys_db := ?d', sys_retired := ?ret\<rparr>) sid" for sid
    by (rule req_rows_other[of s]) (use assms in \<open>auto simp: req_inv_def owns_def rest\<close>)
  have uniq: "unique_rows ?d'"
    using assms by (auto simp: req_inv_def unique_rows_def unique_keys_def outbox_inv_def retire_events_def)
  have events: "rc_id c \<in> snd ` ?ret \<or> (\<exists>b \<in> set (events_of None ?d'). ob_aggregate_id b = rc_id c)"
    if "c \<in> set (claims_of None ?d)" for c
  proof -
    from that assms consider "rc_id c \<in> snd ` sys_retired s"
      | b where "b \<in> set (events_of None ?d)" "ob_aggregate_id b = rc_id c"
      unfolding req_inv_def committed_ok_def by blast
    then show ?thesis
    proof cases
      case 2
      show ?thesis
      proof (cases "retirable sel b")
        case True
        with 2 have "(ob_id b, rc_id c) \<in> ?ret" by (auto simp: events_of_def image_iff)
        then show ?thesis by force
      next
        case False
        with 2 have "b \<in> set (events_of None ?d')" by (auto simp: events_of_def retire_events_def)
        with 2(2) show ?thesis by blast
      qed
    qed auto
  qed
  have "committed_ok ?ret ?d'"
    unfolding committed_ok_def rest using events assms by (auto simp: req_inv_def committed_ok_def)
  with rows uniq assms show ?thesis by (auto simp: req_inv_def fresh_ok_def rest)
qed

lemma req_inv_workers [simp]: "req_inv (s\<lparr>sys_work := x\<rparr>) = req_inv s" "req_inv (s\<lparr>sys_accepted := a\<rparr>) = req_inv s"
  by (simp_all add: req_inv_def req_rows_ok_def cong: option.case_cong)

lemma req_inv_lost:
  assumes "req_inv s"
  shows "req_inv (s\<lparr>sys_db := rollback_rows sid (sys_db s), sys_req := (sys_req s)(sid := None)\<rparr>)"
  using assms by (intro req_inv_framed frame_rollback unique_rows_rollback) (auto simp: req_rows_ok_def req_inv_def)

lemma req_inv_end:
  assumes inv: "req_inv s" and pc: "sys_req s sid = Some pc" and "calm tk" "req_next tk pc (sys_db s) = Some (Finish r, d')"
  shows "req_inv (s\<lparr>sys_db := d', sys_req := (sys_req s)(sid := None), sys_fresh := sys_fresh s @ fresh_of r (req_params pc)\<rparr>)"
proof (cases "\<exists>tx p res. pc = RReady tx p res")
  case True
  then obtain tx p res where ready: "pc = RReady tx p res" by blast
  with req_inv_pc[OF inv pc] have sid: "tx_sid tx = sid" by simp
  note commit = req_inv_commit[OF inv pc[unfolded ready]]
  from assms(3,4)[unfolded ready] show ?thesis
  proof (cases rule: req_next_ready)
    case returned
    with commit[of "sys_fresh s @ fresh_of r p"] show ?thesis by (auto simp: ready sid fresh_of_def fresh_created_def)
  next
    case landed
    with commit[of "sys_fresh s"] show ?thesis by (auto simp: sid fresh_of_def fresh_created_def)
  next
    case lost
    with req_inv_lost[OF inv, of sid] show ?thesis by (simp add: sid fresh_of_def fresh_created_def)
  qed
next
  case False
  with req_next_stepped[OF assms(3) _ _ _ assms(4)] req_inv_pc[OF inv pc] inv have st: "stepped pc (sys_db s) (Finish r) d'"
    by (auto simp: req_inv_def)
  then have "req_inv (s\<lparr>sys_db := d', sys_req := (sys_req s)(sid := None)\<rparr>)"
    using req_inv_pc[OF inv pc] by (intro req_inv_framed[OF inv]) (auto simp: stepped_def req_rows_ok_def)
  with st show ?thesis by (auto simp: stepped_def fresh_of_def fresh_created_def)
qed

lemma req_inv_step:
  assumes "sys_step W s t" "req_inv s"
  shows "req_inv t"
  using assms(1)
proof cases
  case (req_begin sid tx cmd p)
  have "owns sid [] [] [] (sys_db s)"
    using assms(2) req_begin(2) by (auto simp: req_inv_def req_rows_ok_def dest!: spec[of _ sid])
  moreover have "sys_db s = sys_db (s\<lparr>sys_req := x\<rparr>)" for x by simp
  ultimately show ?thesis
    using req_inv_framed[OF assms(2), of sid "sys_db s" "Some (RBegun tx p)"] assms(2) req_begin
    by (simp add: req_rows_ok_def req_inv_def)
next
  case (req_call sid pc tk pc' d')
  note own = req_inv_pc[OF assms(2) req_call(2)]
  have "\<forall>tx p r. pc \<noteq> RReady tx p r"
    using req_call(3,4) by (metis req_next_ready req_state.distinct(1))
  with req_next_stepped[OF req_call(3) _ _ _ req_call(4)] own assms(2) have "stepped pc (sys_db s) (Continue pc') d'"
    by (auto simp: req_inv_def)
  with own show ?thesis
    unfolding req_call(1) by (intro req_inv_framed[OF assms(2)]) (auto simp: stepped_def req_rows_ok_def)
next
  case (req_end sid pc tk r d')
  from req_inv_end[OF assms(2) req_end(2-4)] show ?thesis by (simp add: req_end(1))
next
  case (req_crash sid pc)
  with req_inv_lost[OF assms(2)] show ?thesis by simp
next
  case (work_claim w env res d')
  have "outbox_inv (sys_db s)" using assms(2) by (simp add: req_inv_def unique_rows_def)
  from ClaimNext_changed[OF this work_claim(4)] show ?thesis
    unfolding work_claim(1) by (rule req_inv_row_changed[OF assms(2)])
next
  case (work_publish w ev answer taken)
  then show ?thesis using assms(2) by simp
next
  case (work_settle w ev answer env err obs d')
  have "outbox_inv (sys_db s)" using assms(2) by (simp add: req_inv_def unique_rows_def)
  from settleEvent_changed[OF this work_settle(4)] show ?thesis
    unfolding work_settle(1) by (rule req_inv_row_changed[OF assms(2)])
next
  case (work_crash w)
  then show ?thesis using assms(2) by simp
next
  case (cleanup_keys sel)
  then show ?thesis using req_inv_cleanup_keys[OF assms(2)] by simp
next
  case (cleanup_events sel)
  then show ?thesis using req_inv_cleanup_events[OF assms(2)] by simp
qed

end
