(* ===== verification/System_Runs.thy ===== *)
theory System_Runs
  imports System
begin

text \<open>
  The invariant of the workers, the reachable states of the system, what a run does to an event,
  and the runs that single requests make.
\<close>

section \<open>The invariant of the workers\<close>

fun holds :: "work_pc \<Rightarrow> Event \<Rightarrow> bool" where
  "holds WIdle ev \<longleftrightarrow> False"
| "holds (WClaimed e) ev \<longleftrightarrow> e = ev"
| "holds (WAnswered e a) ev \<longleftrightarrow> e = ev"

definition within :: "int \<Rightarrow> lease \<Rightarrow> bool" where
  "within M l \<longleftrightarrow> 0 \<le> failures l \<and> (case l of Dead f \<Rightarrow> f = M | _ \<Rightarrow> failures l < M)"

text \<open>The workers of the system: each has its own identity, all the same limit of failures.\<close>

definition workers_ok :: "int \<Rightarrow> (go_string \<Rightarrow> Worker) \<Rightarrow> bool" where
  "workers_ok M W \<longleftrightarrow> 0 < M \<and> int64 M \<and> (\<forall>w. w_workerID (W w) = w \<and> w_maxFailures (W w) = M)"

definition lease_ok :: "int \<Rightarrow> system \<Rightarrow> string \<Rightarrow> lease \<Rightarrow> bool" where
  "lease_ok M s eid l \<longleftrightarrow> within M l \<and>
     (\<forall>f. l = Delivered f \<longrightarrow> eid \<in> sys_accepted s) \<and>
     (\<forall>w ev f. l = Leased w f \<longrightarrow> holds (sys_work s w) ev \<longrightarrow> ev_ID ev = eid \<longrightarrow> ev_FailedAttempts ev = f)"

definition work_inv :: "int \<Rightarrow> system \<Rightarrow> bool" where
  "work_inv M s \<longleftrightarrow>
     (\<forall>eid l. lease_view (sys_db s) eid = Some l \<longrightarrow> lease_ok M s eid l) \<and>
     (\<forall>w ev. sys_work s w = WAnswered ev None \<longrightarrow> ev_ID ev \<in> sys_accepted s) \<and>
     fst ` sys_retired s \<subseteq> sys_accepted s"

lemma work_invD:
  assumes "work_inv M s"
  shows "lease_view (sys_db s) eid = Some l \<Longrightarrow> lease_ok M s eid l"
    and "sys_work s w = WAnswered ev None \<Longrightarrow> ev_ID ev \<in> sys_accepted s"
    and "fst ` sys_retired s \<subseteq> sys_accepted s"
  using assms unfolding work_inv_def by blast+

lemma work_invI:
  assumes "\<And>eid l. lease_view (sys_db s) eid = Some l \<Longrightarrow> lease_ok M s eid l"
    "\<And>w ev. sys_work s w = WAnswered ev None \<Longrightarrow> ev_ID ev \<in> sys_accepted s"
    "fst ` sys_retired s \<subseteq> sys_accepted s"
  shows "work_inv M s"
  using assms unfolding work_inv_def by blast

lemma lease_view_events: "events_of None d' = events_of None d \<Longrightarrow> lease_view d' = lease_view d"
proof -
  have find: "List.find (\<lambda>r. ob_owner r = None \<and> ob_id r = eid) xs =
      List.find (\<lambda>r. ob_id r = eid) (filter (\<lambda>r. ob_owner r = None) xs)" for eid and xs :: "outbox_row list"
    by (induction xs) auto
  assume "events_of None d' = events_of None d"
  then show ?thesis by (auto simp: fun_eq_iff lease_view_def find events_of_def)
qed

lemma lease_of_row_owner [simp]: "lease_of_row (b\<lparr>ob_owner := w\<rparr>) = lease_of_row b"
  by (simp add: lease_of_row_def split: outbox_status.split option.split)

lemma took_leaseD:
  assumes "took_lease w eid v v'" "v' e = Some l"
  shows "(e \<noteq> eid \<and> v e = Some l) \<or>
    (e = eid \<and> (\<exists>l0. v e = Some l0 \<and> l = Leased w (failures l0) \<and> (within M l0 \<longrightarrow> within M l)))"
proof (cases "e = eid")
  case True
  from assms(1) obtain l0 where l0: "v eid = Some l0" "l0 = Waiting (failures l0) \<or> (\<exists>w'. l0 = Leased w' (failures l0))"
      "v' = v(eid \<mapsto> Leased w (failures l0))" unfolding took_lease_def by blast
  then have "within M l0 \<longrightarrow> within M (Leased w (failures l0))" by (cases l0) (auto simp: within_def)
  with True l0 assms(2) show ?thesis by auto
qed (use assms in \<open>auto simp: took_lease_def\<close>)

lemma lease_ok_mono:
  assumes "lease_ok M s eid l" "sys_accepted s \<subseteq> sys_accepted t"
    "\<And>w ev. holds (sys_work t w) ev \<Longrightarrow> ev_ID ev = eid \<Longrightarrow> holds (sys_work s w) ev"
  shows "lease_ok M t eid l"
  using assms unfolding lease_ok_def by blast

lemma lease_view_commit:
  assumes "outbox_inv d" "lease_view (commit_rows sid d) eid = Some l"
  shows "lease_view d eid = Some l \<or> (\<exists>b \<in> set (events_of (Some sid) d). l = lease_of_row b)"
proof -
  from assms(2) obtain x where x: "x \<in> set (outbox_events (commit_rows sid d))" "ob_owner x = None"
      "ob_id x = eid" "l = lease_of_row x" by (rule lease_view_SomeD)
  then have "x \<in> set (events_of None (commit_rows sid d))" by (simp add: events_of_def)
  then consider "x \<in> set (events_of None d)" | b where "b \<in> set (events_of (Some sid) d)" "x = b\<lparr>ob_owner := None\<rparr>"
    by (auto simp: commit_committed)
  then show ?thesis
  proof cases
    case 1
    then have "x \<in> set (outbox_events d)" by (simp add: events_of_def)
    from lease_view_at[OF assms(1) this x(2)] x show ?thesis by simp
  next
    case 2
    then have "l = lease_of_row b" using x(4) by simp
    with 2 show ?thesis by blast
  qed
qed

lemma lease_view_retire:
  assumes "outbox_inv d" "lease_view (retire_events sel d) eid = Some l"
  shows "lease_view d eid = Some l"
proof -
  from assms(2) obtain x where "x \<in> set (outbox_events (retire_events sel d))" "ob_owner x = None"
      "ob_id x = eid" "l = lease_of_row x" by (rule lease_view_SomeD)
  with lease_view_at[OF assms(1), of x] show ?thesis by (auto simp: retire_events_def)
qed

text \<open>A step that only adds waiting events, or removes some.\<close>

lemma work_inv_view:
  assumes "work_inv M s" "0 < M"
    "\<And>eid l. lease_view d' eid = Some l \<Longrightarrow> lease_view (sys_db s) eid = Some l \<or> l = Waiting 0"
    "sys_db t = d'" "sys_work t = sys_work s" "sys_accepted t = sys_accepted s" "fst ` sys_retired t \<subseteq> sys_accepted s"
  shows "work_inv M t"
proof -
  have "lease_ok M t eid l" if "lease_view d' eid = Some l" for eid l
    using assms(3)[OF that] assms(1,2,5,6) by (auto simp: work_inv_def lease_ok_def within_def)
  with assms show ?thesis by (auto simp: work_inv_def)
qed

lemma took_lease_ok:
  assumes took: "took_lease w k (lease_view (sys_db s)) (lease_view (sys_db t))"
    and view: "lease_view (sys_db t) eid = Some l"
    and old: "\<And>l'. lease_view (sys_db s) eid = Some l' \<Longrightarrow> lease_ok M s eid l'"
    and acc: "sys_accepted s \<subseteq> sys_accepted t"
    and other: "\<And>w'. w' \<noteq> w \<Longrightarrow> sys_work t w' = sys_work s w'"
    and own: "\<And>e. holds (sys_work t w) e \<Longrightarrow> ev_ID e = k \<and>
      lease_view (sys_db t) k = Some (Leased w (ev_FailedAttempts e))"
  shows "lease_ok M t eid l"
  using took_leaseD[OF took view, of M]
proof (elim disjE conjE exE)
  assume v: "lease_view (sys_db s) eid = Some l" "eid \<noteq> k"
  from old[OF v(1)] show ?thesis
  proof (rule lease_ok_mono)
    fix w' e
    assume "holds (sys_work t w') e" "ev_ID e = eid"
    with own other v(2) show "holds (sys_work s w') e" by (cases "w' = w") auto
  qed (rule acc)
next
  fix l0
  assume l0: "lease_view (sys_db s) eid = Some l0" "eid = k" "l = Leased w (failures l0)" "within M l0 \<longrightarrow> within M l"
  with own view have "holds (sys_work t w) e \<Longrightarrow> ev_FailedAttempts e = failures l0" for e by auto
  with old[OF l0(1)] l0 acc show ?thesis by (auto simp: lease_ok_def)
qed

lemma work_inv_claim:
  assumes inv: "work_inv M s" and idle: "sys_work s w = WIdle" and ok: "store_env_ok env"
    and out: "outbox_inv (sys_db s)" and cl: "ClaimNext env w ttl (sys_db s) = (res, d')"
  shows "work_inv M (s\<lparr>sys_db := d', sys_work := (sys_work s)(w :=
       (case res of Inr (Some ev) \<Rightarrow> WClaimed ev | _ \<Rightarrow> WIdle))\<rparr>)" (is "work_inv M ?t")
proof -
  let ?v = "lease_view (sys_db s)" and ?v' = "lease_view d'"
  note eff = ClaimNext_outcome(2-4)[OF out cl]
  consider "?v' = ?v" "\<forall>ev. res \<noteq> Inr (Some ev)" | eid where "took_lease w eid ?v ?v'" "\<forall>ev. res \<noteq> Inr (Some ev)"
    | ev where "res = Inr (Some ev)" "took_lease w (ev_ID ev) ?v ?v'" "?v' (ev_ID ev) = Some (Leased w (ev_FailedAttempts ev))"
  proof (cases res)
    case (Inl e)
    with eff(3)[OF ok] that(1,2) show ?thesis by auto
  next
    case (Inr r)
    with eff(1,2)[OF ok] that(1,3) show ?thesis by (cases r) auto
  qed
  note cs = this
  have "lease_ok M ?t eid l" if view: "?v' eid = Some l" for eid l
  proof -
    have old: "lease_ok M s eid l'" if "?v eid = Some l'" for l' using inv that by (simp add: work_inv_def)
    from cs show ?thesis
    proof cases
      case 1
      with old[of l] view idle show ?thesis
        by (cases l) (auto simp: lease_ok_def split: sum.splits option.splits)
    next
      case (2 k)
      then have w: "sys_work ?t w = WIdle" by (auto split: sum.split option.split)
      show ?thesis by (rule took_lease_ok[of w k s ?t, OF _ _ old]) (use 2 view w in simp_all)
    next
      case (3 ev)
      show ?thesis by (rule took_lease_ok[of w "ev_ID ev" s ?t, OF _ _ old]) (use 3 view in simp_all)
    qed
  qed
  with inv show ?thesis
    by (auto simp: work_inv_def split: sum.splits option.splits if_splits)
qed

lemma work_inv_settle:
  assumes inv: "work_inv M s" and ans: "sys_work s w = WAnswered ev answer" and ok: "store_env_ok (we_transition env)"
    and out: "outbox_inv (sys_db s)" and W: "workers_ok M W"
    and se: "settleEvent postgresStore (W w) env ev answer (sys_db s) = (err, obs, d')"
  shows "work_inv M (s\<lparr>sys_db := d', sys_work := (sys_work s)(w := WIdle)\<rparr>)" (is "work_inv M ?t")
proof -
  let ?v = "lease_view (sys_db s)" and ?v' = "lease_view d'"
  have id: "w_workerID (W w) = w" "w_maxFailures (W w) = M" using W by (auto simp: workers_ok_def)
  have old: "lease_ok M s eid l" if "?v eid = Some l" for eid l using inv that by (simp add: work_inv_def)
  from pg.settleEvent_outcome(2)[OF out ok se] id consider "?v' = ?v"
    | final where "settle_final (W w) env ev answer = Some final" "ended_lease final w (ev_ID ev) ?v ?v'"
    by (auto simp: settle_outcome_def split: option.splits if_splits)
  note cs = this
  have "lease_ok M ?t eid l" if view: "?v' eid = Some l" for eid l
  proof -
    have keep: "lease_ok M ?t eid l" if "?v eid = Some l"
      using old[OF that] by (rule lease_ok_mono) (auto split: if_splits)
    from cs show ?thesis
    proof cases
      case 1
      with view keep show ?thesis by simp
    next
      case (2 final)
      then obtain f where f: "?v (ev_ID ev) = Some (Leased w f)" "?v' = ?v(ev_ID ev \<mapsto> final f)"
        by (auto simp: ended_lease_def)
      show ?thesis
      proof (cases "eid = ev_ID ev")
        case False
        with f view keep show ?thesis by simp
      next
        case True
        with f view have l: "l = final f" by simp
        from old[OF f(1)] ans have "ev_FailedAttempts ev = f" "0 \<le> f" "f < M"
          by (auto simp: lease_ok_def within_def)
        moreover from this W have "wrap64 (f + 1) = f + 1"
          by (intro wrap64_id) (auto simp: workers_ok_def int64_def)
        ultimately show ?thesis
          using 2(1) id inv ans True
          by (auto simp: l settle_final_def lease_ok_def within_def work_inv_def split: option.splits if_splits)
      qed
    qed
  qed
  with inv show ?thesis by (auto simp: work_inv_def)
qed

definition sys_inv :: "int \<Rightarrow> system \<Rightarrow> bool" where
  "sys_inv M s \<longleftrightarrow> req_inv s \<and> work_inv M s"

lemma req_inv_outbox: "req_inv s \<Longrightarrow> outbox_inv (sys_db s)"
  by (simp add: req_inv_def unique_rows_def)

lemma new_event_waiting: "new_event tx b \<Longrightarrow> lease_of_row b = Waiting 0"
  by (simp add: new_event_def lease_of_row_def)

lemma req_step_view:
  assumes "req_inv s" "sys_req s sid = Some pc" "calm tk" "req_next tk pc (sys_db s) = Some (st, d')"
    "lease_view d' eid = Some l"
  shows "lease_view (sys_db s) eid = Some l \<or> l = Waiting 0"
proof (cases "\<exists>tx p res. pc = RReady tx p res")
  case True
  then obtain tx p res where pc: "pc = RReady tx p res" by blast
  note own = req_inv_pc[OF assms(1,2), unfolded pc]
  have committed: "lease_view (sys_db s) eid = Some l \<or> l = Waiting 0"
    if "lease_view (commit_rows (tx_sid tx) (sys_db s)) eid = Some l"
    using lease_view_commit[OF req_inv_outbox[OF assms(1)] that] own
    by (auto simp: owns_def split: if_splits dest: new_event_waiting)
  from assms(3,4)[unfolded pc] show ?thesis
  proof (cases rule: req_next_ready)
    case (lost e)
    have "lease_view d' = lease_view (sys_db s)"
      unfolding lost by (rule lease_view_events) (use frame_rollback[of "tx_sid tx" "sys_db s"] in \<open>simp add: frame_def\<close>)
    with assms(5) show ?thesis by simp
  qed (use assms(5) committed in auto)
next
  case False
  with req_next_stepped[OF assms(3) _ _ _ assms(4)] req_inv_pc[OF assms(1,2)] assms(1)
  have "stepped pc (sys_db s) st d'" by (auto simp: req_inv_def)
  then have "events_of None d' = events_of None (sys_db s)" by (simp add: stepped_def frame_def)
  from lease_view_events[OF this] assms(5) show ?thesis by simp
qed

lemma work_inv_publish:
  assumes inv: "work_inv M s" and w: "sys_work s w = WClaimed ev" and taken: "answer = None \<longrightarrow> taken"
  shows "work_inv M (s\<lparr>sys_work := (sys_work s)(w := WAnswered ev answer),
    sys_accepted := (if taken then insert (ev_ID ev) (sys_accepted s) else sys_accepted s)\<rparr>)" (is "work_inv M ?t")
proof (rule work_invI)
  show "lease_ok M ?t eid l" if "lease_view (sys_db ?t) eid = Some l" for eid l
  proof (rule lease_ok_mono[of M s])
    show "lease_ok M s eid l" using work_invD(1)[OF inv, of eid l] that by simp
    show "holds (sys_work s w') e" if "holds (sys_work ?t w') e" for w' e using that w by (auto split: if_splits)
  qed auto
  show "ev_ID e \<in> sys_accepted ?t" if "sys_work ?t w' = WAnswered e None" for w' e
    using work_invD(2)[OF inv, of w' e] that taken by (auto split: if_splits)
  show "fst ` sys_retired ?t \<subseteq> sys_accepted ?t" using inv by (auto simp: work_inv_def)
qed

lemma work_inv_crash:
  assumes inv: "work_inv M s"
  shows "work_inv M (s\<lparr>sys_work := (sys_work s)(w := WIdle)\<rparr>)" (is "work_inv M ?t")
proof (rule work_invI)
  show "lease_ok M ?t eid l" if "lease_view (sys_db ?t) eid = Some l" for eid l
    using work_invD(1)[OF inv, of eid l] that by (auto elim!: lease_ok_mono split: if_splits)
  show "ev_ID e \<in> sys_accepted ?t" if "sys_work ?t w' = WAnswered e None" for w' e
    using work_invD(2)[OF inv, of w' e] that by (auto split: if_splits)
  show "fst ` sys_retired ?t \<subseteq> sys_accepted ?t" using inv by (auto simp: work_inv_def)
qed

lemma work_inv_step:
  assumes "sys_step W s t" "sys_inv M s" "workers_ok M W"
  shows "work_inv M t"
proof -
  have req: "req_inv s" and inv: "work_inv M s" and M: "0 < M"
    using assms(2,3) by (auto simp: sys_inv_def workers_ok_def)
  note out = req_inv_outbox[OF req]
  have ret: "fst ` sys_retired s \<subseteq> sys_accepted s" using inv by (simp add: work_inv_def)
  from assms(1) show ?thesis
  proof cases
    case (req_begin sid tx cmd p)
    then show ?thesis using inv by (auto simp: work_inv_def lease_ok_def)
  next
    case (req_call sid pc tk pc' d')
    show ?thesis
      by (rule work_inv_view[OF inv M req_step_view[OF req req_call(2-4)]]) (auto simp: req_call(1) ret)
  next
    case (req_end sid pc tk r d')
    show ?thesis
      by (rule work_inv_view[OF inv M req_step_view[OF req req_end(2-4)]]) (auto simp: req_end(1) ret)
  next
    case (req_crash sid pc)
    have "lease_view (rollback_rows sid (sys_db s)) = lease_view (sys_db s)"
      by (rule lease_view_events) (use frame_rollback[of sid "sys_db s"] in \<open>simp add: frame_def\<close>)
    then show ?thesis
      by (intro work_inv_view[OF inv M, of "rollback_rows sid (sys_db s)"]) (auto simp: req_crash(1) ret)
  next
    case (work_claim w env res d')
    then show ?thesis using work_inv_claim[OF inv _ _ out] by simp
  next
    case (work_publish w ev answer taken)
    from work_inv_publish[OF inv work_publish(2,3)] show ?thesis by (simp add: work_publish(1))
  next
    case (work_settle w ev answer env err obs d')
    then show ?thesis using work_inv_settle[OF inv _ _ out assms(3)] by simp
  next
    case (work_crash w)
    from work_inv_crash[OF inv] show ?thesis by (simp add: work_crash)
  next
    case (cleanup_keys sel)
    have "lease_view (expire_keys sel (sys_db s)) = lease_view (sys_db s)"
      by (rule lease_view_events) (simp add: events_of_def expire_keys_def)
    then show ?thesis
      by (intro work_inv_view[OF inv M, of "expire_keys sel (sys_db s)"]) (auto simp: cleanup_keys ret)
  next
    case (cleanup_events sel)
    have "ob_id r \<in> sys_accepted s" if "r \<in> set (outbox_events (sys_db s))" "retirable sel r" for r
    proof -
      from that lease_view_at[OF out that(1)] have "lease_view (sys_db s) (ob_id r) = Some (Delivered (ob_failed_attempts r))"
        by (simp add: retirable_def lease_of_row_def)
      with inv show ?thesis by (auto simp: work_inv_def lease_ok_def)
    qed
    with ret show ?thesis
      by (intro work_inv_view[OF inv M, of "retire_events sel (sys_db s)"])
         (auto simp: cleanup_events dest: lease_view_retire[OF out])
  qed
qed

section \<open>Reachable states\<close>

definition sys_run :: "int \<Rightarrow> (go_string \<Rightarrow> Worker) \<Rightarrow> system \<Rightarrow> system \<Rightarrow> bool" where
  "sys_run M W s t \<longleftrightarrow> workers_ok M W \<and> sys_step W s t"

lemma sys_init_inv: "sys_init s \<Longrightarrow> sys_inv M s"
  by (auto simp: sys_init_def sys_inv_def req_inv_def work_inv_def unique_rows_def unique_keys_def outbox_inv_def
      committed_ok_def fresh_ok_def req_rows_ok_def owns_def of_defs empty_db_def lease_view_def)

interpretation sys: invariant_system sys_init "sys_run M W" "sys_inv M" for M W
proof
  show "sys_init s \<Longrightarrow> sys_inv M s" for s by (rule sys_init_inv)
  show "sys_inv M s \<Longrightarrow> sys_run M W s t \<Longrightarrow> sys_inv M t" for s t
    using req_inv_step[of W s t] work_inv_step[of W s t M] by (auto simp: sys_inv_def sys_run_def)
qed

section \<open>No event is lost\<close>

definition events_kept :: "system \<Rightarrow> system \<Rightarrow> bool" where
  "events_kept s t \<longleftrightarrow> sys_accepted s \<subseteq> sys_accepted t \<and>
     (\<forall>eid l. lease_view (sys_db s) eid = Some l \<longrightarrow>
        (\<exists>l'. lease_view (sys_db t) eid = Some l' \<and> lease_progress l l') \<or>
        (eid \<in> sys_accepted t \<and> (\<forall>f. l \<noteq> Dead f)))"

lemma events_kept_refl: "events_kept s s"
  by (auto simp: events_kept_def)

lemma events_kept_trans:
  assumes "events_kept s t" "events_kept t u"
  shows "events_kept s u"
  unfolding events_kept_def
proof (intro conjI allI impI)
  show "sys_accepted s \<subseteq> sys_accepted u" using assms by (auto simp: events_kept_def)
  fix eid l
  assume "lease_view (sys_db s) eid = Some l"
  with assms(1) consider l' where "lease_view (sys_db t) eid = Some l'" "lease_progress l l'"
    | "eid \<in> sys_accepted t" "\<forall>f. l \<noteq> Dead f"
    unfolding events_kept_def by blast
  then show "(\<exists>l'. lease_view (sys_db u) eid = Some l' \<and> lease_progress l l') \<or>
      (eid \<in> sys_accepted u \<and> (\<forall>f. l \<noteq> Dead f))"
  proof cases
    case (1 l')
    with assms(2) consider l'' where "lease_view (sys_db u) eid = Some l''" "lease_progress l' l''"
      | "eid \<in> sys_accepted u" "\<forall>f. l' \<noteq> Dead f"
      unfolding events_kept_def by blast
    then show ?thesis
    proof cases
      case (1 l'')
      with \<open>lease_progress l l'\<close> show ?thesis by (blast intro: lease_progress_trans)
    next
      case 2
      with \<open>lease_progress l l'\<close> have "\<forall>f. l \<noteq> Dead f" by (auto simp: lease_progress_def)
      with 2 show ?thesis by blast
    qed
  next
    case 2
    with assms(2) show ?thesis by (auto simp: events_kept_def)
  qed
qed

lemma events_kept_view:
  assumes "view_progress (lease_view (sys_db s)) (lease_view (sys_db t))" "sys_accepted s \<subseteq> sys_accepted t"
  shows "events_kept s t"
  using assms unfolding events_kept_def view_progress_def by (metis option.rel_cases option.sel option.distinct(1))

lemma events_kept_grow:
  assumes "\<And>eid l. lease_view (sys_db s) eid = Some l \<Longrightarrow> lease_view (sys_db t) eid = Some l"
    "sys_accepted s \<subseteq> sys_accepted t"
  shows "events_kept s t"
  using assms by (auto simp: events_kept_def)

lemma lease_view_commit_mono:
  assumes "outbox_inv d" "outbox_inv (commit_rows sid d)" "lease_view d eid = Some l"
  shows "lease_view (commit_rows sid d) eid = Some l"
proof -
  from assms(3) obtain x where x: "x \<in> set (outbox_events d)" "ob_owner x = None" "ob_id x = eid" "l = lease_of_row x"
    by (rule lease_view_SomeD)
  then have "x \<in> set (outbox_events (commit_rows sid d))" by (force simp: commit_rows_def)
  from lease_view_at[OF assms(2) this x(2)] x show ?thesis by simp
qed

lemma settleEvent_progress:
  assumes "outbox_inv d" "store_env_ok (we_transition env)" "settleEvent postgresStore w env ev answer d = (err, obs, d')"
  shows "view_progress (lease_view d) (lease_view d')"
proof -
  have ended: "view_progress (lease_view d) (lease_view d')"
    if "settle_final w env ev answer = Some final" "ended_lease final (w_workerID w) (ev_ID ev) (lease_view d) (lease_view d')" for final
  proof -
    from that(2) obtain f where f: "lease_view d (ev_ID ev) = Some (Leased (w_workerID w) f)"
        "lease_view d' = (lease_view d)(ev_ID ev \<mapsto> final f)" by (auto simp: ended_lease_def)
    have "lease_progress (Leased (w_workerID w) f) (final f)"
      using that(1) by (auto simp: settle_final_def lease_progress_def split: option.splits if_splits)
    with f show ?thesis by (simp add: view_progress_upd)
  qed
  from pg.settleEvent_outcome(2)[OF assms] show ?thesis
    by (auto simp: settle_outcome_def dest: ended split: option.splits if_splits)
qed

lemma req_step_kept:
  assumes "req_inv s" "sys_req s sid = Some pc" "calm tk" "req_next tk pc (sys_db s) = Some (st, d')"
    "lease_view (sys_db s) eid = Some l"
  shows "lease_view d' eid = Some l"
proof (cases "\<exists>tx p res. pc = RReady tx p res")
  case True
  then obtain tx p res where pc: "pc = RReady tx p res" by blast
  have "outbox_inv (commit_rows (tx_sid tx) (sys_db s))"
    using assms(1) unique_rows_commit by (auto simp: req_inv_def unique_rows_def)
  note committed = lease_view_commit_mono[OF req_inv_outbox[OF assms(1)] this assms(5)]
  from assms(3,4)[unfolded pc] show ?thesis
  proof (cases rule: req_next_ready)
    case (lost e)
    have "lease_view d' = lease_view (sys_db s)"
      unfolding lost by (rule lease_view_events) (use frame_rollback[of "tx_sid tx" "sys_db s"] in \<open>simp add: frame_def\<close>)
    with assms(5) show ?thesis by simp
  qed (use committed in auto)
next
  case False
  with req_next_stepped[OF assms(3) _ _ _ assms(4)] req_inv_pc[OF assms(1,2)] assms(1)
  have "stepped pc (sys_db s) st d'" by (auto simp: req_inv_def)
  then have "events_of None d' = events_of None (sys_db s)" by (simp add: stepped_def frame_def)
  from lease_view_events[OF this] assms(5) show ?thesis by simp
qed

lemma retire_kept:
  assumes out: "outbox_inv (sys_db s)" and inv: "work_inv M s" and view: "lease_view (sys_db s) eid = Some l"
  shows "lease_view (retire_events sel (sys_db s)) eid = Some l \<or> (eid \<in> sys_accepted s \<and> (\<exists>f. l = Delivered f))"
proof -
  have inv': "outbox_inv (retire_events sel (sys_db s))" using out by (auto simp: outbox_inv_def retire_events_def)
  from view obtain x where x: "x \<in> set (outbox_events (sys_db s))" "ob_owner x = None" "ob_id x = eid" "l = lease_of_row x"
    by (rule lease_view_SomeD)
  show ?thesis
  proof (cases "retirable sel x")
    case True
    with x have "l = Delivered (ob_failed_attempts x)" by (simp add: retirable_def lease_of_row_def)
    with work_invD(1)[OF inv view] show ?thesis by (auto simp: lease_ok_def)
  next
    case False
    with x(1) have "x \<in> set (outbox_events (retire_events sel (sys_db s)))" by (simp add: retire_events_def)
    from lease_view_at[OF inv' this x(2)] x show ?thesis by simp
  qed
qed

lemma events_kept_step:
  assumes "sys_inv M s" "sys_run M W s t"
  shows "events_kept s t"
proof -
  have req: "req_inv s" and inv: "work_inv M s" using assms(1) by (auto simp: sys_inv_def)
  note out = req_inv_outbox[OF req]
  from assms(2) have "sys_step W s t" by (simp add: sys_run_def)
  then show ?thesis
  proof cases
    case (req_call sid pc tk pc' d')
    from req_step_kept[OF req req_call(2-4)] show ?thesis by (intro events_kept_grow) (auto simp: req_call(1))
  next
    case (req_end sid pc tk r d')
    from req_step_kept[OF req req_end(2-4)] show ?thesis by (intro events_kept_grow) (auto simp: req_end(1))
  next
    case (req_crash sid pc)
    have "lease_view (rollback_rows sid (sys_db s)) = lease_view (sys_db s)"
      by (rule lease_view_events) (use frame_rollback[of sid "sys_db s"] in \<open>simp add: frame_def\<close>)
    then show ?thesis by (intro events_kept_grow) (auto simp: req_crash)
  next
    case (work_claim w env res d')
    have "view_progress (lease_view (sys_db s)) (lease_view d')"
      by (rule pg.claim_progress[OF out work_claim(3)]) (use work_claim(4) in \<open>simp add: postgresStore_def\<close>)
    then show ?thesis by (intro events_kept_view) (auto simp: work_claim(1))
  next
    case (work_settle w ev answer env err obs d')
    from settleEvent_progress[OF out work_settle(3,4)] show ?thesis
      by (intro events_kept_view) (auto simp: work_settle(1))
  next
    case (cleanup_keys sel)
    have "lease_view (expire_keys sel (sys_db s)) = lease_view (sys_db s)"
      by (rule lease_view_events) (simp add: events_of_def expire_keys_def)
    then show ?thesis by (intro events_kept_grow) (auto simp: cleanup_keys)
  next
    case (cleanup_events sel)
    then show ?thesis
      using retire_kept[OF out inv] unfolding events_kept_def by fastforce
  qed (auto intro: events_kept_grow)
qed

section \<open>Answers are repeated\<close>

text \<open>The step in which a request returns a response, the same as \<open>req_end\<close>.\<close>

definition request_answers :: "system \<Rightarrow> session \<Rightarrow> createClaimParams \<Rightarrow> CreateClaimResult \<Rightarrow> system \<Rightarrow> bool" where
  "request_answers s sid p res t \<longleftrightarrow>
     (\<exists>pc tk d'. sys_req s sid = Some pc \<and> req_params pc = p \<and> calm tk \<and> req_next tk pc (sys_db s) = Some (Finish (Inr res), d') \<and>
        t = s\<lparr>sys_db := d', sys_req := (sys_req s)(sid := None), sys_fresh := sys_fresh s @ fresh_of (Inr res) p\<rparr>)"

lemma request_answers_step: "request_answers s sid p res t \<Longrightarrow> sys_step W s t"
  by (auto simp: request_answers_def intro: req_end)

text \<open>A step of the system in which clean-up does not delete a key.\<close>

definition kept_step :: "int \<Rightarrow> (go_string \<Rightarrow> Worker) \<Rightarrow> go_string \<Rightarrow> system \<Rightarrow> system \<Rightarrow> bool" where
  "kept_step M W h s t \<longleftrightarrow> sys_run M W s t \<and>
     (\<forall>k \<in> set (keys_of None (sys_db s)). ik_key_hash k = h \<longrightarrow> k \<in> set (keys_of None (sys_db t)))"

definition answer_stored :: "createClaimParams \<Rightarrow> CreateClaimResult \<Rightarrow> system \<Rightarrow> bool" where
  "answer_stored p res s \<longleftrightarrow> (\<exists>k \<in> set (keys_of None (sys_db s)). key_answers p res k)"

lemma req_next_params:
  "req_next tk pc d = Some (Continue pc', d') \<Longrightarrow> req_params pc' = req_params pc"
  by (cases pc) (auto simp: advance_def split: option.splits sum.splits if_splits)

lemma answers_ready:
  assumes "req_inv s" "request_answers s sid p res t"
  obtains tx where "sys_req s sid = Some (RReady tx p res)" "tx_sid tx = sid" "sys_db t = commit_rows sid (sys_db s)"
proof -
  from assms(2) obtain pc tk d' where pc: "sys_req s sid = Some pc" "req_params pc = p" "calm tk"
      "req_next tk pc (sys_db s) = Some (Finish (Inr res), d')" "sys_db t = d'"
    by (auto simp: request_answers_def)
  note own = req_inv_pc[OF assms(1) pc(1)]
  have "\<exists>tx q r. pc = RReady tx q r"
    using req_next_stepped[OF pc(3) _ _ _ pc(4), of "sys_retired s"] own assms(1) by (fastforce simp: req_inv_def stepped_def)
  then obtain tx r where ready: "pc = RReady tx p r" using pc(2) by auto
  from pc(3,4)[unfolded ready] show thesis
    by (cases rule: req_next_ready) (use that pc own ready in auto)
qed

lemma first_answer_stored:
  assumes "req_inv s" "request_answers s sid p res t" "\<not> res_Replayed res"
  shows "answer_stored p res t"
proof -
  from assms(1,2) obtain tx where pc: "sys_req s sid = Some (RReady tx p res)" "tx_sid tx = sid"
      "sys_db t = commit_rows sid (sys_db s)" by (rule answers_ready)
  from req_inv_pc[OF assms(1) pc(1)] assms(3) obtain k where k: "key_answers p res k" "k \<in> set (keys_of (Some sid) (sys_db s))"
    using pc(2) by (auto simp: owns_def split: if_splits)
  then have "key_answers p res (k\<lparr>ik_owner := None\<rparr>)" by (simp add: key_answers_def answered_row_def)
  moreover have "k\<lparr>ik_owner := None\<rparr> \<in> set (keys_of None (sys_db t))" using k(2) by (simp add: pc(3) commit_committed)
  ultimately show ?thesis unfolding answer_stored_def by blast
qed

lemma answer_kept: "kept_step M W (par_KeyHash p) s t \<Longrightarrow> answer_stored p res s \<Longrightarrow> answer_stored p res t"
  by (auto simp: answer_stored_def kept_step_def key_answers_def)

lemma answer_stored_under:
  assumes "req_inv s" "answer_stored p res s"
  obtains k where "stored_under p k (sys_db s)" "check_stored p k = Inr (res\<lparr>res_Replayed := True\<rparr>)"
  using assms by (auto simp: answer_stored_def key_answers_def stored_under_def req_inv_def unique_rows_def keys_of_def)

lemma no_request_idle: "req_inv s \<Longrightarrow> sys_req s sid = None \<Longrightarrow> idle_session sid (sys_db s)"
  by (auto simp: req_inv_def req_rows_ok_def owns_def of_defs idle_session_def filter_empty_conv dest!: spec[of _ sid])

text \<open>What a request with the same parameters can be doing when it began after the answer was stored.\<close>

definition follows_answer :: "createClaimParams \<Rightarrow> CreateClaimResult \<Rightarrow> req_pc option \<Rightarrow> bool" where
  "follows_answer p res pco \<longleftrightarrow>
     (\<forall>pc. pco = Some pc \<longrightarrow> req_params pc = p \<longrightarrow>
        (\<exists>tx. pc = RBegun tx p \<or> pc = RLoading tx p \<or> pc = RReady tx p (res\<lparr>res_Replayed := True\<rparr>)))"

lemma load_answer:
  assumes "stored_under p k d" "check_stored p k = Inr res" "calm tk" "tryLoadIdempotentClaimResult tx p tk d = Some (Inr (Some r), d')"
  shows "r = res"
proof -
  have "List.find (\<lambda>r. visible (tx_sid tx) (ik_owner r) \<and> ik_key_hash r = par_KeyHash p) (idem_keys d) = Some k"
  proof (cases "List.find (\<lambda>r. visible (tx_sid tx) (ik_owner r) \<and> ik_key_hash r = par_KeyHash p) (idem_keys d)")
    case None
    with assms(1) show ?thesis by (auto simp: find_None_conv stored_under_def visible_def)
  next
    case (Some x)
    with assms(1) show ?thesis
      by (auto simp: stored_under_def unique_keys_def dest!: find_Some_conv dest: distinct_map_eqD)
  qed
  then have "sql_load tx p d = Done k d" by (simp add: sql_load_def)
  with assms(2-4) calm_stmt[OF assms(3), of "sql_load tx p" d] show ?thesis
    by (auto simp: tryLoadIdempotentClaimResult_def split: option.splits sum.splits if_splits)
qed

lemma follows_answer_call:
  assumes "req_inv s" "answer_stored p res s" "follows_answer p res (Some pc)" "calm tk"
    "req_next tk pc (sys_db s) = Some (Continue pc', d')"
  shows "follows_answer p res (Some pc')"
proof (cases "req_params pc' = p")
  case True
  with req_next_params[OF assms(5)] assms(3) obtain tx where
    pc: "pc = RBegun tx p \<or> pc = RLoading tx p \<or> pc = RReady tx p (res\<lparr>res_Replayed := True\<rparr>)"
    by (auto simp: follows_answer_def)
  from answer_stored_under[OF assms(1,2)] obtain k where
    k: "stored_under p k (sys_db s)" "check_stored p k = Inr (res\<lparr>res_Replayed := True\<rparr>)" .
  from pc show ?thesis
  proof (elim disjE)
    assume begun: "pc = RBegun tx p"
    with assms(5) obtain b d1 where r: "tryReserveIdempotencyKey tx p tk (sys_db s) = Some (Inr b, d1)"
        "pc' = (if b then RReserved tx p else RLoading tx p)"
      by (auto simp: advance_def split: option.splits sum.splits)
    from assms(4) r(1) have "\<not> b"
      by (cases rule: reserve_effect) (use k(1) in \<open>auto simp: key_free_def stored_under_def\<close>)
    with r(2) show ?thesis by (auto simp: follows_answer_def)
  next
    assume "pc = RLoading tx p"
    with assms(5) obtain f d1 where r: "tryLoadIdempotentClaimResult tx p tk (sys_db s) = Some (Inr f, d1)"
        "pc' = (case f of None \<Rightarrow> RBegun tx p | Some r \<Rightarrow> RReady tx p r)"
      by (auto simp: advance_def split: option.splits sum.splits)
    with load_answer[OF k assms(4)] show ?thesis by (auto simp: follows_answer_def split: option.splits)
  next
    assume "pc = RReady tx p (res\<lparr>res_Replayed := True\<rparr>)"
    with assms(4,5) show ?thesis by (auto elim: req_next_ready)
  qed
qed (simp add: follows_answer_def)

lemma follows_answer_step:
  assumes "req_inv s" "sys_step W s t" "answer_stored p res s" "follows_answer p res (sys_req s sid)"
  shows "follows_answer p res (sys_req t sid)"
  using assms(2)
proof cases
  case (req_call sid' pc tk pc' d')
  with follows_answer_call[OF assms(1,3) _ req_call(3,4)] assms(4) show ?thesis by (cases "sid' = sid") auto
qed (use assms(4) in \<open>auto simp: follows_answer_def\<close>)

lemma kept_run_follows:
  assumes "(kept_step M W (par_KeyHash p))\<^sup>*\<^sup>* t u" "sys_inv M t" "answer_stored p res t" "follows_answer p res (sys_req t sid)"
  shows "sys_inv M u \<and> answer_stored p res u \<and> follows_answer p res (sys_req u sid)"
  using assms(1)
proof (induction rule: rtranclp_induct)
  case (step u v)
  then have run: "sys_run M W u v" by (simp add: kept_step_def)
  with step.IH sys.step_inv[of M u W v] answer_kept[OF step.hyps(2)] follows_answer_step[of u W v p res sid] show ?case
    by (auto simp: sys_inv_def sys_run_def)
qed (use assms(2-4) in simp)

lemma replay_changes_nothing:
  assumes "req_inv s" "request_answers s sid p res t" "res_Replayed res"
  shows "sys_db t = sys_db s"
proof -
  from assms(1,2) obtain tx where pc: "sys_req s sid = Some (RReady tx p res)" "tx_sid tx = sid"
      "sys_db t = commit_rows sid (sys_db s)" by (rule answers_ready)
  with req_inv_pc[OF assms(1) pc(1)] assms(3) have "idle_session sid (sys_db s)"
    by (auto simp: owns_def of_defs idle_session_def filter_empty_conv)
  with pc(3) show ?thesis by (simp add: idle_session_commit)
qed

section \<open>A request of the program is a run of the system\<close>

lemma req_run_reach:
  assumes "reach sys_init (sys_run M W) s" "workers_ok M W" "sys_req s sid = Some pc" "list_all calm tks"
    "req_run pc tks (sys_db s) = Some (r, [], d')"
  defines "t \<equiv> s\<lparr>sys_db := d', sys_req := (sys_req s)(sid := None),
     sys_fresh := sys_fresh s @ fresh_of r (req_params pc)\<rparr>"
  shows "reach sys_init (sys_run M W) t \<and>
    (\<forall>res. r = Inr res \<longrightarrow> (\<exists>x. reach sys_init (sys_run M W) x \<and> request_answers x sid (req_params pc) res t))"
  unfolding t_def using assms(1-5)
proof (induction tks arbitrary: s pc)
  case (Cons tk tks)
  from Cons.prems(5) obtain st d1 where nx: "req_next tk pc (sys_db s) = Some (st, d1)"
    by (auto split: option.splits)
  show ?case
  proof (cases st)
    case (Finish r')
    with nx Cons.prems(5) have "r' = r" "tks = []" "d1 = d'" by auto
    let ?t = "s\<lparr>sys_db := d', sys_req := (sys_req s)(sid := None), sys_fresh := sys_fresh s @ fresh_of r (req_params pc)\<rparr>"
    have calm: "calm tk" "req_next tk pc (sys_db s) = Some (Finish r, d')"
      using nx Finish Cons.prems(4) \<open>r' = r\<close> \<open>d1 = d'\<close> by simp_all
    then have "sys_step W s ?t" by (intro req_end[OF Cons.prems(3)])
    with Cons.prems(2) have "reach sys_init (sys_run M W) ?t"
      unfolding sys_run_def by (intro reach_step[OF Cons.prems(1)[unfolded sys_run_def]] conjI)
    moreover have "request_answers s sid (req_params pc) res ?t" if "r = Inr res" for res
      using that calm Cons.prems(3) unfolding request_answers_def by blast
    ultimately show ?thesis using Cons.prems(1) by blast
  next
    case (Continue pc')
    let ?s = "s\<lparr>sys_db := d1, sys_req := (sys_req s)(sid \<mapsto> pc')\<rparr>"
    have "sys_step W s ?s"
      by (rule req_call[OF Cons.prems(3), of tk]) (use Continue nx Cons.prems(4) in simp_all)
    with Cons.prems(2) have "sys_run M W s ?s" by (simp add: sys_run_def)
    with Cons.prems(1) have "reach sys_init (sys_run M W) ?s" by (rule reach_step)
    from Cons.IH[OF this Cons.prems(2), of pc'] Cons.prems(4,5) nx Continue req_next_params[of tk pc "sys_db s" pc' d1]
    show ?thesis by (simp cong: if_cong)
  qed
qed simp

lemma createClaim_reach:
  assumes "reach sys_init (sys_run M W) s" "workers_ok M W" "sys_req s (tx_sid tx) = None"
    "prepareCreateClaim cmd = Inr p" "quiet tk" "list_all calm tks"
    "createClaim tx p (tk # tks) (sys_db s) = Some (r, [], d')"
  defines "t \<equiv> s\<lparr>sys_db := d', sys_fresh := sys_fresh s @ fresh_of r p\<rparr>"
  shows "reach sys_init (sys_run M W) t \<and>
    (\<forall>res. r = Inr res \<longrightarrow> (\<exists>x. reach sys_init (sys_run M W) x \<and> request_answers x (tx_sid tx) p res t))"
proof -
  let ?s = "s\<lparr>sys_req := (sys_req s)(tx_sid tx \<mapsto> RBegun tx p)\<rparr>"
  have "sys_run M W s ?s" using assms(2-4) by (auto simp: sys_run_def intro: req_begin)
  with assms(1) have r: "reach sys_init (sys_run M W) ?s" by (rule reach_step)
  have "createClaim tx p (tk # tks) (sys_db s) = req_run (RBegun tx p) tks (sys_db s)"
    using assms(5) by (simp add: createClaim_def prog_bind_def begin_tx_quiet req_run_begun)
  with req_run_reach[OF r assms(2) _ assms(6), of "tx_sid tx" "RBegun tx p" r d'] assms(3,7) show ?thesis
    by (simp add: t_def fun_upd_idem)
qed

definition sample_workers :: "go_string \<Rightarrow> Worker" where
  "sample_workers w = sample_worker\<lparr>w_workerID := w\<rparr>"

definition sample_start :: system where
  "sample_start = \<lparr>sys_db = empty_db, sys_req = (\<lambda>_. None), sys_work = (\<lambda>_. WIdle), sys_fresh = [],
     sys_accepted = {}, sys_retired = {}\<rparr>"

definition sample_state :: system where
  "sample_state = sample_start\<lparr>sys_db := sample_db, sys_fresh := [par_identity sample_params]\<rparr>"

lemma sample_workers_ok: "workers_ok 5 sample_workers"
  by (simp add: workers_ok_def sample_workers_def sample_worker_def int64_def)

lemma sample_reached:
  "reach sys_init (sys_run 5 sample_workers) sample_state \<and>
    (\<exists>x. reach sys_init (sys_run 5 sample_workers) x \<and> request_answers x (tx_sid (sample_tx 1)) sample_params sample_result sample_state)"
proof -
  have init: "reach sys_init (sys_run 5 sample_workers) sample_start"
    by (rule reach_init) (simp add: sys_init_def sample_start_def)
  have run: "createClaim (sample_tx 1) sample_params (quiet_tick # sample_ticks 5) (sys_db sample_start) =
      Some (Inr sample_result, [], sample_db)"
    by (simp add: sample_ticks_def eval_nat_numeral createClaim_new sample_result_def sample_db_def sample_start_def)
  have "fresh_created (Inr sample_result)"
    by (simp add: fresh_created_def sample_result_def created_result_def)
  moreover have "list_all calm (sample_ticks 5)"
    by (simp add: sample_ticks_def list_all_iff calm_def quiet_tick_def)
  ultimately show ?thesis
    using createClaim_reach[OF init sample_workers_ok _ sample_prepare _ _ run]
    by (simp add: sample_state_def sample_start_def fresh_of_def)
qed

lemmas sample_reach = sample_reached[THEN conjunct1]
lemmas sample_answers = sample_reached[THEN conjunct2]

end
