(* ===== verification/Go_Http.thy ===== *)
theory Go_Http
  imports Go_Errors Go_Json
begin

text \<open>
  The parts of \<^verbatim>\<open>net/http\<close> that the handlers use.

  A handler never reads from its \<^verbatim>\<open>http.ResponseWriter\<close>, so what it does to it is a list of calls
  (\<open>writer_call\<close>), and it ends by returning or by a panic. Any writer gives the calls their meaning;
  \<open>server_call\<close> is the server's own writer: the first status that is written fixes the headers that
  are sent, later ones are ignored, a body without a status sends 200, and a status outside 100 to
  999 panics.
\<close>

type_synonym header = "go_string \<Rightarrow> go_string list"

record request =
  rq_method :: go_string
  rq_path :: go_string
  rq_escaped_path :: go_string
  rq_header :: header
  rq_body :: go_string
  rq_body_error :: "goerror option"
  rq_remote_addr :: go_string

text \<open>\<^verbatim>\<open>Header.Get\<close>: the first value, or the empty string. Header names are in canonical form.\<close>

definition header_get :: "header \<Rightarrow> go_string \<Rightarrow> go_string" where
  "header_get h k = (case h k of [] \<Rightarrow> [] | v # _ \<Rightarrow> v)"

datatype writer_call =
    SetHeader go_string go_string
  | DelHeader go_string
  | WriteHeader int
  | WriteBody go_string

datatype panic = ErrAbortHandler | OtherPanic string

record ResponseWriter =
  rw_header :: header
  rw_sent :: "(int \<times> header) option"
  rw_body :: go_string

definition invalid_status :: "int \<Rightarrow> bool" where
  "invalid_status status \<longleftrightarrow> status < 100 \<or> 999 < status"

text \<open>Informational statuses are sent on their own and leave the final one open.\<close>

definition informational :: "int \<Rightarrow> bool" where
  "informational status \<longleftrightarrow> 100 \<le> status \<and> status \<le> 199 \<and> status \<noteq> 101"

definition server_write_header :: "int \<Rightarrow> ResponseWriter \<Rightarrow> panic option \<times> ResponseWriter" where
  "server_write_header status w =
     (if rw_sent w \<noteq> None then (None, w)
      else if invalid_status status then (Some (OtherPanic ''invalid WriteHeader code''), w)
      else if informational status then (None, w)
      else (None, w\<lparr>rw_sent := Some (status, rw_header w)\<rparr>))"

fun server_call :: "writer_call \<Rightarrow> ResponseWriter \<Rightarrow> panic option \<times> ResponseWriter" where
  "server_call (SetHeader k v) w = (None, w\<lparr>rw_header := (rw_header w)(k := [v])\<rparr>)"
| "server_call (DelHeader k) w = (None, w\<lparr>rw_header := (rw_header w)(k := [])\<rparr>)"
| "server_call (WriteHeader status) w = server_write_header status w"
| "server_call (WriteBody body) w =
     (let w1 = snd (server_write_header 200 w) in (None, w1\<lparr>rw_body := rw_body w1 @ body\<rparr>))"

text \<open>A list of calls on a writer whose single calls are \<open>call\<close>: a panic ends it.\<close>

fun run_calls :: "(writer_call \<Rightarrow> 'w \<Rightarrow> panic option \<times> 'w) \<Rightarrow> writer_call list \<Rightarrow> 'w \<Rightarrow> panic option \<times> 'w" where
  "run_calls call [] w = (None, w)"
| "run_calls call (c # cs) w =
     (case call c w of
        (Some p, w1) \<Rightarrow> (Some p, w1)
      | (None, w1) \<Rightarrow> run_calls call cs w1)"

text \<open>What a handler does: its calls, what it told its observers and the log, how it ended, and the
  state it leaves. A handler that waits for ever has no outcome.\<close>

record ('s, 'e) outcome =
  out_calls :: "writer_call list"
  out_events :: "'e list"
  out_panic :: "panic option"
  out_state :: 's

type_synonym ('s, 'e) handler = "request \<Rightarrow> 's \<Rightarrow> ('s, 'e) outcome option"

definition respond :: "writer_call list \<Rightarrow> 'e list \<Rightarrow> 's \<Rightarrow> ('s, 'e) outcome option" where
  "respond calls events s =
     Some \<lparr>out_calls = calls, out_events = events, out_panic = None, out_state = s\<rparr>"

declare respond_def [handler_defs]

definition empty_writer :: ResponseWriter where
  "empty_writer = \<lparr>rw_header = (\<lambda>_. []), rw_sent = None, rw_body = []\<rparr>"

lemma run_calls_append:
  "run_calls call (cs @ ds) w =
     (case run_calls call cs w of
        (Some p, w1) \<Rightarrow> (Some p, w1)
      | (None, w1) \<Rightarrow> run_calls call ds w1)"
  by (induction cs arbitrary: w) (auto split: prod.splits option.splits)

lemma invalid_status_simps [simp]:
  "\<not> invalid_status 200" "\<not> informational 200"
  by (simp_all add: invalid_status_def informational_def)

text \<open>Headers that are set are the ones that a later status sends; a response that has been started
  keeps its status.\<close>

lemma server_sent_stable:
  "rw_sent w = Some x \<Longrightarrow> rw_sent (snd (server_call c w)) = Some x"
  by (cases c) (auto simp: server_write_header_def Let_def)

lemma run_sent_stable: "rw_sent w = Some x \<Longrightarrow> rw_sent (snd (run_calls server_call cs w)) = Some x"
proof (induction cs arbitrary: w)
  case (Cons c cs)
  obtain p w1 where c: "server_call c w = (p, w1)" by fastforce
  with server_sent_stable[OF Cons.prems, of c] have "rw_sent w1 = Some x" by simp
  with Cons.IH c show ?case by (cases p) auto
qed simp

end
