(* ===== verification/Http_Response.thy ===== *)
theory Http_Response
  imports Go_Http Rewards
begin

text \<open>
  \<^verbatim>\<open>internal/httpapi/response.go\<close>: JSON responses and the error body, and the events of the HTTP
  layer: calls to its observers and its log records.
\<close>

datatype http_event =
    ObserveRewardClaim "goerror + CreateClaimResult"
  | LogClaimError int string
  | LogPanic
  | ObserveRequest go_string go_string int
  | LogRequest int go_string go_string go_string int go_string go_string

definition errorCodeInternal :: go_string where "errorCodeInternal = ''internal_error''"
definition errorCodeMethodNotAllowed :: go_string where "errorCodeMethodNotAllowed = ''method_not_allowed''"
definition errorCodeNotFound :: go_string where "errorCodeNotFound = ''not_found''"

text \<open>\<^verbatim>\<open>errorResponse\<close> and \<^verbatim>\<open>errorBody\<close> as the encoder prints them.\<close>

definition errorResponse :: "go_string \<Rightarrow> go_string \<Rightarrow> json" where
  "errorResponse code message =
     JObject [(''error'', JObject [(''code'', JString code), (''message'', JString message)])]"

definition writeJSON :: "int \<Rightarrow> json \<Rightarrow> writer_call list" where
  "writeJSON status body =
     [SetHeader ''Content-Type'' ''application/json'', WriteHeader status, WriteBody (json_encode body)]"

definition writeRawJSON :: "int \<Rightarrow> go_string \<Rightarrow> writer_call list" where
  "writeRawJSON status body =
     [SetHeader ''Content-Type'' ''application/json'', WriteHeader status, WriteBody body]"

definition writeError :: "int \<Rightarrow> go_string \<Rightarrow> go_string \<Rightarrow> writer_call list" where
  "writeError status code message = writeJSON status (errorResponse code message)"

fun join_strings :: "go_string \<Rightarrow> go_string list \<Rightarrow> go_string" where
  "join_strings sep [] = []"
| "join_strings sep [x] = x"
| "join_strings sep (x # y # ys) = x @ sep @ join_strings sep (y # ys)"

definition writeMethodNotAllowed :: "go_string list \<Rightarrow> writer_call list" where
  "writeMethodNotAllowed allowedMethods =
     SetHeader ''Allow'' (join_strings '', '' allowedMethods) #
     writeError 405 errorCodeMethodNotAllowed ''Method not allowed''"

section \<open>Complete responses\<close>

text \<open>The calls of one complete JSON response: headers, one status, one body.\<close>

definition json_response :: "(go_string \<times> go_string) list \<Rightarrow> int \<Rightarrow> go_string \<Rightarrow> writer_call list" where
  "json_response hs status body =
     map (\<lambda>(k, v). SetHeader k v) hs @
     [SetHeader ''Content-Type'' ''application/json'', WriteHeader status, WriteBody body]"

definition final_status :: "int \<Rightarrow> bool" where
  "final_status status \<longleftrightarrow> \<not> invalid_status status \<and> \<not> informational status"

definition set_headers :: "(go_string \<times> go_string) list \<Rightarrow> header \<Rightarrow> header" where
  "set_headers hs h = fold (\<lambda>(k, v) h. h(k := [v])) hs h"

lemma run_set_headers:
  "run_calls server_call (map (\<lambda>(k, v). SetHeader k v) hs) w = (None, w\<lparr>rw_header := set_headers hs (rw_header w)\<rparr>)"
  by (induction hs arbitrary: w) (auto simp: set_headers_def)

lemma run_json_response:
  assumes "rw_sent w = None" "final_status status"
  shows "run_calls server_call (json_response hs status body) w =
    (None, w\<lparr>rw_header := (set_headers hs (rw_header w))(''Content-Type'' := [''application/json'']),
       rw_sent := Some (status, (set_headers hs (rw_header w))(''Content-Type'' := [''application/json''])),
       rw_body := rw_body w @ body\<rparr>)"
  using assms
  by (simp add: json_response_def run_calls_append run_set_headers server_write_header_def final_status_def Let_def)

lemma writeError_response: "writeError status code message = json_response [] status (json_encode (errorResponse code message))"
  by (simp add: writeError_def writeJSON_def json_response_def)

lemma writeRawJSON_response: "writeRawJSON status body = json_response [] status body"
  by (simp add: writeRawJSON_def json_response_def)

lemma writeMethodNotAllowed_response:
  "writeMethodNotAllowed ms = json_response [(''Allow'', join_strings '', '' ms)] 405
     (json_encode (errorResponse errorCodeMethodNotAllowed ''Method not allowed''))"
  by (simp add: writeMethodNotAllowed_def writeError_response json_response_def)

end
