(* ===== verification/Go_Mime.thy ===== *)
theory Go_Mime
  imports Go_Numbers
begin

text \<open>
  \<^verbatim>\<open>mime.ParseMediaType\<close> as the service uses it: the media type of a header value and whether the
  parameters after it can be parsed. A result is the media type as a list of runes in lower case
  (compared with an ASCII name only, see \<open>lower_view\<close>); \<open>None\<close> is an error. The values of the
  parameters matter only in that a name must not be given two values.
\<close>

definition is_tspecial :: "char \<Rightarrow> bool" where
  "is_tspecial c \<longleftrightarrow> c \<in> set ''()<>@,;:/[]?='' \<or> c = CHR 0x22 \<or> c = CHR 0x5C"

definition is_token_char :: "char \<Rightarrow> bool" where
  "is_token_char c \<longleftrightarrow> 32 < byte_of c \<and> byte_of c < 127 \<and> \<not> is_tspecial c"

definition consume_token :: "go_string \<Rightarrow> go_string \<times> go_string" where
  "consume_token v = (takeWhile is_token_char v, dropWhile is_token_char v)"

text \<open>The inside of a quoted string: \<open>None\<close> when it does not end properly.\<close>

fun consume_quoted :: "go_string \<Rightarrow> (go_string \<times> go_string) option" where
  "consume_quoted [] = None"
| "consume_quoted (c # s) =
     (if c = CHR 0x22 then Some ([], s)
      else if c = CHR 0x5C \<and> s \<noteq> [] \<and> is_tspecial (hd s)
      then map_option (apfst ((#) (hd s))) (consume_quoted (tl s))
      else if c = CHR 0x0D \<or> c = CHR 0x0A then None
      else map_option (apfst ((#) c)) (consume_quoted s))"

definition consume_value :: "go_string \<Rightarrow> go_string \<times> go_string" where
  "consume_value v =
     (case v of
        [] \<Rightarrow> ([], [])
      | c # s \<Rightarrow>
          if c \<noteq> CHR 0x22 then consume_token v
          else (case consume_quoted s of None \<Rightarrow> ([], v) | Some r \<Rightarrow> r))"

definition cut_prefix :: "char \<Rightarrow> go_string \<Rightarrow> go_string option" where
  "cut_prefix c s = (case s of [] \<Rightarrow> None | d # t \<Rightarrow> if d = c then Some t else None)"

text \<open>\<^verbatim>\<open>consumeMediaParam\<close>: name, value and rest, or \<open>None\<close> where the code returns an empty name.\<close>

definition consume_media_param :: "go_string \<Rightarrow> (go_string \<times> go_string \<times> go_string) option" where
  "consume_media_param v =
     (case cut_prefix (CHR '';'') (trim_left v) of
        None \<Rightarrow> None
      | Some r \<Rightarrow>
          (let (param, r1) = consume_token (trim_left r)
           in if param = [] then None
              else (case cut_prefix (CHR ''='') (trim_left r1) of
                  None \<Rightarrow> None
                | Some r2 \<Rightarrow>
                    (let r3 = trim_left r2; (val, r4) = consume_value r3
                     in if val = [] \<and> r4 = r3 then None else Some (param, val, r4)))))"

lemma trim_left_length: "length (trim_left s) \<le> length s"
  using trim_left_suffix[of s] by (metis length_append le_add2)

lemma cut_prefix_length: "cut_prefix c s = Some r \<Longrightarrow> length r < length s"
  by (auto simp: cut_prefix_def split: list.splits if_splits)

lemma consume_quoted_length: "consume_quoted s = Some (v, r) \<Longrightarrow> length r < length s"
proof (induction s arbitrary: v rule: consume_quoted.induct)
  case (2 c s)
  show ?case
  proof (cases "c = CHR 0x5C \<and> s \<noteq> [] \<and> is_tspecial (hd s)")
    case True
    with 2 obtain v' where "consume_quoted (tl s) = Some (v', r)" by (auto split: if_splits)
    with "2.IH"(1) True have "length r < length (tl s)" by auto
    then show ?thesis by simp
  next
    case False
    with 2 show ?thesis by (fastforce split: if_splits)
  qed
qed simp

lemma consume_value_length: "consume_value v = (x, r) \<Longrightarrow> length r \<le> length v"
  by (auto simp: consume_value_def consume_token_def split: list.splits if_splits option.splits
      dest!: consume_quoted_length intro: order_trans[OF length_dropWhile_le])

lemma consume_media_param_length:
  assumes "consume_media_param v = Some (p, x, rest)"
  shows "length rest < length v"
proof -
  from assms obtain r where r: "cut_prefix (CHR '';'') (trim_left v) = Some r"
    by (auto simp: consume_media_param_def split: option.splits)
  define r1 where "r1 = dropWhile is_token_char (trim_left r)"
  from assms r obtain r2 where r2: "cut_prefix (CHR ''='') (trim_left r1) = Some r2"
    and val: "consume_value (trim_left r2) = (x, rest)"
    by (auto simp: consume_media_param_def consume_token_def r1_def Let_def split: option.splits if_splits prod.splits)
  have "length r < length v" using cut_prefix_length[OF r] trim_left_length[of v] by simp
  moreover have "length r1 \<le> length r"
    using length_dropWhile_le[of is_token_char "trim_left r"] trim_left_length[of r] by (simp add: r1_def)
  moreover have "length r2 < length r1" using cut_prefix_length[OF r2] trim_left_length[of r1] by simp
  moreover have "length rest \<le> length r2" using consume_value_length[OF val] trim_left_length[of r2] by simp
  ultimately show ?thesis by simp
qed

lemma consume_trimmed_length: "consume_media_param (trim_left v) = Some (p, x, r) \<Longrightarrow> length r < length v"
  using consume_media_param_length[of "trim_left v" p x r] trim_left_length[of v] by simp

text \<open>The loop over the parameters; \<open>seen\<close> holds the names in lower case with their values. A name
  is a token and so ASCII. A lone semicolon at the end is ignored.\<close>

function params_ok_loop :: "(rune list \<times> go_string) list \<Rightarrow> go_string \<Rightarrow> bool" where
  "params_ok_loop seen v0 =
     (let v = trim_left v0
      in if v = [] then True
         else (case consume_media_param v of
             None \<Rightarrow> trim_space v = '';''
           | Some (param, val, rest) \<Rightarrow>
               (let key = lower_view param
                in case map_of seen key of
                     Some val' \<Rightarrow> val' = val \<and> params_ok_loop seen rest
                   | None \<Rightarrow> params_ok_loop ((key, val) # seen) rest)))"
  by pat_completeness auto
termination
  by (relation "measure (length \<circ> snd)") (auto dest: consume_trimmed_length)

declare params_ok_loop.simps [simp del]

text \<open>Trimming on a list of runes.\<close>

definition trim_runes :: "rune list \<Rightarrow> rune list" where
  "trim_runes rs = rev (dropWhile is_space (rev (dropWhile is_space rs)))"

definition is_token_rune :: "rune \<Rightarrow> bool" where
  "is_token_rune r \<longleftrightarrow> r < 128 \<and> is_token_char (char_of r)"

text \<open>\<^verbatim>\<open>checkMediaTypeDisposition\<close>: a token, or two with a slash between them.\<close>

definition media_type_ok :: "rune list \<Rightarrow> bool" where
  "media_type_ok rs =
     (let rest = dropWhile is_token_rune rs
      in takeWhile is_token_rune rs \<noteq> [] \<and>
         (rest = [] \<or> (hd rest = 47 \<and> tl rest \<noteq> [] \<and> list_all is_token_rune (tl rest))))"

definition parse_media_type :: "go_string \<Rightarrow> rune list option" where
  "parse_media_type v =
     (let base = takeWhile ((\<noteq>) (CHR '';'')) v;
          mediatype = trim_runes (lower_view base)
      in if media_type_ok mediatype \<and> params_ok_loop [] (drop (length base) v)
         then Some mediatype else None)"

end
