(* ===== verification/Go_Json_Decode.thy ===== *)
theory Go_Json_Decode
  imports Go_Json
begin

text \<open>
  Decoding with \<^verbatim>\<open>encoding/json/v2\<close>: \<^verbatim>\<open>json.Unmarshal(body, &req, json.RejectUnknownMembers(true))\<close>
  for a pointer to a struct whose fields are strings.

  The decoder reads the input once, member by member, and stops at the first error: bytes that are
  not UTF-8, a lone surrogate, a repeated name, a value that is neither a string nor \<^verbatim>\<open>null\<close>,
  anything after the value. A name the struct does not have is reported as such as soon as it has
  been read (\<open>DecUnknownName\<close>), before what follows it is looked at; every other error is
  \<open>DecInvalid\<close>, which is all the service tells apart. \<^verbatim>\<open>null\<close> for the whole value is the nil
  pointer, \<^verbatim>\<open>null\<close> for a field its zero value. Names match exactly.

  The main result is the round trip: what a printer of JSON writes for a string is read back.
\<close>

section \<open>Strings\<close>

text \<open>\<^verbatim>\<open>utf8.AppendRune\<close> for a valid code point.\<close>

definition byte_char :: "int \<Rightarrow> char" where
  "byte_char b = char_of b"

definition encode_rune :: "rune \<Rightarrow> go_string" where
  "encode_rune r =
     (if r < 128 then [byte_char r]
      else if r < 2048 then [byte_char (192 + r div 64), byte_char (128 + r mod 64)]
      else if r < 65536
      then [byte_char (224 + r div 4096), byte_char (128 + r div 64 mod 64), byte_char (128 + r mod 64)]
      else [byte_char (240 + r div 262144), byte_char (128 + r div 4096 mod 64),
            byte_char (128 + r div 64 mod 64), byte_char (128 + r mod 64)])"

definition hex_value :: "char \<Rightarrow> int" where
  "hex_value c =
     (if is_digit c then byte_of c - 48
      else if 97 \<le> byte_of c then byte_of c - 87
      else byte_of c - 55)"

text \<open>Four hexadecimal digits.\<close>

fun read_hex4 :: "go_string \<Rightarrow> (int \<times> go_string) option" where
  "read_hex4 (a # b # c # d # s) =
     (if is_hex a \<and> is_hex b \<and> is_hex c \<and> is_hex d
      then Some (((hex_value a * 16 + hex_value b) * 16 + hex_value c) * 16 + hex_value d, s)
      else None)"
| "read_hex4 _ = None"

definition is_surrogate :: "rune \<Rightarrow> bool" where
  "is_surrogate r \<longleftrightarrow> 55296 \<le> r \<and> r < 57344"

text \<open>What follows \<open>\u\<close>: a code point, which takes a second escape if the first is a
  surrogate; both must form a pair.\<close>

definition read_unicode :: "go_string \<Rightarrow> (rune \<times> go_string) option" where
  "read_unicode s =
     (case read_hex4 s of
        None \<Rightarrow> None
      | Some (v, s1) \<Rightarrow>
          if \<not> is_surrogate v then Some (v, s1)
          else (case s1 of
              b # u # s2 \<Rightarrow>
                if b = CHR 0x5C \<and> u = CHR ''u'' then
                  (case read_hex4 s2 of
                     None \<Rightarrow> None
                   | Some (w, s3) \<Rightarrow>
                       if v < 56320 \<and> 56320 \<le> w \<and> w < 57344
                       then Some (65536 + (v - 55296) * 1024 + (w - 56320), s3)
                       else None)
                else None
            | _ \<Rightarrow> None))"

definition escape_value :: "char \<Rightarrow> char option" where
  "escape_value e = map_of
     [(CHR 0x22, CHR 0x22), (CHR 0x5C, CHR 0x5C), (CHR ''/'', CHR ''/''), (CHR ''b'', CHR 0x08),
      (CHR ''f'', CHR 0x0C), (CHR ''n'', CHR 0x0A), (CHR ''r'', CHR 0x0D), (CHR ''t'', CHR 0x09)] e"

lemma read_hex4_length: "read_hex4 s = Some (v, r) \<Longrightarrow> length r < length s"
  by (induction s rule: read_hex4.induct) (auto split: if_splits)

lemma read_unicode_length: "read_unicode s = Some (v, r) \<Longrightarrow> length r < length s"
  by (auto simp: read_unicode_def split: option.splits if_splits list.splits dest!: read_hex4_length)

text \<open>The rest of a string after its opening quote: the bytes it stands for, and what follows the
  closing quote.\<close>

function read_string :: "go_string \<Rightarrow> (go_string \<times> go_string) option" where
  "read_string s =
     (case s of
        [] \<Rightarrow> None
      | c # t \<Rightarrow>
          if c = CHR 0x22 then Some ([], t)
          else if c = CHR 0x5C then
            (case t of
               [] \<Rightarrow> None
             | e # t1 \<Rightarrow>
                 if e = CHR ''u'' then
                   (case read_unicode t1 of
                      None \<Rightarrow> None
                    | Some (r, t2) \<Rightarrow> map_option (apfst ((@) (encode_rune r))) (read_string t2))
                 else
                   (case escape_value e of
                      None \<Rightarrow> None
                    | Some b \<Rightarrow> map_option (apfst ((#) b)) (read_string t1)))
          else if byte_of c < 32 then None
          else if decode_rune s = (rune_error, 1) then None
          else map_option (apfst ((@) (take (snd (decode_rune s)) s)))
                 (read_string (drop (snd (decode_rune s)) s)))"
  by pat_completeness auto
termination
proof (relation "measure length", goal_cases)
  case (4 s c t)
  then show ?case using decode_rune_width_pos[of s] by auto
qed (auto dest: read_unicode_length)

declare read_string.simps [simp del]

section \<open>Objects\<close>

datatype decode_error = DecUnknownName | DecInvalid

text \<open>A field's value: a string, or \<^verbatim>\<open>null\<close> for the zero value.\<close>

definition read_field :: "go_string \<Rightarrow> (go_string \<times> go_string) option" where
  "read_field s =
     (case skip_ws s of
        [] \<Rightarrow> None
      | c # t \<Rightarrow>
          if c = CHR 0x22 then read_string t
          else map_option (Pair []) (scan_literal ''null'' (c # t)))"

text \<open>A member's name must be the field of a name that has not been seen.\<close>

definition read_name :: "go_string list \<Rightarrow> go_string list \<Rightarrow> go_string \<Rightarrow> decode_error + go_string \<times> go_string" where
  "read_name fields seen s =
     (case s of
        [] \<Rightarrow> Inl DecInvalid
      | c # t \<Rightarrow>
          if c \<noteq> CHR 0x22 then Inl DecInvalid
          else (case read_string t of
              None \<Rightarrow> Inl DecInvalid
            | Some (name, r) \<Rightarrow>
                if name \<notin> set fields then Inl DecUnknownName
                else if name \<in> set seen then Inl DecInvalid
                else Inr (name, r)))"

definition read_colon :: "go_string \<Rightarrow> go_string option" where
  "read_colon s =
     (case skip_ws s of [] \<Rightarrow> None | c # t \<Rightarrow> if c = CHR '':'' then Some t else None)"

text \<open>One member: its name, a colon, its value.\<close>

definition read_member ::
  "go_string list \<Rightarrow> go_string list \<Rightarrow> go_string \<Rightarrow> decode_error + (go_string \<times> go_string) \<times> go_string" where
  "read_member fields seen s =
     (case read_name fields seen s of
        Inl e \<Rightarrow> Inl e
      | Inr (name, r) \<Rightarrow>
          (case read_colon r of
             None \<Rightarrow> Inl DecInvalid
           | Some r1 \<Rightarrow>
               (case read_field r1 of
                  None \<Rightarrow> Inl DecInvalid
                | Some (v, r2) \<Rightarrow> Inr ((name, v), r2))))"

lemma read_string_eqs:
  "read_string [] = None"
  "read_string (CHR 0x22 # t) = Some ([], t)"
  "read_string [CHR 0x5C] = None"
  "read_string (CHR 0x5C # CHR ''u'' # t) =
     (case read_unicode t of None \<Rightarrow> None
      | Some (r, t2) \<Rightarrow> map_option (apfst ((@) (encode_rune r))) (read_string t2))"
  "e \<noteq> CHR ''u'' \<Longrightarrow> read_string (CHR 0x5C # e # t) =
     (case escape_value e of None \<Rightarrow> None | Some b \<Rightarrow> map_option (apfst ((#) b)) (read_string t))"
  "c \<noteq> CHR 0x22 \<Longrightarrow> c \<noteq> CHR 0x5C \<Longrightarrow> read_string (c # t) =
     (if byte_of c < 32 \<or> decode_rune (c # t) = (rune_error, 1) then None
      else map_option (apfst ((@) (take (snd (decode_rune (c # t))) (c # t))))
             (read_string (drop (snd (decode_rune (c # t))) (c # t))))"
  by (subst read_string.simps, simp)+

lemma read_string_SomeE:
  assumes "read_string s = Some (v, r)"
  obtains (close) "s = CHR 0x22 # r" "v = []"
  | (unicode) t x t2 v' where "s = CHR 0x5C # CHR ''u'' # t" "read_unicode t = Some (x, t2)"
      "read_string t2 = Some (v', r)" "v = encode_rune x @ v'"
  | (escape) e t b v' where "s = CHR 0x5C # e # t" "escape_value e = Some b" "read_string t = Some (v', r)" "v = b # v'"
  | (plain) v' where "s \<noteq> []" "read_string (drop (snd (decode_rune s)) s) = Some (v', r)"
      "v = take (snd (decode_rune s)) s @ v'"
proof (cases s)
  case (Cons c t)
  consider "c = CHR 0x22" | "c = CHR 0x5C" | (other) "c \<noteq> CHR 0x22" "c \<noteq> CHR 0x5C" by blast
  then show ?thesis
  proof cases
    case 1
    with assms Cons show ?thesis by (intro close) (simp_all add: read_string_eqs)
  next
    case 2
    with assms Cons obtain e t1 where t: "t = e # t1" by (cases t) (simp_all add: read_string_eqs)
    show ?thesis
    proof (cases "e = CHR ''u''")
      case True
      with assms 2 Cons t obtain x t2 v' where "read_unicode t1 = Some (x, t2)" "read_string t2 = Some (v', r)"
          "v = encode_rune x @ v'"
        by (auto simp: read_string_eqs split: option.splits)
      with True 2 Cons t show ?thesis by (intro unicode) auto
    next
      case False
      with assms 2 Cons t obtain b v' where "escape_value e = Some b" "read_string t1 = Some (v', r)" "v = b # v'"
        by (auto simp: read_string_eqs split: option.splits)
      with 2 Cons t show ?thesis by (intro escape) auto
    qed
  next
    case other
    from assms obtain v' where "read_string (drop (snd (decode_rune s)) s) = Some (v', r)"
        "v = take (snd (decode_rune s)) s @ v'"
      unfolding Cons read_string_eqs(6)[OF other]
      by (auto simp del: decode_rune.simps split: if_splits)
    with Cons show ?thesis by (intro plain) simp_all
  qed
qed (use assms in \<open>simp add: read_string_eqs\<close>)

lemma read_string_length: "read_string s = Some (v, r) \<Longrightarrow> length r < length s"
proof (induction s arbitrary: v rule: length_induct)
  case (1 s)
  from "1.prems" show ?case
  proof (cases rule: read_string_SomeE)
    case (unicode t x t2 v')
    then have "length t2 < length s" using read_unicode_length[OF unicode(2)] by simp
    moreover from this have "length r < length t2" using "1.IH" unicode(3) by blast
    ultimately show ?thesis by simp
  next
    case (escape e t b v')
    then have "length r < length t" using "1.IH" by simp
    with escape show ?thesis by simp
  next
    case (plain v')
    have "length (drop (snd (decode_rune s)) s) < length s" using decode_rune_width_pos[OF plain(1)] plain(1) by simp
    with plain(2) "1.IH" show ?thesis by (meson less_trans)
  qed simp
qed

lemma read_field_length: "read_field s = Some (v, r) \<Longrightarrow> length r < length s"
proof -
  assume r: "read_field s = Some (v, r)"
  then obtain c t where s: "skip_ws s = c # t" by (auto simp: read_field_def split: list.splits)
  have "length r < length (c # t)"
    using r s by (auto simp: read_field_def scan_literal_def dest!: read_string_length split: if_splits)
  with skip_ws_length[of s] s show ?thesis by simp
qed

lemma read_member_length: "read_member fields seen s = Inr (nv, r) \<Longrightarrow> length r < length s"
proof -
  assume "read_member fields seen s = Inr (nv, r)"
  then obtain name r0 r1 v where n: "read_name fields seen s = Inr (name, r0)" "read_colon r0 = Some r1"
      "read_field r1 = Some (v, r)"
    by (auto simp: read_member_def split: sum.splits option.splits)
  have "length r0 < length s"
    using n(1) by (auto simp: read_name_def dest!: read_string_length split: list.splits option.splits if_splits)
  moreover have "length r1 < length r0"
    using n(2) by (auto simp: read_colon_def dest!: skip_ws_ConsD split: list.splits if_splits)
  ultimately show ?thesis using read_field_length[OF n(3)] by simp
qed

text \<open>The members of an object after its opening brace; \<open>acc\<close> holds those read so far.\<close>

function read_members ::
  "go_string list \<Rightarrow> (go_string \<times> go_string) list \<Rightarrow> go_string \<Rightarrow>
     decode_error + (go_string \<times> go_string) list \<times> go_string" where
  "read_members fields acc s =
     (case skip_ws s of
        [] \<Rightarrow> Inl DecInvalid
      | c # t \<Rightarrow>
          if c = CHR ''}'' then Inr (acc, t)
          else if acc \<noteq> [] \<and> c \<noteq> CHR '','' then Inl DecInvalid
          else (case read_member fields (map fst acc) (if acc = [] then c # t else skip_ws t) of
              Inl e \<Rightarrow> Inl e
            | Inr (nv, r) \<Rightarrow> read_members fields (acc @ [nv]) r))"
  by pat_completeness auto
termination
proof (relation "measure (length \<circ> snd \<circ> snd)", goal_cases)
  case (2 fields acc s c t nvr nv r)
  then show ?case
    using skip_ws_length[of s] skip_ws_length[of t] by (auto dest!: read_member_length split: if_splits)
qed simp

declare read_members.simps [simp del]

text \<open>The whole input: \<open>None\<close> is the nil pointer.\<close>

definition at_end :: "'a \<Rightarrow> go_string \<Rightarrow> decode_error + 'a" where
  "at_end x r = (if skip_ws r = [] then Inr x else Inl DecInvalid)"

definition unmarshal_struct :: "go_string list \<Rightarrow> go_string \<Rightarrow> decode_error + (go_string \<times> go_string) list option" where
  "unmarshal_struct fields body =
     (case skip_ws body of
        [] \<Rightarrow> Inl DecInvalid
      | c # t \<Rightarrow>
          if c = CHR ''{'' then
            (case read_members fields [] t of Inl e \<Rightarrow> Inl e | Inr (kvs, r) \<Rightarrow> at_end (Some kvs) r)
          else
            (case scan_literal ''null'' (c # t) of None \<Rightarrow> Inl DecInvalid | Some r \<Rightarrow> at_end None r))"

section \<open>Reading what was printed\<close>

lemma hex_value_hex_digit [simp]: "hex_value (hex_digit n) = n mod 16"
proof -
  have "\<forall>k \<in> set [0..<16]. hex_value (''0123456789abcdef'' ! k) = int k" by code_simp
  moreover have "nat (n mod 16) \<in> set [0..<16]" by (simp add: nat_less_iff)
  ultimately have "hex_value (''0123456789abcdef'' ! nat (n mod 16)) = int (nat (n mod 16))" by blast
  then show ?thesis by (simp add: hex_digit_def)
qed

lemma read_unicode_hex4:
  assumes "0 \<le> n" "n < 65536" "\<not> is_surrogate n"
  shows "read_string (hex4 n @ u) = map_option (apfst ((@) (encode_rune n))) (read_string u)"
proof -
  have "(((n div 4096 mod 16) * 16 + n div 256 mod 16) * 16 + n div 16 mod 16) * 16 + n mod 16 = n"
  proof -
    have "n div 256 = n div 16 div 16" "n div 4096 = n div 16 div 16 div 16"
      by (simp_all add: zdiv_zmult2_eq[symmetric])
    moreover have "n div 4096 mod 16 = n div 4096" using assms(1,2) by (simp add: mod_pos_pos_trivial)
    ultimately show ?thesis
      using div_mult_mod_eq[of n 16] div_mult_mod_eq[of "n div 16" 16] div_mult_mod_eq[of "n div 16 div 16" 16]
      by presburger
  qed
  then have "read_hex4 (hex_digit (n div 4096) # hex_digit (n div 256 mod 16) # hex_digit (n div 16 mod 16) #
      hex_digit (n mod 16) # u) = Some (n, u)"
    by (simp only: read_hex4.simps is_hex_hex_digit hex_value_hex_digit simp_thms if_True mod_mod_trivial)
  then have "read_unicode (hex_digit (n div 4096) # hex_digit (n div 256 mod 16) # hex_digit (n div 16 mod 16) #
      hex_digit (n mod 16) # u) = Some (n, u)"
    using assms(3) by (simp only: read_unicode_def option.case prod.case simp_thms if_True)
  then show ?thesis unfolding hex4_def append_Cons append_Nil read_string_eqs(4) by (simp only: option.case prod.case)
qed

lemma byte_char_byte_of [simp]: "byte_char (byte_of c) = c"
  by (simp add: byte_char_def)

lemma byte_of_eqD: "byte_of c = n \<Longrightarrow> c = byte_char n"
  using byte_char_byte_of[of c] by simp

lemma byte_of_nonneg [simp]: "0 \<le> byte_of c"
  using of_char_mod_256[of c, where 'a = int] pos_mod_sign[of 256 "byte_of c"] by simp

lemma byte_char_eqs:
  "byte_char 34 = CHR 0x22" "byte_char 92 = CHR 0x5C" "byte_char 8 = CHR 0x08" "byte_char 12 = CHR 0x0C"
  "byte_char 10 = CHR 0x0A" "byte_char 13 = CHR 0x0D" "byte_char 9 = CHR 0x09"
  by code_simp+

lemma append_single: "(@) [c] = (#) c"
  by (rule ext) simp

lemma read_escape_ascii:
  assumes "byte_of c < 128"
  shows "read_string (escape_rune (byte_of c) 1 [c] @ u) = map_option (apfst ((#) c)) (read_string u)"
proof -
  let ?r = "byte_of c"
  consider "?r = 34" | "?r = 92" | "?r = 8" | "?r = 12" | "?r = 10" | "?r = 13" | "?r = 9"
    | (hex) "?r \<notin> {34, 92, 8, 12, 10, 13, 9}" "?r < 32 \<or> ?r \<in> {60, 62, 38}"
    | (raw) "?r \<notin> {34, 92}" "32 \<le> ?r" "?r \<notin> {60, 62, 38}" by fastforce
  then show ?thesis
  proof cases
    case hex
    have "encode_rune ?r = [c]" using assms by (simp add: encode_rune_def)
    moreover have "\<not> is_surrogate ?r" using assms by (simp add: is_surrogate_def)
    moreover have "escape_rune ?r 1 [c] = hex4 ?r" using hex by (auto simp: escape_rune_def)
    ultimately show ?thesis using read_unicode_hex4[of ?r u] assms by (simp only: append_single) simp
  next
    case raw
    then have "c \<noteq> CHR 0x22" "c \<noteq> CHR 0x5C" by auto
    moreover have "escape_rune ?r 1 [c] = [c]" using raw assms by (auto simp: escape_rune_def rune_error_def)
    ultimately show ?thesis using raw assms
      by (simp add: read_string_eqs Let_def rune_error_def map_option_case split: option.split)
  qed (drule byte_of_eqD, simp add: escape_rune_def read_string_eqs escape_value_def byte_char_eqs)+
qed

text \<open>The two line separators are three bytes each.\<close>

lemma rune4_big:
  assumes "240 \<le> (b0::int)" "b0 \<le> 244" "b0 = 240 \<longrightarrow> 144 \<le> b1" "128 \<le> b1" "b1 \<le> 191"
  shows "65536 \<le> (b0 mod 8) * 262144 + (b1 mod 64) * 4096 + (b2 mod 64) * 64 + b3 mod 64"
proof -
  from assms have "b0 mod 8 = b0 - 240" and "b1 mod 64 = b1 - 128" by presburger+
  with assms show ?thesis using pos_mod_sign[of 64 b2] pos_mod_sign[of 64 b3]
    by (cases "b0 = 240") auto
qed

lemma rune2_small: "(b0 mod 32) * 64 + b1 mod 64 < (2048 :: int)"
  using pos_mod_bound[of 32 b0] pos_mod_bound[of 64 b1] by linarith

lemma separator_bytes:
  assumes "a * 4096 + b * 64 + d = r" "r = 8232 \<or> r = 8233" "0 \<le> b" "b < 64" "0 \<le> d" "d < 64"
  shows "(a :: int) = 2 \<and> b = 0 \<and> d = r - 8192"
proof -
  have "a \<le> 2" "2 \<le> a" using assms by linarith+
  then have "a = 2" by simp
  moreover from this have "b \<le> 0" using assms by linarith
  ultimately show ?thesis using assms by simp
qed

lemma decode_separator:
  assumes d: "decode_rune s = (r, n)" and r: "r = 8232 \<or> r = 8233" and n: "2 \<le> n"
  shows "take n s = encode_rune r"
proof -
  from d n obtain c cs where s: "s = c # cs" by (cases s) (auto simp: rune_error_def)
  with d n obtain k lo hi where cl: "lead_class (byte_of c) = Some (k, lo, hi)"
      and m: "decode_multi (byte_of c) (k, lo, hi) cs = (r, n)"
    by (auto simp: Let_def split: if_splits option.splits)
  note l = lead_class_SomeD[OF cl]
  from m n obtain c1 cs1 where cs: "cs = c1 # cs1" by (cases cs) auto
  with m n have c1: "lo \<le> byte_of c1" "byte_of c1 \<le> hi" by (auto simp: Let_def split: if_splits)
  have k2: "k \<noteq> 2" using m n cs c1 r rune2_small[of "byte_of c" "byte_of c1"] by (auto simp: Let_def)
  with m n cs c1 obtain c2 cs2 where cs1: "cs1 = c2 # cs2" "is_cont (byte_of c2)"
    by (auto simp: Let_def split: if_splits list.splits)
  have "k \<noteq> 4"
  proof
    assume "k = 4"
    with m n cs c1 cs1 obtain b3 where "r = (byte_of c mod 8) * 262144 + (byte_of c1 mod 64) * 4096 + (byte_of c2 mod 64) * 64 + b3 mod 64"
      by (auto simp: Let_def split: if_splits list.splits)
    with rune4_big[of "byte_of c" "byte_of c1" "byte_of c2" b3] l c1 r \<open>k = 4\<close> show False by auto
  qed
  with k2 l m cs cs1 c1 have n3: "n = 3" and
      e: "r = (byte_of c mod 16) * 4096 + (byte_of c1 mod 64) * 64 + byte_of c2 mod 64" and
      b: "224 \<le> byte_of c" "byte_of c < 240" "128 \<le> byte_of c1" "byte_of c1 \<le> 191"
    by auto
  have "byte_of c mod 16 = byte_of c - 224" "byte_of c1 mod 64 = byte_of c1 - 128" "byte_of c2 mod 64 = byte_of c2 - 128"
    using b cs1(2) by (presburger, presburger, simp add: is_cont_def, presburger)
  with separator_bytes[of "byte_of c - 224" "byte_of c1 - 128" "byte_of c2 - 128" r] e r b cs1(2)
  have "byte_of c = 226" "byte_of c1 = 128" "byte_of c2 = (if r = 8232 then 168 else 169)"
    by (auto simp: is_cont_def)
  then have "c = byte_char 226" "c1 = byte_char 128" "c2 = byte_char (if r = 8232 then 168 else 169)"
    by (auto dest: byte_of_eqD)
  with s cs cs1 n3 r show ?thesis by (auto simp: encode_rune_def)
qed

lemma read_raw_rune:
  assumes m: "decode_rune s = (r, n)" "2 \<le> n" "n \<le> length s" "\<forall>x \<in> set (take n s). 128 \<le> byte_of x"
    "\<And>t. decode_rune (take n s @ t) = (r, n)"
  shows "read_string (take n s @ u) = map_option (apfst ((@) (take n s))) (read_string u)"
proof -
  obtain c w where cw: "take n s = c # w" using m(2,3) by (cases s; cases n) auto
  with m(4) have c: "c \<noteq> CHR 0x22" "c \<noteq> CHR 0x5C" "\<not> byte_of c < 32" by auto
  have dec: "decode_rune (c # w @ u) = (r, n)" using m(5)[of u] cw by simp
  have len: "n = length (c # w)" using cw m(3) by (metis length_take min.absorb2)
  have "read_string (c # w @ u) = map_option (apfst ((@) (take n (c # w @ u)))) (read_string (drop n (c # w @ u)))"
    using c dec m(2) by (subst read_string_eqs(6)) (simp_all del: decode_rune.simps)
  moreover have "take n (c # w @ u) = take n s" "drop n (c # w @ u) = u" using cw len by simp_all
  ultimately show ?thesis using cw by simp
qed

lemma read_json_escape: "valid_string s \<Longrightarrow> read_string (json_escape s @ CHR 0x22 # t) = Some (s, t)"
proof (induction s rule: json_escape.induct)
  case (1 s)
  show ?case
  proof (cases "s = []")
    case True
    then show ?thesis by (simp add: json_escape.simps read_string_eqs)
  next
    case False
    obtain r n where d: "decode_rune s = (r, n)" by fastforce
    let ?u = "json_escape (drop n s) @ CHR 0x22 # t"
    from "1.prems" False d have v: "valid_string (drop n s)" and ne: "decode_rune s \<noteq> (rune_error, 1)"
      by (auto simp: valid_string.simps[of s])
    have IH: "read_string ?u = Some (drop n s, t)" using "1.IH"[OF False] v d by simp
    have e: "json_escape s @ CHR 0x22 # t = escape_rune r n (take n s) @ ?u"
      using False d by (simp add: json_escape.simps[of s])
    from False show ?thesis
    proof (cases rule: decode_rune_cases)
      case (ascii c cs)
      with d have rn: "r = byte_of c" "n = 1" by auto
      from read_escape_ascii[OF ascii(2), of ?u] IH have "read_string (escape_rune r n [c] @ ?u) = Some (c # drop n s, t)"
        by (simp only: rn option.map apfst_conv)
      with e ascii(1) rn(2) show ?thesis by simp
    next
      case (multi r' n')
      with d have m: "2 \<le> n" "n \<le> length s" "128 \<le> r" "\<forall>x \<in> set (take n s). 128 \<le> byte_of x"
        "\<And>t. decode_rune (take n s @ t) = (r, n)" by auto
      have esc: "escape_rune r n (take n s) = (if r \<in> {8232, 8233} then hex4 r else take n s)"
        using m by (intro escape_multi) auto
      show ?thesis
      proof (cases "r \<in> {8232, 8233}")
        case True
        have "read_string (hex4 r @ ?u) = map_option (apfst ((@) (encode_rune r))) (read_string ?u)"
          using True by (intro read_unicode_hex4) (auto simp: is_surrogate_def)
        moreover have "encode_rune r = take n s" using True decode_separator[OF d _ m(1)] by auto
        ultimately show ?thesis using e esc True IH by simp
      next
        case raw: False
        from read_raw_rune[OF d m(1,2,4,5)] IH have "read_string (take n s @ ?u) = Some (take n s @ drop n s, t)" by simp
        with e esc raw show ?thesis by simp
      qed
    qed (use ne in simp)
  qed
qed

lemma read_json_quote: "valid_string s \<Longrightarrow> json_quote s @ t = CHR 0x22 # u \<Longrightarrow> read_string u = Some (s, t)"
  using read_json_escape[of s t] by (auto simp: json_quote_def)

abbreviation string_member :: "go_string \<times> go_string \<Rightarrow> go_string" where
  "string_member kv \<equiv> json_quote (fst kv) @ CHR '':'' # json_quote (snd kv)"

definition readable :: "go_string list \<Rightarrow> (go_string \<times> go_string) list \<Rightarrow> bool" where
  "readable fields kvs \<longleftrightarrow> distinct (map fst kvs) \<and> set (map fst kvs) \<subseteq> set fields \<and>
     (\<forall>kv \<in> set kvs. valid_string (fst kv) \<and> valid_string (snd kv))"

lemma json_quote_Cons: "json_quote s @ t = CHR 0x22 # (json_escape s @ CHR 0x22 # t)"
  by (simp add: json_quote_def)

lemma read_member_print:
  assumes "k \<in> set fields" "k \<notin> set seen" "valid_string k" "valid_string v"
  shows "read_member fields seen (json_quote k @ CHR '':'' # json_quote v @ t) = Inr ((k, v), t)"
proof -
  have "read_name fields seen (json_quote k @ u) = Inr (k, u)" for u
    using assms by (simp add: read_name_def json_quote_Cons read_json_escape)
  moreover have "read_colon (CHR '':'' # u) = Some u" for u
    by (simp add: read_colon_def skip_ws_stop is_json_ws_def)
  moreover have "read_field (json_quote v @ t) = Some (v, t)"
    using assms(4) by (simp add: read_field_def json_quote_Cons skip_ws_stop is_json_ws_def read_json_escape)
  ultimately show ?thesis by (simp add: read_member_def)
qed

lemma read_members_step:
  assumes "readable fields (acc @ [kv])"
  shows "read_members fields acc ((if acc = [] then [] else '','') @ string_member kv @ t) = read_members fields (acc @ [kv]) t"
proof -
  have m: "read_member fields (map fst acc) (string_member kv @ t) = Inr (kv, t)"
    using read_member_print[of "fst kv" fields "map fst acc" "snd kv" t] assms by (auto simp: readable_def)
  have q: "string_member kv @ t = CHR 0x22 # (json_escape (fst kv) @ CHR 0x22 # CHR '':'' # json_quote (snd kv) @ t)"
    by (simp add: json_quote_Cons)
  have ws: "\<not> is_json_ws (CHR 0x22)" "\<not> is_json_ws (CHR '','')" by (simp_all add: is_json_ws_def)
  show ?thesis
  proof (cases "acc = []")
    case True
    with m q ws show ?thesis by (subst read_members.simps) (simp add: skip_ws_stop)
  next
    case False
    with m q ws show ?thesis by (subst read_members.simps) (simp add: skip_ws_stop)
  qed
qed

lemma read_members_rest:
  assumes "acc \<noteq> []" "readable fields (acc @ kvs)"
  shows "read_members fields acc (concat (map (\<lambda>kv. CHR '','' # string_member kv) kvs) @ CHR ''}'' # t) = Inr (acc @ kvs, t)"
  using assms
proof (induction kvs arbitrary: acc)
  case Nil
  then show ?case by (subst read_members.simps) (simp add: skip_ws_stop is_json_ws_def)
next
  case (Cons kv kvs)
  let ?t = "concat (map (\<lambda>kv. CHR '','' # string_member kv) kvs) @ CHR ''}'' # t"
  have "readable fields (acc @ [kv])" using Cons.prems(2) by (auto simp: readable_def)
  from read_members_step[OF this, of ?t] Cons.prems(1)
  have "read_members fields acc (CHR '','' # string_member kv @ ?t) = read_members fields (acc @ [kv]) ?t" by simp
  also have "\<dots> = Inr (acc @ kv # kvs, t)" using Cons.IH[of "acc @ [kv]"] Cons.prems(2) by simp
  finally show ?case by simp
qed

lemma join_comma_Cons: "join_comma (x # xs) = x @ concat (map ((#) (CHR '','')) xs)"
  by (induction xs arbitrary: x) auto

text \<open>The round trip: an object of distinct known string fields, printed, is read back.\<close>

lemma unmarshal_print:
  assumes "readable fields kvs"
  shows "unmarshal_struct fields (json_print (JObject (map (apsnd JString) kvs))) = Inr (Some kvs)"
proof -
  let ?m = "join_comma (map string_member kvs)"
  have p: "json_print (JObject (map (apsnd JString) kvs)) = CHR ''{'' # ?m @ ''}''"
    by (simp add: json_print.simps comp_def case_prod_beta)
  have "read_members fields [] (?m @ ''}'') = Inr (kvs, [])"
  proof (cases kvs)
    case Nil
    then show ?thesis by (subst read_members.simps) (simp add: skip_ws_stop is_json_ws_def)
  next
    case (Cons kv kvs')
    with assms have "readable fields ([] @ [kv])" "readable fields ([kv] @ kvs')" by (auto simp: readable_def)
    with read_members_step[of fields "[]" kv] read_members_rest[of "[kv]" fields kvs' "[]"] Cons show ?thesis
      by (simp add: join_comma_Cons comp_def)
  qed
  then show ?thesis
    unfolding p by (simp add: unmarshal_struct_def skip_ws_stop is_json_ws_def at_end_def skip_ws_def)
qed

end
