(* ===== verification/Http_Claims.thy ===== *)
theory Http_Claims
  imports Http_Response Go_Mime Go_Json_Decode Config
begin

text \<open>
  \<^verbatim>\<open>internal/httpapi/reward_claims.go\<close>: the handler of \<^verbatim>\<open>/v1/reward-claims\<close>.

  The service is a parameter, as the interface \<^verbatim>\<open>rewardClaimCreator\<close> is in the code: a function on a
  command and a state, which may wait for ever. The context of the request is needed at one moment
  only, after the service has returned.
\<close>

section \<open>Data\<close>

definition maxRewardClaimBodyBytes :: nat where
  "maxRewardClaimBodyBytes = 64 * 1024"

definition http_maxIdempotencyKeyLength :: nat where
  "http_maxIdempotencyKeyLength = 255"

definition errorCodeInvalidIdempotencyKey :: go_string where
  "errorCodeInvalidIdempotencyKey = ''invalid_idempotency_key''"
definition errorCodeIdempotencyKeyRequired :: go_string where
  "errorCodeIdempotencyKeyRequired = ''idempotency_key_required''"
definition errorCodeIdempotencyKeyReused :: go_string where
  "errorCodeIdempotencyKeyReused = ''idempotency_key_reused''"
definition errorCodeInvalidJSON :: go_string where
  "errorCodeInvalidJSON = ''invalid_json''"
definition errorCodeInvalidRequest :: go_string where
  "errorCodeInvalidRequest = ''invalid_request''"
definition errorCodeRequestBodyTooLarge :: go_string where
  "errorCodeRequestBodyTooLarge = ''request_body_too_large''"
definition errorCodeUnsupportedMediaType :: go_string where
  "errorCodeUnsupportedMediaType = ''unsupported_media_type''"
definition errorCodeUnavailable :: go_string where
  "errorCodeUnavailable = ''service_unavailable''"

lemmas error_codes =
  errorCodeInvalidIdempotencyKey_def errorCodeIdempotencyKeyRequired_def
  errorCodeIdempotencyKeyReused_def errorCodeInvalidJSON_def errorCodeInvalidRequest_def
  errorCodeRequestBodyTooLarge_def errorCodeUnsupportedMediaType_def errorCodeUnavailable_def
  errorCodeInternal_def errorCodeMethodNotAllowed_def errorCodeNotFound_def

type_synonym 's rewardClaimCreator = "CreateClaimCommand \<Rightarrow> 's \<Rightarrow> ((goerror + CreateClaimResult) \<times> 's) option"

record createRewardClaimRequest =
  req_PlayerID :: go_string
  req_CampaignID :: go_string
  req_RewardID :: go_string

datatype rewardClaimValidationError = MissingIdempotencyKey | OtherKeyError string

section \<open>The key\<close>

definition http_validateIdempotencyKey :: "go_string \<Rightarrow> rewardClaimValidationError option" where
  "http_validateIdempotencyKey value =
     (if value = '''' then Some (OtherKeyError ''idempotency key is empty'')
      else if length value > http_maxIdempotencyKeyLength then Some (OtherKeyError ''idempotency key too long'')
      else if list_ex (\<lambda>r. r < 0x20 \<or> r = 0x7f) (runes value)
        then Some (OtherKeyError ''idempotency key contains control character'')
      else None)"

definition readIdempotencyKey :: "header \<Rightarrow> rewardClaimValidationError + go_string" where
  "readIdempotencyKey header =
     (let values = header ''Idempotency-Key''
      in if length values = 0 then Inl MissingIdempotencyKey
         else if length values \<noteq> 1 then Inl (OtherKeyError ''multiple idempotency keys'')
         else (let value = trim_space (values ! 0)
               in case http_validateIdempotencyKey value of
                    Some err \<Rightarrow> Inl err
                  | None \<Rightarrow> Inr value))"

section \<open>The body\<close>

definition isJSONContentType :: "go_string \<Rightarrow> bool" where
  "isJSONContentType value =
     (case parse_media_type value of
        None \<Rightarrow> False
      | Some mediaType \<Rightarrow> mediaType = ascii_runes ''application/json'')"

definition isJSONWhitespaceOnly :: "go_string \<Rightarrow> bool" where
  "isJSONWhitespaceOnly body = list_all (\<lambda>b. b \<in> {CHR '' '', CHR 0x09, CHR 0x0A, CHR 0x0D}) body"

text \<open>The errors that reach \<^verbatim>\<open>writeDecodeError\<close>.\<close>

datatype body_error = MaxBytesError | ReadError goerror | JsonError decode_error

text \<open>\<^verbatim>\<open>io.ReadAll\<close> of a body behind \<^verbatim>\<open>http.MaxBytesReader\<close>: too many bytes are reported as soon as
  they are read, before any error of the connection that would come later.\<close>

definition read_body :: "request \<Rightarrow> body_error + go_string" where
  "read_body r =
     (if length (rq_body r) > maxRewardClaimBodyBytes then Inl MaxBytesError
      else (case rq_body_error r of Some e \<Rightarrow> Inl (ReadError e) | None \<Rightarrow> Inr (rq_body r)))"

definition writeDecodeError :: "body_error \<Rightarrow> writer_call list" where
  "writeDecodeError err =
     (if err = MaxBytesError then writeError 413 errorCodeRequestBodyTooLarge ''Request body is too large''
      else if err = JsonError DecUnknownName
      then writeError 400 errorCodeInvalidRequest ''Request body contains an unknown field''
      else writeError 400 errorCodeInvalidJSON ''Request body must be valid JSON'')"

definition request_fields :: "go_string list" where
  "request_fields = [''player_id'', ''campaign_id'', ''reward_id'']"

definition field_or_empty :: "(go_string \<times> go_string) list \<Rightarrow> go_string \<Rightarrow> go_string" where
  "field_or_empty kvs k = (case map_of kvs k of None \<Rightarrow> [] | Some v \<Rightarrow> v)"

text \<open>\<open>Inl\<close> is the error response that was written, \<open>Inr\<close> the decoded request.\<close>

definition decodeCreateRewardClaimRequest :: "request \<Rightarrow> writer_call list + createRewardClaimRequest" where
  "decodeCreateRewardClaimRequest r =
     (case read_body r of
        Inl err \<Rightarrow> Inl (writeDecodeError err)
      | Inr body \<Rightarrow>
          if isJSONWhitespaceOnly body
          then Inl (writeError 400 errorCodeInvalidJSON ''Request body is required'')
          else (case unmarshal_struct request_fields body of
              Inl err \<Rightarrow> Inl (writeDecodeError (JsonError err))
            | Inr None \<Rightarrow> Inl (writeError 400 errorCodeInvalidJSON ''Request body must contain a JSON object'')
            | Inr (Some kvs) \<Rightarrow> Inr \<lparr>
                req_PlayerID = field_or_empty kvs ''player_id'',
                req_CampaignID = field_or_empty kvs ''campaign_id'',
                req_RewardID = field_or_empty kvs ''reward_id''\<rparr>))"

section \<open>Errors of the service\<close>

definition isRequestContextError :: "context_state \<Rightarrow> goerror \<Rightarrow> bool" where
  "isRequestContextError ctx err = is_ctx_error ctx err"

definition is_invalid_input :: "goerror \<Rightarrow> bool" where
  "is_invalid_input err \<longleftrightarrow> errors_as node_invalid_input err \<noteq> None"

definition logCreateClaimError :: "goerror \<Rightarrow> http_event list" where
  "logCreateClaimError err =
     (if errors_is err RewardsErrUnavailable then [LogClaimError LevelWarn ''unavailable'']
      else if errors_is err RewardsErrInternal then [LogClaimError LevelError ''internal'']
      else if is_invalid_input err \<or> errors_is err ErrIdempotencyKeyReused then []
      else [LogClaimError LevelError ''unexpected''])"

definition writeCreateClaimError :: "goerror \<Rightarrow> writer_call list" where
  "writeCreateClaimError err =
     (if errors_is err ErrIdempotencyKeyReused
      then writeError 409 errorCodeIdempotencyKeyReused ''Idempotency-Key was reused with a different request payload''
      else (case errors_as node_invalid_input err of
          Some msg \<Rightarrow> writeError 400 errorCodeInvalidRequest msg
        | None \<Rightarrow>
            if errors_is err RewardsErrUnavailable
            then writeError 503 errorCodeUnavailable ''Service unavailable''
            else if errors_is err RewardsErrInternal
            then writeError 500 errorCodeInternal ''Internal server error''
            else writeError 500 errorCodeInternal ''Internal server error''))"

section \<open>The handler\<close>

definition command_of :: "createRewardClaimRequest \<Rightarrow> go_string \<Rightarrow> CreateClaimCommand" where
  "command_of req idempotencyKey = \<lparr>
     cmd_PlayerID = req_PlayerID req, cmd_CampaignID = req_CampaignID req,
     cmd_RewardID = req_RewardID req, cmd_IdempotencyKey = idempotencyKey\<rparr>"

text \<open>The checks before the service is called, in order: \<open>Inl\<close> is the response of the one that
  fails, \<open>Inr\<close> the command.\<close>

definition check_request :: "request \<Rightarrow> writer_call list + CreateClaimCommand" where
  "check_request r =
     (if rq_method r \<noteq> ''POST'' then Inl (writeMethodNotAllowed [''POST''])
      else (case readIdempotencyKey (rq_header r) of
          Inl err \<Rightarrow>
            Inl (if err = MissingIdempotencyKey
                 then writeError 400 errorCodeIdempotencyKeyRequired ''Idempotency-Key header is required''
                 else writeError 400 errorCodeInvalidIdempotencyKey ''Idempotency-Key header is invalid'')
        | Inr idempotencyKey \<Rightarrow>
            if \<not> isJSONContentType (header_get (rq_header r) ''Content-Type'')
            then Inl (writeError 415 errorCodeUnsupportedMediaType ''Content-Type must be application/json'')
            else (case decodeCreateRewardClaimRequest r of
                Inl calls \<Rightarrow> Inl calls
              | Inr req \<Rightarrow> Inr (command_of req idempotencyKey))))"

text \<open>What is told to the observer, which may be absent.\<close>

definition observe_claim :: "bool \<Rightarrow> goerror + CreateClaimResult \<Rightarrow> http_event list" where
  "observe_claim has_observer res =
     (if has_observer \<and> (case res of Inl err \<Rightarrow> \<not> is_invalid_input err | Inr _ \<Rightarrow> True)
      then [ObserveRewardClaim res] else [])"

definition write_result :: "CreateClaimResult \<Rightarrow> writer_call list" where
  "write_result result =
     (if res_Replayed result then [SetHeader ''Idempotent-Replayed'' ''true''] else []) @
     writeRawJSON (res_StatusCode result) (res_ResponseBody result)"

definition rewardClaimsHandler ::
  "'s rewardClaimCreator \<Rightarrow> bool \<Rightarrow> context_state \<Rightarrow> ('s, http_event) handler" where
  "rewardClaimsHandler service has_observer ctx r s =
     (case check_request r of
        Inl calls \<Rightarrow> respond calls [] s
      | Inr cmd \<Rightarrow>
          (case service cmd s of
             None \<Rightarrow> None
           | Some (res, s') \<Rightarrow>
               (let observed = observe_claim has_observer res
                in case res of
                     Inl err \<Rightarrow>
                       if isRequestContextError ctx err then respond [] observed s'
                       else respond (writeCreateClaimError err) (observed @ logCreateClaimError err) s'
                   | Inr result \<Rightarrow> respond (write_result result) observed s')))"

declare rewardClaimsHandler_def [handler_defs]

end
