(* ===== verification/Health.thy ===== *)
theory Health
  imports Http_Response "HOL-Library.List_Lexorder" "HOL-Library.Char_ord"
begin

text \<open>
  \<^verbatim>\<open>internal/health/health.go\<close>: the liveness and readiness handlers.

  A check looks at the state and returns an error or none; it may be absent. The results go into a
  Go map, which the encoder prints with its keys in byte order; a name that occurs twice keeps its
  last result.
\<close>

record 's Check =
  ck_Name :: go_string
  ck_Check :: "('s \<Rightarrow> goerror option) option"

definition statusOK :: go_string where "statusOK = ''ok''"
definition statusReady :: go_string where "statusReady = ''ready''"
definition statusNotReady :: go_string where "statusNotReady = ''not_ready''"

definition health_writeJSON :: "int \<Rightarrow> json \<Rightarrow> writer_call list" where
  "health_writeJSON status body =
     [SetHeader ''Content-Type'' ''application/json'', WriteHeader status, WriteBody (json_encode body)]"

definition health_writeMethodNotAllowed :: "go_string list \<Rightarrow> writer_call list" where
  "health_writeMethodNotAllowed allowedMethods =
     SetHeader ''Allow'' (join_strings '', '' allowedMethods) #
     health_writeJSON 405
       (JObject [(''error'', JObject [(''code'', JString ''method_not_allowed''), (''message'', JString ''Method not allowed'')])])"

definition LiveHandler :: "('s, 'e) handler" where
  "LiveHandler r s =
     (if rq_method r \<noteq> ''GET'' then respond (health_writeMethodNotAllowed [''GET'']) [] s
      else respond (health_writeJSON 200 (JObject [(''status'', JString statusOK)])) [] s)"

text \<open>The body of the loop over the checks.\<close>

definition check_failed :: "'s \<Rightarrow> 's Check \<Rightarrow> bool" where
  "check_failed s check = (case ck_Check check of None \<Rightarrow> True | Some f \<Rightarrow> f s \<noteq> None)"

definition run_check ::
  "'s \<Rightarrow> 's Check \<Rightarrow> int \<times> go_string \<times> (go_string \<rightharpoonup> go_string) \<Rightarrow> int \<times> go_string \<times> (go_string \<rightharpoonup> go_string)" where
  "run_check s check = (\<lambda>(statusCode, status, results).
     if check_failed s check
     then (503, statusNotReady, results(ck_Name check \<mapsto> ''error''))
     else (statusCode, status, results(ck_Name check \<mapsto> statusOK)))"

text \<open>A map of strings printed with sorted keys; \<open>keys\<close> lists its domain.\<close>

definition json_map :: "go_string list \<Rightarrow> (go_string \<rightharpoonup> go_string) \<Rightarrow> json" where
  "json_map keys m = JObject (map (\<lambda>k. (k, JString (case m k of Some v \<Rightarrow> v | None \<Rightarrow> []))) (sort (remdups keys)))"

definition ReadyHandler :: "'s Check list \<Rightarrow> ('s, 'e) handler" where
  "ReadyHandler checks r s =
     (if rq_method r \<noteq> ''GET'' then respond (health_writeMethodNotAllowed [''GET'']) [] s
      else (let (statusCode, status, results) = fold (run_check s) checks (200, statusReady, Map.empty)
            in respond (health_writeJSON statusCode
                 (JObject [(''status'', JString status), (''checks'', json_map (map ck_Name checks) results)])) [] s))"

section \<open>Facts\<close>

lemma health_writeJSON_response: "health_writeJSON status body = json_response [] status (json_encode body)"
  by (simp add: health_writeJSON_def json_response_def)

lemma health_writeMethodNotAllowed_response:
  "health_writeMethodNotAllowed ms = json_response [(''Allow'', join_strings '', '' ms)] 405
     (json_encode (errorResponse ''method_not_allowed'' ''Method not allowed''))"
  by (simp add: health_writeMethodNotAllowed_def health_writeJSON_response json_response_def errorResponse_def)

definition result_of :: "'s \<Rightarrow> 's Check list \<Rightarrow> go_string \<rightharpoonup> go_string" where
  "result_of s checks = map_of (rev (map (\<lambda>c. (ck_Name c, if check_failed s c then ''error'' else ''ok'')) checks))"

lemma run_checks:
  "fold (run_check s) checks (st, status, m) =
     (if list_ex (check_failed s) checks then (503, statusNotReady, m ++ result_of s checks)
      else (st, status, m ++ result_of s checks))"
proof (induction checks arbitrary: st status m)
  case Nil
  then show ?case by (simp add: result_of_def)
next
  case (Cons c checks)
  have "m(ck_Name c \<mapsto> v) ++ result_of s checks = m ++ result_of s (c # checks)"
    if "v = (if check_failed s c then ''error'' else ''ok'')" for v
    using that by (auto simp: result_of_def map_add_def fun_eq_iff split: option.splits)
  with Cons.IH show ?case by (auto simp: run_check_def statusOK_def)
qed

lemma ReadyHandler_get:
  "rq_method r = ''GET'' \<Longrightarrow> ReadyHandler checks r s =
     respond (json_response [] (if list_ex (check_failed s) checks then 503 else 200)
       (json_encode (JObject [(''status'', JString (if list_ex (check_failed s) checks then ''not_ready'' else ''ready'')),
          (''checks'', json_map (map ck_Name checks) (result_of s checks))]))) [] s"
  by (simp add: ReadyHandler_def run_checks health_writeJSON_response statusNotReady_def statusReady_def)

section \<open>Properties\<close>

text \<open>C32. A readiness request is answered 200 exactly when every check is present and succeeds, and 503
  otherwise; the body names each check once, in byte order, as ok or as error and nothing else, so
  that no text of an error gets out.\<close>

theorem ReadyHandler_spec:
  assumes "rq_method r = ''GET''" "distinct (map ck_Name checks)"
    and "all_ok = list_all (\<lambda>c. \<exists>f. ck_Check c = Some f \<and> f s = None) checks"
  shows "\<exists>entries.
    ReadyHandler checks r s = respond (json_response [] (if all_ok then 200 else 503)
      (json_encode (JObject [(''status'', JString (if all_ok then ''ready'' else ''not_ready'')),
         (''checks'', JObject (map (apsnd JString) entries))]))) [] s \<and>
    sorted (map fst entries) \<and>
    set entries = (\<lambda>c. (ck_Name c, if check_failed s c then ''error'' else ''ok'')) ` set checks"
proof -
  define entries where "entries = map (\<lambda>k. (k, case result_of s checks k of Some v \<Rightarrow> v | None \<Rightarrow> []))
    (sort (remdups (map ck_Name checks)))"
  have ok: "list_ex (check_failed s) checks \<longleftrightarrow> \<not> all_ok"
    unfolding assms(3) by (induction checks) (auto simp: check_failed_def split: option.splits)
  have "result_of s checks (ck_Name c) = Some (if check_failed s c then ''error'' else ''ok'')" if "c \<in> set checks" for c
    unfolding result_of_def using assms(2) that
    by (intro map_of_is_SomeI) (auto simp: comp_def rev_map[symmetric])
  then have "set entries = (\<lambda>c. (ck_Name c, if check_failed s c then ''error'' else ''ok'')) ` set checks"
    by (force simp: entries_def)
  moreover have "sorted (map fst entries)" by (simp add: entries_def comp_def)
  moreover have "json_map (map ck_Name checks) (result_of s checks) = JObject (map (apsnd JString) entries)"
    by (simp add: json_map_def entries_def)
  ultimately show ?thesis unfolding ReadyHandler_get[OF assms(1)] ok by auto
qed

definition probe_request :: "go_string \<Rightarrow> request" where
  "probe_request path = \<lparr>rq_method = ''GET'', rq_path = path, rq_escaped_path = path, rq_header = (\<lambda>_. []),
     rq_body = [], rq_body_error = None, rq_remote_addr = []\<rparr>"

theorem ReadyHandler_spec_witness:
  "\<exists>entries.
    ReadyHandler [\<lparr>ck_Name = ''worker'', ck_Check = Some (\<lambda>s :: bool. if s then None else Some (Plain ''not running''))\<rparr>,
        \<lparr>ck_Name = ''postgres'', ck_Check = Some (\<lambda>s. None)\<rparr>] (probe_request ''/readyz'') False =
      (respond (json_response [] 503
        (json_encode (JObject [(''status'', JString ''not_ready''), (''checks'', JObject (map (apsnd JString) entries))]))) [] False
        :: (bool, unit) outcome option) \<and> sorted (map fst entries) \<and>
    set entries = {(''postgres'', ''ok''), (''worker'', ''error'')}"
  using ReadyHandler_spec[of "probe_request ''/readyz''" "[\<lparr>ck_Name = ''worker'',
      ck_Check = Some (\<lambda>s :: bool. if s then None else Some (Plain ''not running''))\<rparr>,
      \<lparr>ck_Name = ''postgres'', ck_Check = Some (\<lambda>s. None)\<rparr>]" False False]
  by (simp add: probe_request_def check_failed_def insert_commute)

end
