(* ===== verification/Go_Mux.thy ===== *)
theory Go_Mux
  imports Go_Http
begin

text \<open>
  \<^verbatim>\<open>http.ServeMux\<close> for patterns without methods, hosts and wildcards, beside the pattern \<^verbatim>\<open>/\<close> that
  takes every other path, and \<^verbatim>\<open>net.SplitHostPort\<close>.

  The multiplexer works on the escaped path. Unless the method is CONNECT, a path that is not clean
  is answered with a redirect to the clean one; the redirect is a parameter of the servers. The
  segments of a clean path are unescaped one by one and compared with those of the patterns.
\<close>

definition split_on :: "char \<Rightarrow> go_string \<Rightarrow> go_string list" where
  "split_on sep s = foldr (\<lambda>c acc. if c = sep then [] # acc else (case acc of [] \<Rightarrow> [[c]] | x # xs \<Rightarrow> (c # x) # xs)) s [[]]"

fun clean_segments :: "go_string list \<Rightarrow> go_string list \<Rightarrow> go_string list" where
  "clean_segments acc [] = rev acc"
| "clean_segments acc (x # xs) =
     (if x = [] \<or> x = ''.'' then clean_segments acc xs
      else if x = ''..'' then clean_segments (tl acc) xs
      else clean_segments (x # acc) xs)"

text \<open>\<^verbatim>\<open>cleanPath\<close>: rooted, without empty segments, dots and dot-dots; a slash at the end stays.\<close>

definition clean_path :: "go_string \<Rightarrow> go_string" where
  "clean_path p0 =
     (let p = (if p0 = [] \<or> hd p0 \<noteq> CHR ''/'' then CHR ''/'' # p0 else p0);
          segs = clean_segments [] (split_on (CHR ''/'') p)
      in if segs = [] then ''/''
         else concat (map ((#) (CHR ''/'')) segs) @ (if last p = CHR ''/'' then ''/'' else []))"

definition hex_nibble :: "char \<Rightarrow> int" where
  "hex_nibble c =
     (if is_digit c then byte_of c - 48 else if 97 \<le> byte_of c then byte_of c - 87 else byte_of c - 55)"

text \<open>\<^verbatim>\<open>url.PathUnescape\<close>; a percent sign that two hexadecimal digits do not follow is an error.\<close>

fun path_unescape :: "go_string \<Rightarrow> go_string option" where
  "path_unescape [] = Some []"
| "path_unescape (c # s) =
     (if c \<noteq> CHR ''%'' then map_option ((#) c) (path_unescape s)
      else (case s of
          a # b # t \<Rightarrow>
            if is_hex a \<and> is_hex b
            then map_option ((#) (char_of (hex_nibble a * 16 + hex_nibble b))) (path_unescape t)
            else None
        | _ \<Rightarrow> None))"

definition unescape_segment :: "go_string \<Rightarrow> go_string" where
  "unescape_segment s = (case path_unescape s of Some t \<Rightarrow> t | None \<Rightarrow> s)"

text \<open>The segments after the first slash.\<close>

definition path_segments :: "go_string \<Rightarrow> go_string list" where
  "path_segments p = map unescape_segment (tl (split_on (CHR ''/'') p))"

datatype mux_target = MuxRedirect | MuxPattern go_string | MuxFallback

definition mux_match :: "go_string list \<Rightarrow> go_string \<Rightarrow> mux_target" where
  "mux_match patterns path =
     (case List.find (\<lambda>p. tl (split_on (CHR ''/'') p) = path_segments path) patterns of
        Some p \<Rightarrow> MuxPattern p
      | None \<Rightarrow> MuxFallback)"

definition mux_target_of :: "go_string list \<Rightarrow> request \<Rightarrow> mux_target" where
  "mux_target_of patterns r =
     (if rq_method r = ''CONNECT'' then mux_match patterns (rq_escaped_path r)
      else if clean_path (rq_escaped_path r) \<noteq> rq_escaped_path r then MuxRedirect
      else mux_match patterns (rq_escaped_path r))"

section \<open>Addresses\<close>

definition has_char :: "char \<Rightarrow> go_string \<Rightarrow> bool" where
  "has_char c s \<longleftrightarrow> c \<in> set s"

text \<open>The host of \<^verbatim>\<open>host:port\<close>, or \<open>None\<close> for any of its errors. \<open>front\<close> is what precedes the last
  colon.\<close>

definition split_host :: "go_string \<Rightarrow> go_string option" where
  "split_host hostport =
     (if \<not> has_char (CHR '':'') hostport then None
      else (let port = rev (takeWhile ((\<noteq>) (CHR '':'')) (rev hostport));
                front = take (length hostport - length port - 1) hostport
            in if hd hostport = CHR ''['' then
                 (let inside = takeWhile ((\<noteq>) (CHR '']'')) (tl hostport)
                  in if front = CHR ''['' # inside @ [CHR '']''] \<and> \<not> has_char (CHR ''['') inside \<and>
                        \<not> has_char (CHR ''['') port \<and> \<not> has_char (CHR '']'') port
                     then Some inside else None)
               else if has_char (CHR '':'') front then None
               else if has_char (CHR ''['') hostport \<or> has_char (CHR '']'') hostport then None
               else Some front))"

end
