(* ===== verification/Http_Server.thy ===== *)
theory Http_Server
  imports Http_Claims Health Go_Mux
begin

text \<open>
  \<^verbatim>\<open>internal/httpapi/middleware.go\<close>, \<^verbatim>\<open>request_context.go\<close>, \<^verbatim>\<open>routes.go\<close> and \<^verbatim>\<open>server.go\<close>: the status
  recorder, the middleware, the router and the server.

  A request runs against the server's own writer. What the middleware needs from outside is a record
  \<open>mw_env\<close>: the random bytes of a new request id, the context when the handler has returned, and
  which observers are present. The request id in the context is the value that the middleware has
  put there. The duration of a request is not recorded.
\<close>

section \<open>The status recorder\<close>

record statusRecorder =
  sr_w :: ResponseWriter
  sr_status :: int
  sr_wroteHeader :: bool

definition recorder_WriteHeader :: "int \<Rightarrow> statusRecorder \<Rightarrow> panic option \<times> statusRecorder" where
  "recorder_WriteHeader status rec =
     (if sr_wroteHeader rec then (None, rec)
      else (case server_write_header status (sr_w rec) of
          (Some p, w) \<Rightarrow> (Some p, rec\<lparr>sr_w := w\<rparr>)
        | (None, w) \<Rightarrow> (None, rec\<lparr>sr_w := w, sr_status := status, sr_wroteHeader := True\<rparr>)))"

definition recorder_Write :: "go_string \<Rightarrow> statusRecorder \<Rightarrow> panic option \<times> statusRecorder" where
  "recorder_Write body rec =
     (let rec1 = (if \<not> sr_wroteHeader rec then snd (recorder_WriteHeader 200 rec) else rec)
      in (None, rec1\<lparr>sr_w := snd (server_call (WriteBody body) (sr_w rec1))\<rparr>))"

text \<open>The header methods are those of the embedded writer.\<close>

fun recorder_call :: "writer_call \<Rightarrow> statusRecorder \<Rightarrow> panic option \<times> statusRecorder" where
  "recorder_call (WriteHeader status) rec = recorder_WriteHeader status rec"
| "recorder_call (WriteBody body) rec = recorder_Write body rec"
| "recorder_call c rec = (None, rec\<lparr>sr_w := snd (server_call c (sr_w rec))\<rparr>)"

definition new_recorder :: "ResponseWriter \<Rightarrow> statusRecorder" where
  "new_recorder w = \<lparr>sr_w = w, sr_status = 200, sr_wroteHeader = False\<rparr>"

section \<open>Small functions\<close>

definition maxRequestIDLen :: nat where "maxRequestIDLen = 128"
definition maxUserAgentLogLen :: nat where "maxUserAgentLogLen = 256"

definition isAllowedRequestIDRune :: "rune \<Rightarrow> bool" where
  "isAllowedRequestIDRune r \<longleftrightarrow>
     (97 \<le> r \<and> r \<le> 122) \<or> (65 \<le> r \<and> r \<le> 90) \<or> (48 \<le> r \<and> r \<le> 57) \<or>
     r = 45 \<or> r = 95 \<or> r = 46 \<or> r = 58"

definition sanitizeRequestID :: "go_string \<Rightarrow> go_string" where
  "sanitizeRequestID value0 =
     (let value = trim_space value0
      in if value = '''' \<or> length value > maxRequestIDLen then ''''
         else if list_ex (\<lambda>r. \<not> isAllowedRequestIDRune r) (runes value) then ''''
         else value)"

definition newRequestID :: "8 word list \<Rightarrow> go_string" where
  "newRequestID bytes = hex_encode bytes"

definition routeLivez :: go_string where "routeLivez = ''/livez''"
definition routeReadyz :: go_string where "routeReadyz = ''/readyz''"
definition routeMetrics :: go_string where "routeMetrics = ''/metrics''"
definition routeRewardClaims :: go_string where "routeRewardClaims = ''/v1/reward-claims''"

lemmas routes = routeLivez_def routeReadyz_def routeMetrics_def routeRewardClaims_def

definition routeName :: "request \<Rightarrow> go_string" where
  "routeName r =
     (if rq_path r = routeLivez then routeLivez
      else if rq_path r = routeReadyz then routeReadyz
      else if rq_path r = routeMetrics then routeMetrics
      else if rq_path r = routeRewardClaims then routeRewardClaims
      else ''unknown'')"

definition clientIP :: "request \<Rightarrow> go_string" where
  "clientIP r = (case split_host (rq_remote_addr r) of None \<Rightarrow> rq_remote_addr r | Some host \<Rightarrow> host)"

definition truncateString :: "go_string \<Rightarrow> nat \<Rightarrow> go_string" where
  "truncateString value maxLen = (if length value \<le> maxLen then value else take maxLen value)"

definition isAdminRoute :: "go_string \<Rightarrow> bool" where
  "isAdminRoute route \<longleftrightarrow> route = routeLivez \<or> route = routeReadyz \<or> route = routeMetrics"

section \<open>The middleware\<close>

record mw_env =
  mw_random :: "8 word list"
  mw_ctx_end :: context_state
  mw_observers :: "bool list"

text \<open>What has become of a request: the writer, the events, the state, and the panic that goes on to
  the server.\<close>

record ('s, 'e) served =
  sv_writer :: ResponseWriter
  sv_events :: "'e list"
  sv_panic :: "panic option"
  sv_state :: 's

definition handleRecoveredPanic :: "panic option \<Rightarrow> statusRecorder \<Rightarrow> bool \<times> statusRecorder \<times> http_event list" where
  "handleRecoveredPanic recovered rec =
     (case recovered of
        None \<Rightarrow> (False, rec, [])
      | Some p \<Rightarrow>
          if p = ErrAbortHandler then (True, rec\<lparr>sr_status := 0\<rparr>, [])
          else if sr_wroteHeader rec then (True, rec\<lparr>sr_status := 0\<rparr>, [LogPanic])
          else (False,
            snd (run_calls recorder_call
              (DelHeader ''Content-Length'' # writeError 500 errorCodeInternal ''Internal server error'') rec),
            [LogPanic]))"

text \<open>The deferred function of \<^verbatim>\<open>requestLogger\<close>, given how the handler ended.\<close>

definition finish_request ::
  "mw_env \<Rightarrow> go_string \<Rightarrow> request \<Rightarrow> panic option \<Rightarrow> statusRecorder \<Rightarrow> panic option \<times> statusRecorder \<times> http_event list" where
  "finish_request env requestID r recovered rec0 =
     (let (abort, rec1, logged) = handleRecoveredPanic recovered rec0;
          rec = (if \<not> sr_wroteHeader rec1 \<and> ctx_err (mw_ctx_end env) \<noteq> None then rec1\<lparr>sr_status := 0\<rparr> else rec1);
          route = routeName r;
          observed = concat (map (\<lambda>present. if present then [ObserveRequest route (rq_method r) (sr_status rec)] else []) (mw_observers env));
          level = (if sr_status rec < 400 \<and> isAdminRoute route then LevelDebug else LevelInfo);
          log = LogRequest level requestID (rq_method r) route (sr_status rec) (clientIP r)
                  (truncateString (header_get (rq_header r) ''User-Agent'') maxUserAgentLogLen)
      in (if abort then Some ErrAbortHandler else None, rec, logged @ observed @ [log]))"

text \<open>How a handler ends on a recorder: a panic of a call ends it, otherwise its own end counts.\<close>

definition run_handler :: "writer_call list \<Rightarrow> panic option \<Rightarrow> statusRecorder \<Rightarrow> panic option \<times> statusRecorder" where
  "run_handler calls own rec =
     (case run_calls recorder_call calls rec of
        (Some p, rec1) \<Rightarrow> (Some p, rec1)
      | (None, rec1) \<Rightarrow> (own, rec1))"

definition requestLogger ::
  "mw_env \<Rightarrow> go_string \<Rightarrow> ('s, http_event) handler \<Rightarrow> request \<Rightarrow> 's \<Rightarrow> ResponseWriter \<Rightarrow> ('s, http_event) served option" where
  "requestLogger env requestID next r s w =
     (case next r s of
        None \<Rightarrow> None
      | Some out \<Rightarrow>
          (let (recovered, rec) = run_handler (out_calls out) (out_panic out) (new_recorder w);
               (panic, rec', events) = finish_request env requestID r recovered rec
           in Some \<lparr>sv_writer = sr_w rec', sv_events = out_events out @ events, sv_panic = panic,
                sv_state = out_state out\<rparr>))"

definition secureHeaders :: "('s, 'e) handler \<Rightarrow> ('s, 'e) handler" where
  "secureHeaders next = (\<lambda>r s. map_option
     (\<lambda>out. out\<lparr>out_calls :=
        SetHeader ''X-Content-Type-Options'' ''nosniff'' #
        SetHeader ''Referrer-Policy'' ''no-referrer'' # out_calls out\<rparr>) (next r s))"

definition chooseRequestID :: "mw_env \<Rightarrow> request \<Rightarrow> go_string" where
  "chooseRequestID env r =
     (let requestID = sanitizeRequestID (header_get (rq_header r) ''X-Request-Id'')
      in if requestID = '''' then newRequestID (mw_random env) else requestID)"

definition requestID_middleware ::
  "mw_env \<Rightarrow> (go_string \<Rightarrow> request \<Rightarrow> 's \<Rightarrow> ResponseWriter \<Rightarrow> ('s, http_event) served option) \<Rightarrow>
     request \<Rightarrow> 's \<Rightarrow> ResponseWriter \<Rightarrow> ('s, http_event) served option" where
  "requestID_middleware env next r s w =
     (let requestID = chooseRequestID env r
      in next requestID r s (snd (server_call (SetHeader ''X-Request-Id'' requestID) w)))"

definition withMiddleware ::
  "mw_env \<Rightarrow> ('s, http_event) handler \<Rightarrow> request \<Rightarrow> 's \<Rightarrow> ResponseWriter \<Rightarrow> ('s, http_event) served option" where
  "withMiddleware env handler =
     requestID_middleware env (\<lambda>requestID. requestLogger env requestID (secureHeaders handler))"

section \<open>The router\<close>

text \<open>\<^verbatim>\<open>ServerObservability\<close>: the metrics handler, if any, and which observers are present.\<close>

record 's ServerObservability =
  so_MetricsHandler :: "('s, http_event) handler option"
  so_RequestObserver :: bool
  so_RewardClaimObserver :: bool

definition notFound :: "('s, 'e) handler" where
  "notFound r s = respond (writeError 404 errorCodeNotFound ''Not found'') [] s"

definition router_patterns :: "bool \<Rightarrow> go_string list" where
  "router_patterns has_metrics =
     [routeLivez, routeReadyz] @ (if has_metrics then [routeMetrics] else []) @ [routeRewardClaims]"

text \<open>The multiplexer of \<^verbatim>\<open>newRouter\<close>; \<open>redirect\<close> is its answer to a path that is not clean.\<close>

definition router_mux ::
  "'s rewardClaimCreator \<Rightarrow> 's ServerObservability \<Rightarrow> 's Check list \<Rightarrow> ('s, http_event) handler \<Rightarrow> context_state \<Rightarrow>
     ('s, http_event) handler" where
  "router_mux service obs checks redirect ctx r s =
     (case mux_target_of (router_patterns (so_MetricsHandler obs \<noteq> None)) r of
        MuxRedirect \<Rightarrow> redirect r s
      | MuxFallback \<Rightarrow> notFound r s
      | MuxPattern p \<Rightarrow>
          if p = routeLivez then LiveHandler r s
          else if p = routeReadyz then ReadyHandler checks r s
          else if p = routeRewardClaims
          then rewardClaimsHandler service (so_RewardClaimObserver obs) ctx r s
          else (case so_MetricsHandler obs of Some h \<Rightarrow> h r s | None \<Rightarrow> notFound r s))"

definition newRouter ::
  "'s rewardClaimCreator \<Rightarrow> 's ServerObservability \<Rightarrow> 's Check list \<Rightarrow> ('s, http_event) handler \<Rightarrow> context_state \<Rightarrow>
     mw_env \<Rightarrow> request \<Rightarrow> 's \<Rightarrow> ResponseWriter \<Rightarrow> ('s, http_event) served option" where
  "newRouter service obs checks redirect ctx env =
     withMiddleware (env\<lparr>mw_observers := [so_RequestObserver obs]\<rparr>) (router_mux service obs checks redirect ctx)"

section \<open>The server\<close>

record http_server =
  srv_Addr :: go_string
  srv_ReadTimeout :: int
  srv_ReadHeaderTimeout :: int
  srv_WriteTimeout :: int
  srv_IdleTimeout :: int
  srv_MaxHeaderBytes :: int
  srv_MaxHeaderValueCount :: int

definition maxRequestHeaderBytes :: int where "maxRequestHeaderBytes = 32 * 1024"
definition maxRequestHeaderValueCount :: int where "maxRequestHeaderValueCount = 500"

text \<open>The settings of the server; its handler is \<open>newRouter\<close>. The flags say whether the logger and
  the service are non-nil.\<close>

definition NewServer :: "HTTPConfig \<Rightarrow> bool \<Rightarrow> bool \<Rightarrow> goerror + http_server" where
  "NewServer cfg has_logger has_service =
     (if \<not> has_logger then Inl (Plain ''http logger is required'')
      else if \<not> has_service then Inl (Plain ''reward claim service is required'')
      else Inr \<lparr>srv_Addr = http_Addr cfg, srv_ReadTimeout = http_ReadTimeout cfg,
        srv_ReadHeaderTimeout = http_ReadHeaderTimeout cfg, srv_WriteTimeout = http_WriteTimeout cfg,
        srv_IdleTimeout = http_IdleTimeout cfg, srv_MaxHeaderBytes = maxRequestHeaderBytes,
        srv_MaxHeaderValueCount = maxRequestHeaderValueCount\<rparr>)"

end
