(* ===== verification/Http_Service.thy ===== *)
theory Http_Service
  imports Http_Claims Reward_Atomicity
begin

text \<open>
  The claim handler and the service it calls. The locale \<open>claim_service\<close> is the interface
  \<^verbatim>\<open>rewardClaimCreator\<close> with what its callers rely on: the results are a created or a conflicting
  claim with a JSON body, the errors are of the known kinds. It is interpreted on \<open>CreateClaim\<close>.
  From it follows what a client can get to see.
\<close>

section \<open>The checks before the service\<close>

text \<open>The two layers agree on the keys they accept.\<close>

lemma http_key_valid: "http_validateIdempotencyKey v = None \<longleftrightarrow> validateIdempotencyKey v = None"
proof -
  have "is_control = (\<lambda>r. r < 32 \<or> r = 127)" by (rule ext) (simp add: is_control_def)
  then show ?thesis
    by (simp add: http_validateIdempotencyKey_def validateIdempotencyKey_def http_maxIdempotencyKeyLength_def
        maxIdempotencyKeyLength_def)
qed

lemma readIdempotencyKey_Inr:
  "readIdempotencyKey h = Inr k \<longleftrightarrow>
     (\<exists>raw. h ''Idempotency-Key'' = [raw] \<and> k = trim_space raw \<and> validateIdempotencyKey k = None)"
  by (auto simp: readIdempotencyKey_def Let_def length_Suc_conv split: option.splits simp: http_key_valid[symmetric])

definition body_fields :: "request \<Rightarrow> (go_string \<times> go_string) list \<Rightarrow> bool" where
  "body_fields r kvs \<longleftrightarrow> length (rq_body r) \<le> 65536 \<and> rq_body_error r = None \<and>
     unmarshal_struct request_fields (rq_body r) = Inr (Some kvs)"

lemma whitespace_unmarshal: "isJSONWhitespaceOnly s \<Longrightarrow> unmarshal_struct fs s = Inl DecInvalid"
proof -
  assume "isJSONWhitespaceOnly s"
  then have "skip_ws s = []"
    by (auto simp: isJSONWhitespaceOnly_def skip_ws_def is_json_ws_def list_all_iff dropWhile_eq_Nil_conv)
  then show ?thesis by (simp add: unmarshal_struct_def)
qed

lemma decode_Inr:
  "decodeCreateRewardClaimRequest r = Inr req \<longleftrightarrow>
     (\<exists>kvs. body_fields r kvs \<and> req = \<lparr>req_PlayerID = field_or_empty kvs ''player_id'',
        req_CampaignID = field_or_empty kvs ''campaign_id'', req_RewardID = field_or_empty kvs ''reward_id''\<rparr>)"
  by (auto simp: decodeCreateRewardClaimRequest_def read_body_def body_fields_def maxRewardClaimBodyBytes_def
      whitespace_unmarshal split: sum.splits option.splits if_splits)

lemma check_request_steps:
  "check_request r = Inr cmd \<longleftrightarrow> rq_method r = ''POST'' \<and>
     (\<exists>k. readIdempotencyKey (rq_header r) = Inr k \<and> isJSONContentType (header_get (rq_header r) ''Content-Type'') \<and>
       (\<exists>req. decodeCreateRewardClaimRequest r = Inr req \<and> cmd = command_of req k))"
  by (auto simp: check_request_def split: sum.splits if_splits)

definition fields_command :: "(go_string \<times> go_string) list \<Rightarrow> go_string \<Rightarrow> CreateClaimCommand" where
  "fields_command kvs key = \<lparr>cmd_PlayerID = field_or_empty kvs ''player_id'',
     cmd_CampaignID = field_or_empty kvs ''campaign_id'', cmd_RewardID = field_or_empty kvs ''reward_id'',
     cmd_IdempotencyKey = key\<rparr>"

lemma command_of_fields:
  "(\<exists>req. decodeCreateRewardClaimRequest r = Inr req \<and> cmd = command_of req k) \<longleftrightarrow>
     (\<exists>kvs. body_fields r kvs \<and> cmd = fields_command kvs k)"
  unfolding decode_Inr command_of_def fields_command_def by force

lemma check_request_Inr:
  "check_request r = Inr cmd \<longleftrightarrow> rq_method r = ''POST'' \<and>
     (\<exists>raw. rq_header r ''Idempotency-Key'' = [raw] \<and> validateIdempotencyKey (trim_space raw) = None \<and>
       isJSONContentType (header_get (rq_header r) ''Content-Type'') \<and>
       (\<exists>kvs. body_fields r kvs \<and> cmd = fields_command kvs (trim_space raw)))"
  unfolding check_request_steps command_of_fields readIdempotencyKey_Inr by blast

section \<open>Complete responses\<close>

text \<open>An answer is one complete JSON response: a documented status and a body that is valid JSON.\<close>

definition error_answer :: "writer_call list \<Rightarrow> int \<Rightarrow> go_string \<Rightarrow> bool" where
  "error_answer calls status code \<longleftrightarrow>
     (\<exists>hs msg. calls = json_response hs status (json_encode (errorResponse code msg)))"

definition answered_from :: "(int \<times> go_string) list \<Rightarrow> writer_call list \<Rightarrow> bool" where
  "answered_from table calls \<longleftrightarrow> (\<exists>x \<in> set table. error_answer calls (fst x) (snd x))"

definition request_errors :: "(int \<times> go_string) list" where
  "request_errors =
     [(405, ''method_not_allowed''), (400, ''idempotency_key_required''), (400, ''invalid_idempotency_key''),
      (415, ''unsupported_media_type''), (413, ''request_body_too_large''), (400, ''invalid_json''),
      (400, ''invalid_request'')]"

text \<open>How an error of the service is answered.\<close>

definition documented_error :: "goerror \<Rightarrow> int \<Rightarrow> go_string \<Rightarrow> bool" where
  "documented_error e st code \<longleftrightarrow>
     (\<exists>m. e = InvalidInputError m \<and> st = 400 \<and> code = ''invalid_request'') \<or>
     (\<exists>m. e = Wrapf m (Sentinel ErrIdempotencyKeyReused) \<and> st = 409 \<and> code = ''idempotency_key_reused'') \<or>
     (\<exists>m m'. e = Wrapf m (Wrapf m' (Sentinel RewardsErrUnavailable)) \<and> st = 503 \<and> code = ''service_unavailable'') \<or>
     (\<exists>m m'. e = Wrapf m (Wrapf m' (Sentinel RewardsErrInternal)) \<and> st = 500 \<and> code = ''internal_error'')"

lemma error_answerI [intro]: "error_answer (writeError status code msg) status code"
  "error_answer (writeMethodNotAllowed ms) 405 errorCodeMethodNotAllowed"
  unfolding error_answer_def writeError_response writeMethodNotAllowed_response by blast+

lemma decode_Inl:
  "decodeCreateRewardClaimRequest r = Inl calls \<Longrightarrow>
     answered_from request_errors calls"
  by (auto simp: decodeCreateRewardClaimRequest_def writeDecodeError_def answered_from_def request_errors_def
      error_answerI[unfolded error_codes] error_codes split: sum.splits option.splits if_splits)

lemma check_request_Inl:
  "check_request r = Inl calls \<Longrightarrow> answered_from request_errors calls"
  by (auto simp: check_request_def error_codes split: sum.splits if_splits dest!: decode_Inl)
     (auto simp: answered_from_def request_errors_def error_answerI[unfolded error_codes])

section \<open>The interface\<close>

definition good_result :: "CreateClaimResult \<Rightarrow> bool" where
  "good_result res \<longleftrightarrow> (res_StatusCode res = 201 \<or> res_StatusCode res = 409) \<and>
     json_valid (res_ResponseBody res) \<and> valid_string (res_ResponseBody res)"

definition known_error :: "sentinel set \<Rightarrow> goerror \<Rightarrow> bool" where
  "known_error S e \<longleftrightarrow> (\<exists>m. e = InvalidInputError m) \<or> (\<exists>m e'. e = Wrapf m e' \<and> claim_error S e')"

text \<open>The errors with which a context has ended.\<close>

definition ended_with :: "context_state \<Rightarrow> sentinel set" where
  "ended_with ctx = set_option (ctx_err ctx)"

lemma is_invalid_input_simps [simp]:
  "is_invalid_input (InvalidInputError m)"
  "\<not> is_invalid_input (Sentinel x)"
  "is_invalid_input (Wrapf m e) = is_invalid_input e"
  by (simp_all add: is_invalid_input_def)

lemma ended_with_cases: "x \<in> ended_with ctx \<Longrightarrow> \<exists>e c. ctx = Ended e c \<and> x = ctx_sentinel e"
  by (cases ctx) (auto simp: ended_with_def)

lemma known_error_answer:
  assumes "known_error (ended_with ctx) e"
  shows "isRequestContextError ctx e \<or> (\<exists>st code. documented_error e st code \<and> error_answer (writeCreateClaimError e) st code)"
proof -
  consider (input) m where "e = InvalidInputError m"
    | (reused) m where "e = Wrapf m (Sentinel ErrIdempotencyKeyReused)"
    | (ctx) m x where "e = Wrapf m (Sentinel x)" "x \<in> ended_with ctx"
    | (db) m m' x where "e = Wrapf m (Wrapf m' (Sentinel x))" "x = RewardsErrUnavailable \<or> x = RewardsErrInternal"
    using assms by (auto simp: known_error_def claim_error_def)
  then show ?thesis
  proof cases
    case ctx
    then show ?thesis by (auto simp: isRequestContextError_def dest!: ended_with_cases)
  qed (auto simp: writeCreateClaimError_def documented_error_def error_codes intro: error_answerI[unfolded error_codes])
qed

locale claim_service =
  fixes service :: "'s rewardClaimCreator"
    and ready :: "context_state \<Rightarrow> 's \<Rightarrow> bool"
  assumes result_good: "ready ctx s \<Longrightarrow> service cmd s = Some (Inr res, s') \<Longrightarrow> good_result res"
    and error_known: "ready ctx s \<Longrightarrow> service cmd s = Some (Inl e, s') \<Longrightarrow> known_error (ended_with ctx) e"
    and invalid_unchanged: "ready ctx s \<Longrightarrow> service cmd s = Some (Inl e, s') \<Longrightarrow> is_invalid_input e \<Longrightarrow> s' = s"
begin

text \<open>Every outcome of the handler: it never panics; the request is refused and the service not
  called, or the service is called once and its result or its error is answered; no answer is given
  only when the request's own context has ended.\<close>

lemma handler_outcome:
  assumes "ready ctx s" "rewardClaimsHandler service b ctx r s = Some out"
  shows "out_panic out = None \<and>
    ((answered_from request_errors (out_calls out) \<and> out_state out = s) \<or>
     (\<exists>cmd. check_request r = Inr cmd \<and>
       ((\<exists>res. service cmd s = Some (Inr res, out_state out) \<and> good_result res \<and> out_calls out = write_result res) \<or>
        (\<exists>e. service cmd s = Some (Inl e, out_state out) \<and>
           ((\<exists>st code. documented_error e st code \<and> error_answer (out_calls out) st code) \<or>
            (out_calls out = [] \<and> ctx \<noteq> Live \<and> isRequestContextError ctx e))))))"
proof (cases "check_request r")
  case (Inl calls)
  with assms(2) check_request_Inl[OF Inl] show ?thesis
    by (auto simp: handler_defs)
next
  case (Inr cmd)
  with assms(2) obtain res s' where res: "service cmd s = Some (res, s')"
    by (auto simp: rewardClaimsHandler_def split: option.splits)
  show ?thesis
  proof (cases res)
    case [simp]: (Inl e)
    note known = known_error_answer[OF error_known[OF assms(1) res[unfolded Inl]]]
    show ?thesis
    proof (cases "isRequestContextError ctx e")
      case True
      then have "ctx \<noteq> Live" by (auto simp: isRequestContextError_def)
      with True assms(2) Inr res show ?thesis by (auto simp: handler_defs Let_def)
    next
      case False
      with known assms(2) Inr res show ?thesis by (auto simp: handler_defs Let_def)
    qed
  next
    case (Inr result)
    with assms(2) \<open>check_request r = Inr cmd\<close> res result_good[OF assms(1)] show ?thesis
      by (auto simp: handler_defs Let_def)
  qed
qed

end

section \<open>The service\<close>

lemma createClaim_body_results:
  "triple (\<lambda>_. True) any_db (createClaim_body tx p) (\<lambda>res _. good_result res) (\<lambda>_. any_db)"
proof (rule triple_createClaim_body[where R = any_db and C = "\<lambda>res _. good_result res" and I = "\<lambda>_. any_db"])
  have stored: "check_stored p r = Inr res \<Longrightarrow> good_result res" for r res
    by (auto simp: check_stored_def good_result_def createClaimStatusCreated_def createClaimStatusConflict_def
        split: option.splits if_splits)
  show "triple (\<lambda>_. True) any_db (reserve_loop tx p)
      (\<lambda>f. case f of None \<Rightarrow> any_db | Some res \<Rightarrow> (\<lambda>_. good_result res)) (\<lambda>_. any_db)"
    by (rule triple_reserve_loop; rule triple_call)
       (auto simp: tryLoadIdempotentClaimResult_def stored split: option.splits sum.splits if_splits)
qed (auto simp: triple_def list_all_iff good_result_def conflict_result_def createClaimStatusCreated_def createClaimStatusConflict_def
      marshalCreatedClaimResponse_valid marshalDuplicateClaimResponse_valid split: sum.splits option.splits)

lemma CreateClaim_results:
  assumes "CreateClaim tx cmd tks d = Some (Inr res, tks', d')"
  shows "good_result res"
proof -
  from CreateClaim_InrD[OF assms] obtain p where p: "createClaim tx p tks d = Some (Inr res, tks', d')" by blast
  have undo: "triple (\<lambda>_. True) any_db (rollbackTransaction tx (createClaim_body tx p)) (\<lambda>res _. good_result res) (\<lambda>_. any_db)"
    by (rule triple_rollback[OF createClaim_body_results]) auto
  have "triple (\<lambda>_. True) any_db (createClaim tx p) (\<lambda>res _. good_result res) (\<lambda>_. any_db)"
    unfolding createClaim_def
    by (rule triple_bind[where Q = "\<lambda>_. any_db", OF _ undo])
       (auto simp: triple_def list_all_iff split: sum.splits)
  from tripleD(3)[OF this _ _ p] show ?thesis by (simp add: list_all_iff)
qed

text \<open>The service as the handler calls it: its state is the rest of the script and the database.\<close>

definition claim_creator :: "tx \<Rightarrow> (tick list \<times> db) rewardClaimCreator" where
  "claim_creator tx cmd = (\<lambda>(tks, d).
     case CreateClaim tx cmd tks d of None \<Rightarrow> None | Some (res, tks', d') \<Rightarrow> Some (res, (tks', d')))"

definition within_context :: "context_state \<Rightarrow> tick list \<times> db \<Rightarrow> bool" where
  "within_context ctx s \<longleftrightarrow> list_all (parent_in (ended_with ctx)) (fst s)"

interpretation api: claim_service "claim_creator tx" within_context for tx
proof
  fix ctx :: context_state and s :: "tick list \<times> db" and cmd and res :: CreateClaimResult and s' and e
  assume "within_context ctx s"
  then have ctx: "list_all (parent_in (ended_with ctx)) (fst s)" by (simp add: within_context_def)
  show "good_result res" if "claim_creator tx cmd s = Some (Inr res, s')"
    using that by (auto simp: claim_creator_def split: prod.splits option.splits intro: CreateClaim_results)
  {
    assume "claim_creator tx cmd s = Some (Inl e, s')"
    then have "CreateClaim tx cmd (fst s) (snd s) = Some (Inl e, fst s', snd s')"
      by (auto simp: claim_creator_def split: prod.splits option.splits)
    note kinds = CreateClaim_error_kinds[OF ctx this]
    from kinds show "known_error (ended_with ctx) e" by (auto simp: known_error_def)
    assume "is_invalid_input e"
    with kinds show "s' = s" by (cases s; cases s') (auto simp: claim_error_def)
  }
qed

section \<open>Properties\<close>

definition sample_request :: request where
  "sample_request = \<lparr>rq_method = ''POST'', rq_path = ''/v1/reward-claims'', rq_escaped_path = ''/v1/reward-claims'',
     rq_header = (\<lambda>k. if k = ''Idempotency-Key'' then ['' k1''] else if k = ''Content-Type'' then [''application/json; charset=utf-8''] else []),
     rq_body = json_print (JObject [(''player_id'', JString ''p1''), (''campaign_id'', JString ''c1''), (''reward_id'', JString ''r1'')]),
     rq_body_error = None, rq_remote_addr = ''127.0.0.1:4711''\<rparr>"

lemma sample_body_short: "length (rq_body sample_request) \<le> 65536"
  using length_json_quote[of "''player_id''"] length_json_quote[of "''campaign_id''"] length_json_quote[of "''reward_id''"]
    length_json_quote[of "''p1''"] length_json_quote[of "''c1''"] length_json_quote[of "''r1''"]
  by (simp add: sample_request_def json_print.simps)

definition http_cmd :: CreateClaimCommand where
  "http_cmd = \<lparr>cmd_PlayerID = ''p1'', cmd_CampaignID = ''c1'', cmd_RewardID = ''r1'', cmd_IdempotencyKey = ''k1''\<rparr>"

lemma claim_request_reads_back:
  assumes "rq_method r = ''POST''" "rq_header r ''Idempotency-Key'' = [raw]" "validateIdempotencyKey (trim_space raw) = None"
    "isJSONContentType (header_get (rq_header r) ''Content-Type'')"
    "rq_body r = json_print (JObject [(''player_id'', JString p), (''campaign_id'', JString c), (''reward_id'', JString w)])"
    "rq_body_error r = None" "length (rq_body r) \<le> 65536" "valid_string p" "valid_string c" "valid_string w"
  shows "check_request r = Inr \<lparr>cmd_PlayerID = p, cmd_CampaignID = c, cmd_RewardID = w, cmd_IdempotencyKey = trim_space raw\<rparr>"
proof -
  let ?kvs = "[(''player_id'', p), (''campaign_id'', c), (''reward_id'', w)]"
  have "valid_string ''player_id''" "valid_string ''campaign_id''" "valid_string ''reward_id''" by code_simp+
  then have "readable request_fields ?kvs" using assms(8-10) by (auto simp: readable_def request_fields_def)
  from unmarshal_print[OF this] have "unmarshal_struct request_fields (rq_body r) = Inr (Some ?kvs)"
    by (simp add: assms(5))
  then have "body_fields r ?kvs" using assms(6,7) by (simp add: body_fields_def)
  moreover have "fields_command ?kvs (trim_space raw) =
      \<lparr>cmd_PlayerID = p, cmd_CampaignID = c, cmd_RewardID = w, cmd_IdempotencyKey = trim_space raw\<rparr>"
    by (simp add: fields_command_def field_or_empty_def)
  ultimately show ?thesis unfolding check_request_Inr using assms(1-4) by metis
qed

lemma sample_request_command: "check_request sample_request = Inr http_cmd"
proof -
  have "trim_space '' k1'' = ''k1''" "validateIdempotencyKey (trim_space '' k1'') = None"
    "isJSONContentType ''application/json; charset=utf-8''"
    "valid_string ''p1''" "valid_string ''c1''" "valid_string ''r1''"
    by code_simp+
  then show ?thesis
    using claim_request_reads_back[of sample_request "'' k1''" "''p1''" "''c1''" "''r1''"] sample_body_short
    by (simp add: sample_request_def header_get_def http_cmd_def)
qed

lemma http_cmd_prepare: "prepareCreateClaim http_cmd = Inr sample_params"
proof -
  have "trim_space ''p1'' = trim_space '' p1''" "trim_space ''k1'' = trim_space ''k1 ''" by code_simp+
  then have "trim_command http_cmd = trim_command sample_cmd"
    by (simp add: trim_command_def http_cmd_def sample_cmd_def)
  with sample_prepare show ?thesis by (simp add: prepareCreateClaim_def Let_def)
qed

lemma json_response_eqD: "json_response hs st body = json_response hs' st' body' \<Longrightarrow> st = st' \<and> body = body'"
  by (simp add: json_response_def)

lemma writeCreateClaimError_status: "writeCreateClaimError e \<noteq> json_response hs 201 body"
  by (auto simp: writeCreateClaimError_def writeError_response dest!: json_response_eqD split: option.splits if_splits)

lemma check_request_status: "check_request r = Inl calls \<Longrightarrow> calls \<noteq> json_response hs 201 body"
  by (auto dest!: check_request_Inl json_response_eqD simp: answered_from_def request_errors_def error_answer_def)

lemma write_result_response:
  "write_result res = json_response (if res_Replayed res then [(''Idempotent-Replayed'', ''true'')] else [])
     (res_StatusCode res) (res_ResponseBody res)"
  by (simp add: write_result_def writeRawJSON_response json_response_def)

lemma handler_created:
  assumes "rewardClaimsHandler service b ctx r s = Some out" "out_calls out = json_response hs 201 body"
  obtains cmd res where "check_request r = Inr cmd" "service cmd s = Some (Inr res, out_state out)"
    "res_StatusCode res = 201" "res_ResponseBody res = body"
proof (cases "check_request r")
  case (Inl calls)
  with assms check_request_status[OF Inl] show ?thesis by (auto simp: handler_defs)
next
  case (Inr cmd)
  with assms(1) obtain res s' where res: "service cmd s = Some (res, s')"
    by (auto simp: rewardClaimsHandler_def split: option.splits)
  show ?thesis
  proof (cases res)
    case (Inl e)
    with assms Inr res writeCreateClaimError_status[of e hs body] show ?thesis
      by (auto simp: handler_defs Let_def json_response_def split: if_splits)
  next
    case (Inr result)
    with assms \<open>check_request r = Inr cmd\<close> res have "out_state out = s'" "write_result result = json_response hs 201 body"
      by (auto simp: handler_defs Let_def)
    with that[OF \<open>check_request r = Inr cmd\<close>] res Inr show ?thesis
      by (auto simp: write_result_response dest!: json_response_eqD)
  qed
qed

text \<open>C21. What a client of the claim endpoint can see, whatever happens to the database on the way: the
  handler does not panic; a request that fails a check is refused with one of seven documented
  errors and changes nothing; otherwise the service runs once, and its result is sent as it is, or
  its error as the documented status and code; no response is written only when the request's own
  context has ended.\<close>

theorem claims_handler_answers:
  assumes "within_context ctx (tks, d)" "rewardClaimsHandler (claim_creator tx) b ctx r (tks, d) = Some out"
  shows "out_panic out = None \<and>
    ((answered_from request_errors (out_calls out) \<and> out_state out = (tks, d)) \<or>
     (\<exists>cmd. check_request r = Inr cmd \<and>
       ((\<exists>res. claim_creator tx cmd (tks, d) = Some (Inr res, out_state out) \<and> good_result res \<and>
           out_calls out = write_result res) \<or>
        (\<exists>e. claim_creator tx cmd (tks, d) = Some (Inl e, out_state out) \<and>
           ((\<exists>st code. documented_error e st code \<and> error_answer (out_calls out) st code) \<or>
            (out_calls out = [] \<and> ctx \<noteq> Live \<and> isRequestContextError ctx e))))))"
  using assms by (rule api.handler_outcome)

lemma http_sample_run:
  "claim_creator (sample_tx 1) http_cmd (sample_ticks 6, empty_db) = Some (Inr sample_result, [], sample_db)"
proof -
  have "CreateClaim (sample_tx 1) http_cmd (sample_ticks 6) empty_db = CreateClaim (sample_tx 1) sample_cmd (sample_ticks 6) empty_db"
    by (simp add: CreateClaim_def http_cmd_prepare sample_prepare)
  then show ?thesis using sample_run by (simp add: claim_creator_def)
qed

definition sample_outcome :: "(tick list \<times> db, http_event) outcome" where
  "sample_outcome = \<lparr>out_calls = write_result sample_result, out_events = [ObserveRewardClaim (Inr sample_result)],
     out_panic = None, out_state = ([], sample_db)\<rparr>"

lemma http_sample_handler:
  "rewardClaimsHandler (claim_creator (sample_tx 1)) True Live sample_request (sample_ticks 6, empty_db) = Some sample_outcome"
  unfolding rewardClaimsHandler_def sample_request_command sum.case http_sample_run option.case prod.case Let_def
  by (simp add: observe_claim_def respond_def sample_outcome_def)

lemma sample_ticks_parent [simp]: "list_all (parent_in S) (sample_ticks n)"
  by (simp add: sample_ticks_def list_all_iff parent_in_def quiet_tick_def)

theorem claims_handler_answers_witness:
  "rewardClaimsHandler (claim_creator (sample_tx 1)) True Live sample_request (sample_ticks 6, empty_db) = Some sample_outcome \<and>
     out_panic sample_outcome = None \<and> out_calls sample_outcome = write_result sample_result"
proof (intro conjI)
  have "within_context Live (sample_ticks 6, empty_db)" by (simp add: within_context_def)
  from claims_handler_answers[OF this http_sample_handler] show "out_panic sample_outcome = None" ..
qed (rule http_sample_handler, simp add: sample_outcome_def)

text \<open>C22. Exactly once over HTTP: when a request has been answered with 201, sending the same request
  again, on the same or another connection, is answered with 201 and the very same bytes, marked by
  the header \<open>Idempotent-Replayed: true\<close>, and leaves the database as it is.\<close>

theorem claims_idempotent_over_http:
  assumes "list_all (alone L) tks" "idle_session (tx_sid tx) d" "unique_keys d"
    "rewardClaimsHandler (claim_creator tx) b ctx r (tks, d) = Some out"
    "out_calls out = json_response hs 201 body" "out_state out = (tks', d')"
    "idle_session (tx_sid tx2) d'" "list_all quiet qs" "length qs = 4"
  shows "\<exists>out2. rewardClaimsHandler (claim_creator tx2) b2 ctx2 r (qs, d') = Some out2 \<and>
    out_calls out2 = json_response [(''Idempotent-Replayed'', ''true'')] 201 body \<and> out_state out2 = ([], d')"
proof -
  from handler_created[OF assms(4,5)] obtain cmd res where cmd: "check_request r = Inr cmd"
    and run: "claim_creator tx cmd (tks, d) = Some (Inr res, out_state out)"
    and res: "res_StatusCode res = 201" "res_ResponseBody res = body" .
  from run assms(6) have "CreateClaim tx cmd tks d = Some (Inr res, tks', d')"
    by (auto simp: claim_creator_def split: option.splits)
  from CreateClaim_replays[OF assms(1-3) this assms(7-9)]
  have "claim_creator tx2 cmd (qs, d') = Some (Inr (res\<lparr>res_Replayed := True\<rparr>), [], d')" by (simp add: claim_creator_def)
  with cmd res show ?thesis
    by (simp add: handler_defs Let_def write_result_response)
qed

theorem claims_idempotent_over_http_witness:
  "\<exists>out2. rewardClaimsHandler (claim_creator (sample_tx 2)) True Live sample_request (sample_ticks 4, sample_db) = Some out2 \<and>
    out_calls out2 = json_response [(''Idempotent-Replayed'', ''true'')] 201 (res_ResponseBody sample_result) \<and>
    out_state out2 = ([], sample_db)"
  by (rule claims_idempotent_over_http[OF _ _ _ http_sample_handler, where L = False and hs = "[]"])
     (simp_all add: sample_outcome_def write_result_response sample_result_def created_result_def createClaimStatusCreated_def)

text \<open>C27. What a client sends is what the service gets: the three strings of a request body that a JSON
  encoder printed, whatever characters they hold, reach the service unchanged, with the trimmed
  header as the key.\<close>

theorem claim_request_roundtrip:
  assumes "rq_method r = ''POST''" "rq_header r ''Idempotency-Key'' = [raw]" "validateIdempotencyKey (trim_space raw) = None"
    "isJSONContentType (header_get (rq_header r) ''Content-Type'')"
    "rq_body r = json_print (JObject [(''player_id'', JString p), (''campaign_id'', JString c), (''reward_id'', JString w)])"
    "rq_body_error r = None" "length (rq_body r) \<le> 65536" "valid_string p" "valid_string c" "valid_string w"
  shows "check_request r = Inr \<lparr>cmd_PlayerID = p, cmd_CampaignID = c, cmd_RewardID = w, cmd_IdempotencyKey = trim_space raw\<rparr>"
  using assms by (rule claim_request_reads_back)

theorem claim_request_roundtrip_witness:
  "check_request sample_request =
     Inr \<lparr>cmd_PlayerID = ''p1'', cmd_CampaignID = ''c1'', cmd_RewardID = ''r1'', cmd_IdempotencyKey = trim_space '' k1''\<rparr>"
proof (rule claim_request_roundtrip)
  show "length (rq_body sample_request) \<le> 65536" by (rule sample_body_short)
  show "validateIdempotencyKey (trim_space '' k1'') = None"
    "valid_string ''p1''" "valid_string ''c1''" "valid_string ''r1''" by code_simp+
  have "isJSONContentType ''application/json; charset=utf-8''" by code_simp
  then show "isJSONContentType (header_get (rq_header sample_request) ''Content-Type'')"
    by (simp add: sample_request_def header_get_def)
qed (simp_all add: sample_request_def)

text \<open>C28. A command that passes the checks of the HTTP layer has a key that the service accepts: the
  service can refuse it only for one of the three identifiers, and hashes the trimmed header.\<close>

theorem claims_key_agreement:
  assumes "check_request r = Inr cmd"
  shows "(\<exists>p raw. prepareCreateClaim cmd = Inr p \<and> rq_header r ''Idempotency-Key'' = [raw] \<and>
      par_KeyHash p = Sum256 (trim_space raw)) \<or>
    (\<exists>v \<in> {cmd_PlayerID cmd, cmd_CampaignID cmd, cmd_RewardID cmd}. \<exists>f. validateClaimID f (trim_space v) \<noteq> None)"
proof -
  from assms obtain raw where raw: "rq_header r ''Idempotency-Key'' = [raw]" "validateIdempotencyKey (trim_space raw) = None"
    and key: "cmd_IdempotencyKey cmd = trim_space raw"
    unfolding check_request_Inr by (auto simp: fields_command_def)
  then show ?thesis
    by (auto simp: prepareCreateClaim_def validateCreateClaimCommand_def trim_command_def Let_def split: option.splits)
qed

theorem claims_key_agreement_witness:
  "(\<exists>p raw. prepareCreateClaim http_cmd = Inr p \<and> rq_header sample_request ''Idempotency-Key'' = [raw] \<and>
      par_KeyHash p = Sum256 (trim_space raw)) \<or>
    (\<exists>v \<in> {cmd_PlayerID http_cmd, cmd_CampaignID http_cmd, cmd_RewardID http_cmd}. \<exists>f. validateClaimID f (trim_space v) \<noteq> None)"
  by (rule claims_key_agreement[OF sample_request_command])

end
