(* ===== verification/Http_Serving.thy ===== *)
theory Http_Serving
  imports Http_Server Http_Service
begin

text \<open>
  What the HTTP server sends and records. The locale \<open>status_recorder\<close> is the contract of the
  recorders of both servers: a recorder passes every call on to the writer it wraps, and its status is
  the one that was sent. It is interpreted on the recorder of the API server here and on that of the
  admin server in its own theory.
\<close>

section \<open>Recorders\<close>

definition plain_call :: "writer_call \<Rightarrow> bool" where
  "plain_call c = (case c of WriteHeader st \<Rightarrow> \<not> informational st | _ \<Rightarrow> True)"

text \<open>A recorder that has seen only plain calls knows what its writer has sent.\<close>

definition in_step :: "statusRecorder \<Rightarrow> bool" where
  "in_step rec \<longleftrightarrow>
     (case rw_sent (sr_w rec) of
        None \<Rightarrow> \<not> sr_wroteHeader rec
      | Some (st, h) \<Rightarrow> sr_wroteHeader rec \<and> sr_status rec = st)"

lemma in_step_new [simp]: "rw_sent w = None \<Longrightarrow> in_step (new_recorder w)"
  by (simp add: in_step_def new_recorder_def)

locale status_recorder =
  fixes call :: "writer_call \<Rightarrow> statusRecorder \<Rightarrow> panic option \<times> statusRecorder"
  assumes transparent: "in_step rec \<Longrightarrow> plain_call c \<Longrightarrow> call c rec = (p, rec') \<Longrightarrow> server_call c (sr_w rec) = (p, sr_w rec')"
    and stays_in_step: "in_step rec \<Longrightarrow> plain_call c \<Longrightarrow> call c rec = (p, rec') \<Longrightarrow> in_step rec'"
    and status_untouched: "in_step rec \<Longrightarrow> plain_call c \<Longrightarrow> call c rec = (p, rec') \<Longrightarrow> \<not> sr_wroteHeader rec' \<Longrightarrow>
      sr_status rec' = sr_status rec"
begin

lemma run_transparent:
  assumes "in_step rec" "list_all plain_call cs" "run_calls call cs rec = (p, rec')"
  shows "run_calls server_call cs (sr_w rec) = (p, sr_w rec') \<and> in_step rec' \<and>
    (\<not> sr_wroteHeader rec' \<longrightarrow> sr_status rec' = sr_status rec)"
  using assms
proof (induction cs arbitrary: rec)
  case (Cons c cs)
  obtain q rec1 where q: "call c rec = (q, rec1)" by fastforce
  note one = transparent[OF Cons.prems(1) _ q] stays_in_step[OF Cons.prems(1) _ q] status_untouched[OF Cons.prems(1) _ q]
  show ?case
  proof (cases q)
    case None
    with q Cons.prems one have step: "in_step rec1" "run_calls call cs rec1 = (p, rec')"
      "server_call c (sr_w rec) = (None, sr_w rec1)" by auto
    note IH = Cons.IH[OF step(1) _ step(2)]
    have "sr_status rec' = sr_status rec" if "\<not> sr_wroteHeader rec'"
    proof -
      have "\<not> sr_wroteHeader rec1"
      proof
        assume "sr_wroteHeader rec1"
        with step(1) obtain x where "rw_sent (sr_w rec1) = Some x" by (auto simp: in_step_def split: option.splits)
        with IH Cons.prems(2) run_sent_stable[of "sr_w rec1" x cs] have "rw_sent (sr_w rec') = Some x" by simp
        with IH Cons.prems(2) that show False by (auto simp: in_step_def)
      qed
      with one(3) IH that Cons.prems(2) show ?thesis by simp
    qed
    with IH step Cons.prems(2) show ?thesis by simp
  next
    case (Some x)
    with q Cons.prems one show ?thesis by auto
  qed
qed simp

end

interpretation api_recorder: status_recorder recorder_call
proof
  fix rec :: statusRecorder and c p rec'
  assume step: "in_step rec" and plain: "plain_call c" and call: "recorder_call c rec = (p, rec')"
  show "server_call c (sr_w rec) = (p, sr_w rec')" "in_step rec'" "\<not> sr_wroteHeader rec' \<Longrightarrow> sr_status rec' = sr_status rec"
    using step plain call
    by (cases c; auto simp: in_step_def plain_call_def recorder_WriteHeader_def recorder_Write_def server_write_header_def Let_def
        split: option.splits if_splits prod.splits)+
qed

section \<open>Headers that stay\<close>

text \<open>A call that leaves a header at its value; with the empty list it does not set it at all.\<close>

definition spares :: "go_string \<Rightarrow> go_string list \<Rightarrow> writer_call \<Rightarrow> bool" where
  "spares k v c = (case c of SetHeader k' v' \<Rightarrow> k' \<noteq> k \<or> [v'] = v | DelHeader k' \<Rightarrow> k' \<noteq> k | _ \<Rightarrow> True)"

lemma spares_never: "spares k [] c \<Longrightarrow> spares k v c"
  by (auto simp: spares_def split: writer_call.splits)

definition header_is :: "go_string \<Rightarrow> go_string list \<Rightarrow> ResponseWriter \<Rightarrow> bool" where
  "header_is k v w \<longleftrightarrow> rw_header w k = v \<and> (case rw_sent w of None \<Rightarrow> True | Some (_, h) \<Rightarrow> h k = v)"

lemma header_is_call: "header_is k v w \<Longrightarrow> spares k v c \<Longrightarrow> header_is k v (snd (server_call c w))"
  by (cases c) (auto simp: header_is_def spares_def server_write_header_def Let_def split: option.splits)

lemma header_is_run: "header_is k v w \<Longrightarrow> list_all (spares k v) cs \<Longrightarrow> header_is k v (snd (run_calls server_call cs w))"
proof (induction cs arbitrary: w)
  case (Cons c cs)
  obtain p w1 where c: "server_call c w = (p, w1)" by fastforce
  with header_is_call[OF Cons.prems(1), of c] Cons.prems(2) have "header_is k v w1" by simp
  with Cons c show ?case by (cases p) auto
qed simp

lemma spares_response:
  assumes "k \<noteq> ''Content-Type''" "k \<notin> fst ` set hs"
  shows "list_all (spares k v) (json_response hs st body)"
  using assms by (force simp: json_response_def spares_def list_all_iff)

lemma plain_response: "\<not> informational st \<Longrightarrow> list_all plain_call (json_response hs st body)"
  by (auto simp: json_response_def plain_call_def list_all_iff)

section \<open>The deferred function\<close>

text \<open>What the deferred function writes, as calls on the recorder, and how it ends.\<close>

definition panic_calls :: "panic option \<Rightarrow> statusRecorder \<Rightarrow> writer_call list" where
  "panic_calls recovered rec =
     (case recovered of
        Some (OtherPanic x) \<Rightarrow>
          if sr_wroteHeader rec then []
          else DelHeader ''Content-Length'' # writeError 500 errorCodeInternal ''Internal server error''
      | _ \<Rightarrow> [])"

lemma panic_calls_plain [simp]: "list_all plain_call (panic_calls recovered rec)"
  by (auto simp: panic_calls_def plain_call_def writeError_def writeJSON_def informational_def
      split: option.splits panic.splits)

lemma panic_calls_spares:
  "k \<noteq> ''Content-Type'' \<Longrightarrow> k \<noteq> ''Content-Length'' \<Longrightarrow> list_all (spares k v) (panic_calls recovered rec)"
  by (auto simp: panic_calls_def spares_def writeError_def writeJSON_def split: option.splits panic.splits)

lemma recovered_writer:
  "handleRecoveredPanic recovered rec = (abort, rec', logged) \<Longrightarrow>
     sr_w rec' = sr_w (snd (run_calls recorder_call (panic_calls recovered rec) rec)) \<and>
     sr_wroteHeader rec' = sr_wroteHeader (snd (run_calls recorder_call (panic_calls recovered rec) rec)) \<and>
     (abort \<longleftrightarrow> recovered = Some ErrAbortHandler \<or> (recovered \<noteq> None \<and> sr_wroteHeader rec)) \<and>
     (abort \<longrightarrow> sr_status rec' = 0) \<and>
     (\<not> abort \<longrightarrow> rec' = snd (run_calls recorder_call (panic_calls recovered rec) rec))"
  by (auto simp: handleRecoveredPanic_def panic_calls_def split: option.splits if_splits panic.splits)

text \<open>One request through the middleware: the writer ends as if the handler's calls, and after a panic
  those of the error response, had been made on it directly.\<close>

definition the_status :: "context_state \<Rightarrow> ResponseWriter \<Rightarrow> int" where
  "the_status ctx w = (case rw_sent w of Some (st, _) \<Rightarrow> st | None \<Rightarrow> if ctx = Live then 200 else 0)"

lemma finish_request_writer:
  assumes step: "in_step rec" and new: "\<not> sr_wroteHeader rec \<Longrightarrow> sr_status rec = 200"
    and fin: "finish_request env rid r recovered rec = (panic, rec', events)"
  shows "sr_w rec' = snd (run_calls server_call (panic_calls recovered rec) (sr_w rec))"
    and "panic = (if recovered = Some ErrAbortHandler \<or> (recovered \<noteq> None \<and> rw_sent (sr_w rec) \<noteq> None) then Some ErrAbortHandler else None)"
    and "sr_status rec' = (if panic = None then the_status (mw_ctx_end env) (sr_w rec') else 0)"
proof -
  obtain abort rec1 logged where hp: "handleRecoveredPanic recovered rec = (abort, rec1, logged)" by (metis prod_cases3)
  note rw = recovered_writer[OF hp]
  obtain q rec2 where run: "run_calls recorder_call (panic_calls recovered rec) rec = (q, rec2)" by fastforce
  note tr = api_recorder.run_transparent[OF step _ run]
  have rec': "rec' = (if \<not> sr_wroteHeader rec1 \<and> ctx_err (mw_ctx_end env) \<noteq> None then rec1\<lparr>sr_status := 0\<rparr> else rec1)"
    and panic: "panic = (if abort then Some ErrAbortHandler else None)"
    using fin hp by (auto simp: finish_request_def Let_def)
  have w: "sr_w rec' = sr_w rec2" "sr_w rec1 = sr_w rec2" using rec' rw run by auto
  have wrote: "sr_wroteHeader rec \<longleftrightarrow> rw_sent (sr_w rec) \<noteq> None" using step by (auto simp: in_step_def split: option.splits)
  show "sr_w rec' = snd (run_calls server_call (panic_calls recovered rec) (sr_w rec))" using w tr by simp
  show "panic = (if recovered = Some ErrAbortHandler \<or> (recovered \<noteq> None \<and> rw_sent (sr_w rec) \<noteq> None) then Some ErrAbortHandler else None)"
    using panic rw wrote by auto
  show "sr_status rec' = (if panic = None then the_status (mw_ctx_end env) (sr_w rec') else 0)"
  proof (cases abort)
    case True
    with rec' rw panic show ?thesis by auto
  next
    case False
    with rw run have "rec1 = rec2" by simp
    moreover have "sr_wroteHeader rec2" if started: "sr_wroteHeader rec"
    proof -
      from started wrote obtain x where "rw_sent (sr_w rec) = Some x" by auto
      from run_sent_stable[OF this, of "panic_calls recovered rec"] tr have "rw_sent (sr_w rec2) = Some x" by simp
      with tr show ?thesis by (auto simp: in_step_def split: option.splits)
    qed
    ultimately show ?thesis using False rec' panic tr new
      by (cases "mw_ctx_end env") (auto simp: the_status_def in_step_def split: option.splits)
  qed
qed

section \<open>The middleware\<close>

text \<open>A reference for what a client gets: the handler's calls on the server's own writer, after the
  three headers, and an error response for a panic that comes before any response.\<close>

definition middleware_headers :: "go_string \<Rightarrow> writer_call list" where
  "middleware_headers rid =
     [SetHeader ''X-Request-Id'' rid, SetHeader ''X-Content-Type-Options'' ''nosniff'', SetHeader ''Referrer-Policy'' ''no-referrer'']"

definition reference_end :: "panic option \<Rightarrow> ResponseWriter \<Rightarrow> panic option \<times> ResponseWriter" where
  "reference_end recovered w =
     (case recovered of
        None \<Rightarrow> (None, w)
      | Some ErrAbortHandler \<Rightarrow> (Some ErrAbortHandler, w)
      | Some (OtherPanic x) \<Rightarrow>
          if rw_sent w \<noteq> None then (Some ErrAbortHandler, w)
          else (None, snd (run_calls server_call
                 (DelHeader ''Content-Length'' # writeError 500 ''internal_error'' ''Internal server error'') w)))"

definition reference_serve :: "writer_call list \<Rightarrow> panic option \<Rightarrow> ResponseWriter \<Rightarrow> panic option \<times> ResponseWriter" where
  "reference_serve calls own w =
     (case run_calls server_call calls w of
        (Some p, w1) \<Rightarrow> reference_end (Some p) w1
      | (None, w1) \<Rightarrow> reference_end own w1)"

definition panic_log :: "panic option \<Rightarrow> http_event list" where
  "panic_log recovered = (case recovered of Some (OtherPanic x) \<Rightarrow> [LogPanic] | _ \<Rightarrow> [])"

definition observed_requests :: "mw_env \<Rightarrow> request \<Rightarrow> int \<Rightarrow> http_event list" where
  "observed_requests env r st = replicate (length (filter id (mw_observers env))) (ObserveRequest (routeName r) (rq_method r) st)"

lemma concat_observers:
  "concat (map (\<lambda>present. if present then [x] else []) bs) = replicate (length (filter id bs)) x"
  by (induction bs) auto

definition recovered_from :: "writer_call list \<Rightarrow> panic option \<Rightarrow> ResponseWriter \<Rightarrow> panic option" where
  "recovered_from calls own w = (case fst (run_calls server_call calls w) of Some p \<Rightarrow> Some p | None \<Rightarrow> own)"

lemma requestLogger_spec:
  assumes out: "hnd r s = Some out" and plain: "list_all plain_call (out_calls out)" and new: "rw_sent w = None"
    and serve: "reference_serve (out_calls out) (out_panic out) w = (panic, w')"
    and st: "st = (if panic = None then the_status (mw_ctx_end env) w' else 0)"
  shows "\<exists>log. requestLogger env rid hnd r s w = Some \<lparr>sv_writer = w',
    sv_events = out_events out @ panic_log (recovered_from (out_calls out) (out_panic out) w) @ observed_requests env r st @
      [LogRequest log rid (rq_method r) (routeName r) st (clientIP r)
        (truncateString (header_get (rq_header r) ''User-Agent'') maxUserAgentLogLen)],
    sv_panic = panic, sv_state = out_state out\<rparr>"
proof -
  obtain q rec where run: "run_calls recorder_call (out_calls out) (new_recorder w) = (q, rec)" by fastforce
  have step: "in_step (new_recorder w)" using new by simp
  note tr = api_recorder.run_transparent[OF step plain run]
  define recovered where "recovered = (case q of Some p \<Rightarrow> Some p | None \<Rightarrow> out_panic out)"
  have srv: "run_calls server_call (out_calls out) w = (q, sr_w rec)" using tr by (simp add: new_recorder_def)
  then have rec_from: "recovered_from (out_calls out) (out_panic out) w = recovered"
    by (simp add: recovered_from_def recovered_def)
  have h: "run_handler (out_calls out) (out_panic out) (new_recorder w) = (recovered, rec)"
    using run by (simp add: run_handler_def recovered_def split: option.splits)
  obtain panic1 rec1 events where fin: "finish_request env rid r recovered rec = (panic1, rec1, events)" by (metis prod_cases3)
  have status0: "sr_status rec = 200" if "\<not> sr_wroteHeader rec" using tr that by (simp add: new_recorder_def)
  note fw = finish_request_writer[OF _ status0 fin]
  have wrote: "sr_wroteHeader rec \<longleftrightarrow> rw_sent (sr_w rec) \<noteq> None" using tr by (auto simp: in_step_def split: option.splits)
  have ref: "reference_end recovered (sr_w rec) = (panic, w')"
    using serve srv by (simp add: reference_serve_def recovered_def split: option.splits)
  have ends: "panic1 = panic" "sr_w rec1 = w'"
    using fw tr ref wrote
    by (auto simp: reference_end_def panic_calls_def errorCodeInternal_def split: option.splits panic.splits if_splits)
  have "sr_status rec1 = st" using fw(3) tr ends st by simp
  moreover have "\<exists>log. events = panic_log recovered @ observed_requests env r (sr_status rec1) @
      [LogRequest log rid (rq_method r) (routeName r) (sr_status rec1) (clientIP r)
        (truncateString (header_get (rq_header r) ''User-Agent'') maxUserAgentLogLen)]"
    using fin
    by (auto simp: finish_request_def Let_def concat_observers observed_requests_def handleRecoveredPanic_def panic_log_def
        split: option.splits panic.splits if_splits prod.splits)
  ultimately show ?thesis
    using out h fin ends rec_from by (auto simp: requestLogger_def)
qed

lemma withMiddleware_spec:
  assumes out: "handler r s = Some out" and plain: "list_all plain_call (out_calls out)" and new: "rw_sent w = None"
    and serve: "reference_serve (middleware_headers (chooseRequestID env r) @ out_calls out) (out_panic out) w = (panic, w')"
    and st: "st = (if panic = None then the_status (mw_ctx_end env) w' else 0)"
  shows "\<exists>log. withMiddleware env handler r s w = Some \<lparr>sv_writer = w',
    sv_events = out_events out @
      panic_log (recovered_from (middleware_headers (chooseRequestID env r) @ out_calls out) (out_panic out) w) @
      observed_requests env r st @
      [LogRequest log (chooseRequestID env r) (rq_method r) (routeName r) st (clientIP r)
        (truncateString (header_get (rq_header r) ''User-Agent'') maxUserAgentLogLen)],
    sv_panic = panic, sv_state = out_state out\<rparr>"
proof -
  let ?w = "snd (server_call (SetHeader ''X-Request-Id'' (chooseRequestID env r)) w)"
  let ?out = "out\<lparr>out_calls := SetHeader ''X-Content-Type-Options'' ''nosniff'' # SetHeader ''Referrer-Policy'' ''no-referrer'' # out_calls out\<rparr>"
  have o: "secureHeaders handler r s = Some ?out" using out by (simp add: secureHeaders_def)
  have p: "list_all plain_call (out_calls ?out)" using plain by (simp add: plain_call_def)
  have n: "rw_sent ?w = None" using new by simp
  have v: "reference_serve (out_calls ?out) (out_panic ?out) ?w = (panic, w')"
    using serve by (simp add: reference_serve_def middleware_headers_def)
  have rf: "recovered_from (out_calls ?out) (out_panic ?out) ?w =
      recovered_from (middleware_headers (chooseRequestID env r) @ out_calls out) (out_panic out) w"
    by (simp add: recovered_from_def middleware_headers_def)
  show ?thesis
    using requestLogger_spec[where hnd = "secureHeaders handler" and out = ?out and rid = "chooseRequestID env r", OF o p n v st] rf
    by (simp add: withMiddleware_def requestID_middleware_def Let_def)
qed

text \<open>When the handler has an outcome, so has the request.\<close>

lemma withMiddleware_SomeD:
  assumes "withMiddleware env handler r s w = Some sv"
  obtains out where "handler r s = Some out"
  using assms by (auto simp: withMiddleware_def requestID_middleware_def requestLogger_def secureHeaders_def Let_def split: option.splits)

section \<open>Request ids\<close>

definition request_id_ok :: "go_string \<Rightarrow> bool" where
  "request_id_ok rid \<longleftrightarrow> rid \<noteq> [] \<and> length rid \<le> 128 \<and> list_all isAllowedRequestIDRune (runes rid)"

lemma sanitizeRequestID_ok: "sanitizeRequestID v = [] \<or> request_id_ok (sanitizeRequestID v)"
proof -
  have "\<not> list_ex (\<lambda>r. \<not> isAllowedRequestIDRune r) rs \<longleftrightarrow> list_all isAllowedRequestIDRune rs" for rs
    by (simp add: list_ex_iff list_all_iff)
  then show ?thesis by (auto simp: sanitizeRequestID_def request_id_ok_def maxRequestIDLen_def Let_def)
qed

lemma sanitizeRequestID_id: "request_id_ok rid \<Longrightarrow> trim_space rid = rid \<Longrightarrow> sanitizeRequestID rid = rid"
  by (auto simp: sanitizeRequestID_def request_id_ok_def maxRequestIDLen_def Let_def list_ex_iff list_all_iff)

lemma runes_ascii: "\<forall>c \<in> set s. byte_of c < 128 \<Longrightarrow> runes s = map byte_of s"
  by (induction s) (auto simp: runes_ascii_Cons)

lemma hex_chars_allowed: "c \<in> set hex_chars \<Longrightarrow> isAllowedRequestIDRune (byte_of c) \<and> byte_of c < 128"
  by (auto simp: hex_chars_def isAllowedRequestIDRune_def)

lemma newRequestID_ok:
  assumes "length bytes = 16"
  shows "request_id_ok (newRequestID bytes)"
proof -
  have chars: "\<forall>c \<in> set (hex_encode bytes). isAllowedRequestIDRune (byte_of c) \<and> byte_of c < 128"
    using hex_encode_chars[of bytes] hex_chars_allowed by blast
  have "length (hex_encode bytes) = 32" using assms by simp
  then have "hex_encode bytes \<noteq> []" by (metis list.size(3) zero_neq_numeral)
  with chars assms show ?thesis
    by (auto simp: request_id_ok_def newRequestID_def runes_ascii list_all_iff)
qed

lemma chooseRequestID_ok: "length (mw_random env) = 16 \<Longrightarrow> request_id_ok (chooseRequestID env r)"
  using sanitizeRequestID_ok[of "header_get (rq_header r) ''X-Request-Id''"] newRequestID_ok
  by (auto simp: chooseRequestID_def Let_def)

section \<open>Handlers that leave the middleware's headers alone\<close>

text \<open>The headers with the value that a handler may set itself.\<close>

definition protected_headers :: "(go_string \<times> go_string list) list" where
  "protected_headers = [(''X-Request-Id'', []), (''X-Content-Type-Options'', [''nosniff'']), (''Referrer-Policy'', [''no-referrer''])]"

definition polite_calls :: "writer_call list \<Rightarrow> bool" where
  "polite_calls calls \<longleftrightarrow> list_all plain_call calls \<and> list_all (\<lambda>(k, v). list_all (spares k v) calls) protected_headers"

definition polite :: "('s, 'e) handler \<Rightarrow> bool" where
  "polite h \<longleftrightarrow> (\<forall>r s out. h r s = Some out \<longrightarrow> polite_calls (out_calls out))"

lemma polite_response:
  assumes "\<not> informational st" "set (map fst hs) \<inter> set (map fst protected_headers) = {}"
  shows "polite_calls (json_response hs st body)"
  using assms by (auto simp: polite_calls_def protected_headers_def intro!: plain_response spares_response)

lemma final_statuses [simp]:
  "\<not> informational 201" "\<not> informational 400" "\<not> informational 404" "\<not> informational 405" "\<not> informational 409"
  "\<not> informational 413" "\<not> informational 415" "\<not> informational 500" "\<not> informational 503"
  by (simp_all add: informational_def)

lemma polite_health [simp]: "polite LiveHandler" "polite (ReadyHandler checks)" "polite notFound"
  by (auto simp: polite_def LiveHandler_def ReadyHandler_def run_checks notFound_def respond_def health_writeJSON_response
      health_writeMethodNotAllowed_response writeError_response Let_def protected_headers_def
      intro!: polite_response split: if_splits)

lemma polite_writes:
  "polite_calls (writeMethodNotAllowed [''POST''])" "polite_calls []"
  "\<not> informational st \<Longrightarrow> polite_calls (writeError st code msg)"
  "good_result res \<Longrightarrow> polite_calls (write_result res)"
  by (auto simp: writeMethodNotAllowed_response writeError_response write_result_response good_result_def protected_headers_def
      polite_calls_def[of "[]"] intro!: polite_response)

lemma polite_check_request: "check_request r = Inl calls \<Longrightarrow> polite_calls calls"
  by (auto simp: check_request_def decodeCreateRewardClaimRequest_def writeDecodeError_def polite_writes
      split: if_splits sum.splits option.splits)

lemma polite_claim_error: "polite_calls (writeCreateClaimError e)"
  by (auto simp: writeCreateClaimError_def polite_writes split: option.splits)

lemma polite_claims: "polite (rewardClaimsHandler (claim_creator tx) b ctx)"
proof -
  have "polite_calls (out_calls out)" if run: "rewardClaimsHandler (claim_creator tx) b ctx r s = Some out" for r s out
  proof (cases "check_request r")
    case (Inl calls)
    with run polite_check_request[OF Inl] show ?thesis by (auto simp: handler_defs)
  next
    case (Inr cmd)
    with run obtain res s' where res: "claim_creator tx cmd s = Some (res, s')"
      by (auto simp: rewardClaimsHandler_def split: option.splits)
    have "good_result x" if "res = Inr x" for x
      using res that by (auto simp: claim_creator_def split: prod.splits option.splits intro: CreateClaim_results)
    with Inr res run show ?thesis
      by (auto simp: handler_defs Let_def polite_claim_error polite_writes split: sum.splits if_splits)
  qed
  then show ?thesis by (auto simp: polite_def)
qed

lemma politeD: "polite h \<Longrightarrow> h r s = Some out \<Longrightarrow> polite_calls (out_calls out)"
  by (auto simp: polite_def)

lemma polite_router:
  assumes "polite redirect" "\<And>h. so_MetricsHandler obs = Some h \<Longrightarrow> polite h"
  shows "polite (router_mux (claim_creator tx) obs checks redirect ctx)"
proof -
  have "polite_calls (out_calls out)" if "router_mux (claim_creator tx) obs checks redirect ctx r s = Some out" for r s out
    using that unfolding router_mux_def
    by (auto split: mux_target.splits if_splits option.splits
        dest: politeD[OF polite_health(1)] politeD[OF polite_health(2)] politeD[OF polite_health(3)] politeD[OF polite_claims]
          politeD[OF assms(1)] politeD[OF assms(2)])
  then show ?thesis unfolding polite_def by blast
qed

text \<open>The three headers are on every response, whatever the handler does.\<close>

lemma reference_end_writer:
  assumes "reference_end recovered w = (p, w')"
  obtains cs where "w' = snd (run_calls server_call cs w)" "polite_calls cs"
proof -
  let ?cs = "DelHeader ''Content-Length'' # writeError 500 ''internal_error'' ''Internal server error''"
  have err: "polite_calls ?cs"
    by (auto simp: polite_calls_def protected_headers_def plain_call_def spares_def writeError_def writeJSON_def)
  have "w' = snd (run_calls server_call [] w) \<or> w' = snd (run_calls server_call ?cs w)"
    using assms by (auto simp: reference_end_def split: option.splits panic.splits if_splits)
  with err polite_writes(2) that show thesis by blast
qed

lemma reference_serve_header:
  assumes "(k, u) \<in> set protected_headers" "u = [] \<or> u = v" "header_is k v w" "polite_calls calls"
    "reference_serve calls own w = (p, w')"
  shows "header_is k v w'"
proof -
  obtain q w1 where run: "run_calls server_call calls w = (q, w1)" by fastforce
  have spare: "list_all (spares k v) cs" if "polite_calls cs" for cs
  proof -
    from that assms(1) have "list_all (spares k u) cs" by (auto simp: polite_calls_def list_all_iff)
    with assms(2) show ?thesis by (auto simp: list_all_iff intro: spares_never)
  qed
  from header_is_run[OF assms(3) spare[OF assms(4)]] run have w1: "header_is k v w1" by simp
  from assms(5) run obtain rc where "reference_end rc w1 = (p, w')" by (auto simp: reference_serve_def split: option.splits)
  then obtain cs where "w' = snd (run_calls server_call cs w1)" "polite_calls cs" by (rule reference_end_writer)
  with header_is_run[OF w1 spare] show ?thesis by simp
qed

lemma middleware_headers_run:
  "reference_serve (middleware_headers rid @ calls) own w =
     reference_serve calls own (w\<lparr>rw_header := (rw_header w)(''X-Request-Id'' := [rid],
        ''X-Content-Type-Options'' := [''nosniff''], ''Referrer-Policy'' := [''no-referrer''])\<rparr>)"
  by (simp add: reference_serve_def middleware_headers_def)

lemma withMiddleware_headers:
  assumes "polite handler" "rw_sent w = None" "withMiddleware env handler r s w = Some sv"
  shows "header_is ''X-Request-Id'' [chooseRequestID env r] (sv_writer sv)"
    and "header_is ''X-Content-Type-Options'' [''nosniff''] (sv_writer sv)"
    and "header_is ''Referrer-Policy'' [''no-referrer''] (sv_writer sv)"
proof -
  from assms(3) obtain out where out: "handler r s = Some out" by (rule withMiddleware_SomeD)
  with assms(1) have polite: "polite_calls (out_calls out)" by (auto simp: polite_def)
  let ?w = "w\<lparr>rw_header := (rw_header w)(''X-Request-Id'' := [chooseRequestID env r],
        ''X-Content-Type-Options'' := [''nosniff''], ''Referrer-Policy'' := [''no-referrer''])\<rparr>"
  obtain p w' where serve: "reference_serve (middleware_headers (chooseRequestID env r) @ out_calls out) (out_panic out) w = (p, w')"
    by fastforce
  from withMiddleware_spec[where handler = handler and r = r and s = s and w = w and out = out and env = env, OF out _ assms(2) serve refl] polite assms(3) have "sv_writer sv = w'"
    by (auto simp: polite_calls_def)
  with reference_serve_header[OF _ _ _ polite serve[unfolded middleware_headers_run]] assms(2)
  show "header_is ''X-Request-Id'' [chooseRequestID env r] (sv_writer sv)"
    "header_is ''X-Content-Type-Options'' [''nosniff''] (sv_writer sv)"
    "header_is ''Referrer-Policy'' [''no-referrer''] (sv_writer sv)"
    by (auto simp: protected_headers_def header_is_def[of _ _ ?w])
qed

section \<open>Routing\<close>

lemma claims_route:
  assumes "rq_escaped_path r = routeRewardClaims"
  shows "mux_target_of (router_patterns b) r = MuxPattern routeRewardClaims"
proof -
  have "clean_path routeRewardClaims = routeRewardClaims"
    "mux_match (router_patterns True) routeRewardClaims = MuxPattern routeRewardClaims"
    "mux_match (router_patterns False) routeRewardClaims = MuxPattern routeRewardClaims"
    by code_simp+
  with assms show ?thesis by (cases b) (simp_all add: mux_target_of_def)
qed

section \<open>Properties\<close>

definition sample_mw_env :: mw_env where
  "sample_mw_env = \<lparr>mw_random = replicate 16 0, mw_ctx_end = Live, mw_observers = [True]\<rparr>"

definition panicking :: "writer_call list \<Rightarrow> (unit, http_event) handler" where
  "panicking calls r s = Some \<lparr>out_calls = calls, out_events = [], out_panic = Some (OtherPanic ''boom''), out_state = s\<rparr>"

text \<open>Informational statuses are left out of C24 and C25: the recorder takes the first status it sees for the final one, so
  that after a \<^verbatim>\<open>WriteHeader\<close> with such a status it does not pass the handler's real status on, and the server
  sends its default 200. No handler of the repository writes one.\<close>

lemma recorder_loses_status:
  assumes "rw_sent w = None" "informational st1" "\<not> invalid_status st2" "\<not> informational st2"
  shows "rw_sent (snd (run_calls server_call [WriteHeader st1, WriteHeader st2, WriteBody body] w)) = Some (st2, rw_header w)"
    and "rw_sent (sr_w (snd (run_calls recorder_call [WriteHeader st1, WriteHeader st2, WriteBody body] (new_recorder w)))) =
      Some (200, rw_header w)"
proof -
  have "\<not> invalid_status st1" using assms(2) by (auto simp: informational_def invalid_status_def)
  with assms show "rw_sent (snd (run_calls server_call [WriteHeader st1, WriteHeader st2, WriteBody body] w)) = Some (st2, rw_header w)"
    "rw_sent (sr_w (snd (run_calls recorder_call [WriteHeader st1, WriteHeader st2, WriteBody body] (new_recorder w)))) = Some (200, rw_header w)"
    by (simp_all add: server_write_header_def recorder_WriteHeader_def recorder_Write_def new_recorder_def Let_def)
qed

text \<open>C24. The middleware is faithful to a handler that writes no informational (1xx) status: on a fresh connection the
  client gets exactly what the handler's calls would have given on the server's own writer after the three middleware headers; a
  panic before any response becomes the error response, any other is passed to the server. The state
  is the handler's, and every observer and the log get the status that was really sent, or 0 when the
  response was aborted or the client had gone before anything was sent.\<close>

theorem middleware_faithful:
  assumes "handler r s = Some out" "list_all plain_call (out_calls out)" "rw_sent w = None"
  shows "\<exists>sv log st. withMiddleware env handler r s w = Some sv \<and> sv_state sv = out_state out \<and>
    (sv_panic sv, sv_writer sv) =
      reference_serve (middleware_headers (chooseRequestID env r) @ out_calls out) (out_panic out) w \<and>
    st = (if sv_panic sv = None then the_status (mw_ctx_end env) (sv_writer sv) else 0) \<and>
    (\<exists>panics. sv_events sv = out_events out @ panics @ observed_requests env r st @
      [LogRequest log (chooseRequestID env r) (rq_method r) (routeName r) st (clientIP r)
        (truncateString (header_get (rq_header r) ''User-Agent'') maxUserAgentLogLen)])"
proof -
  obtain p w' where serve: "reference_serve (middleware_headers (chooseRequestID env r) @ out_calls out) (out_panic out) w = (p, w')"
    by fastforce
  from withMiddleware_spec[where handler = handler and env = env, OF assms serve refl] serve show ?thesis by auto
qed

definition live_probe :: request where
  "live_probe = probe_request ''/livez''"

definition live_answer :: "writer_call list" where
  "live_answer = health_writeJSON 200 (JObject [(''status'', JString ''ok'')])"

theorem middleware_faithful_witness:
  "\<exists>sv log st. withMiddleware sample_mw_env LiveHandler live_probe () empty_writer = Some sv \<and>
    (sv_panic sv, sv_writer sv) = reference_serve (middleware_headers (chooseRequestID sample_mw_env live_probe) @ live_answer)
      None empty_writer \<and>
    (\<exists>panics. sv_events sv = panics @ observed_requests sample_mw_env live_probe st @
      [LogRequest log (chooseRequestID sample_mw_env live_probe) (rq_method live_probe) (routeName live_probe) st
        (clientIP live_probe) (truncateString (header_get (rq_header live_probe) ''User-Agent'') maxUserAgentLogLen)])"
proof -
  let ?out = "\<lparr>out_calls = live_answer, out_events = [], out_panic = None, out_state = ()\<rparr> :: (unit, http_event) outcome"
  have out: "LiveHandler live_probe () = Some ?out"
    by (simp add: LiveHandler_def live_probe_def probe_request_def respond_def statusOK_def live_answer_def)
  have plain: "list_all plain_call (out_calls ?out)"
    by (simp add: live_answer_def health_writeJSON_response plain_response)
  have "rw_sent empty_writer = None" by (simp add: empty_writer_def)
  from middleware_faithful[where handler = LiveHandler and env = sample_mw_env, OF out plain this] show ?thesis by auto
qed

text \<open>C25. A panic is contained, whether the handler panics itself or a call on its writer does, for a handler that
  writes no informational (1xx) status. \<^verbatim>\<open>http.ErrAbortHandler\<close>, at any moment, aborts the connection: nothing is added to what was
  sent, nothing is logged as a panic, and the observers see 0. Any other panic is logged once; before any response the client gets
  the JSON error 500, without a stale \<open>Content-Length\<close>, and the observers see 500; after a response has been started the
  connection is aborted as well, with nothing added to what was sent, and the observers see 0.\<close>

theorem middleware_panics:
  assumes "handler r s = Some out" "list_all plain_call (out_calls out)" "rw_sent w = None"
    and run: "run_calls server_call (middleware_headers (chooseRequestID env r) @ out_calls out) w = (q, v)"
    and pn: "(case q of Some x \<Rightarrow> Some x | None \<Rightarrow> out_panic out) = Some pn"
  shows "\<exists>sv log st. withMiddleware env handler r s w = Some sv \<and>
    sv_events sv = out_events out @ (if pn = ErrAbortHandler then [] else [LogPanic]) @ observed_requests env r st @ [log] \<and>
    (if pn \<noteq> ErrAbortHandler \<and> rw_sent v = None
     then st = 500 \<and> sv_panic sv = None \<and>
       rw_sent (sv_writer sv) = Some (500, (rw_header v)(''Content-Length'' := [], ''Content-Type'' := [''application/json''])) \<and>
       rw_body (sv_writer sv) = rw_body v @ json_encode (errorResponse ''internal_error'' ''Internal server error'')
     else st = 0 \<and> sv_panic sv = Some ErrAbortHandler \<and> sv_writer sv = v)"
proof -
  obtain p w' where serve: "reference_serve (middleware_headers (chooseRequestID env r) @ out_calls out) (out_panic out) w = (p, w')"
    by fastforce
  have "recovered_from (middleware_headers (chooseRequestID env r) @ out_calls out) (out_panic out) w = Some pn"
    using pn run by (simp add: recovered_from_def)
  then have log: "panic_log (recovered_from (middleware_headers (chooseRequestID env r) @ out_calls out) (out_panic out) w) =
      (if pn = ErrAbortHandler then [] else [LogPanic])"
    by (cases pn) (simp_all add: panic_log_def)
  have ends: "reference_end (Some pn) v = (p, w')"
    using serve run pn by (auto simp: reference_serve_def split: option.splits)
  have answer: "run_calls server_call (DelHeader ''Content-Length'' # writeError 500 ''internal_error'' ''Internal server error'') v =
      (None, v\<lparr>rw_header := (rw_header v)(''Content-Length'' := [], ''Content-Type'' := [''application/json'']),
        rw_sent := Some (500, (rw_header v)(''Content-Length'' := [], ''Content-Type'' := [''application/json''])),
        rw_body := rw_body v @ json_encode (errorResponse ''internal_error'' ''Internal server error'')\<rparr>)" if "rw_sent v = None"
    using that by (simp add: writeError_response run_json_response final_status_def invalid_status_def informational_def set_headers_def)
  note spec = withMiddleware_spec[where handler = handler and env = env, OF assms(1-3) serve refl, unfolded log]
  show ?thesis
  proof (cases "pn \<noteq> ErrAbortHandler \<and> rw_sent v = None")
    case True
    with ends answer have "p = None" "w' = snd (run_calls server_call (DelHeader ''Content-Length'' #
        writeError 500 ''internal_error'' ''Internal server error'') v)" by (cases pn; auto simp: reference_end_def)+
    with spec True answer show ?thesis by (auto simp: the_status_def)
  next
    case False
    with ends have "p = Some ErrAbortHandler" "w' = v" by (cases pn; auto simp: reference_end_def)+
    with spec False show ?thesis by auto
  qed
qed

definition headed_writer :: ResponseWriter where
  "headed_writer = snd (run_calls server_call (middleware_headers (chooseRequestID sample_mw_env live_probe)) empty_writer)"

theorem middleware_panics_witness:
  "\<exists>sv log. withMiddleware sample_mw_env (panicking []) live_probe () empty_writer = Some sv \<and>
    sv_events sv = [LogPanic] @ observed_requests sample_mw_env live_probe 500 @ [log] \<and> sv_panic sv = None \<and>
    rw_sent (sv_writer sv) = Some (500, (rw_header headed_writer)(''Content-Length'' := [], ''Content-Type'' := [''application/json''])) \<and>
    rw_body (sv_writer sv) = json_encode (errorResponse ''internal_error'' ''Internal server error'')"
proof -
  let ?out = "\<lparr>out_calls = [], out_events = [], out_panic = Some (OtherPanic ''boom''), out_state = ()\<rparr> :: (unit, http_event) outcome"
  have "panicking [] live_probe () = Some ?out" by (simp add: panicking_def)
  moreover have "run_calls server_call (middleware_headers (chooseRequestID sample_mw_env live_probe) @ out_calls ?out) empty_writer = (None, headed_writer)"
    "rw_sent headed_writer = None" "rw_body headed_writer = []" "rw_sent empty_writer = None"
    by (simp_all add: headed_writer_def middleware_headers_def empty_writer_def)
  ultimately show ?thesis using middleware_panics[where handler = "panicking []" and r = live_probe and s = "()" and env = sample_mw_env
        and out = ?out and w = empty_writer and v = headed_writer and q = None and pn = "OtherPanic ''boom''"] by auto
qed

text \<open>C26. Every response of the API carries the hardening headers: whatever route was asked for and
  whatever the handler did, a panic included, \<open>nosniff\<close>, \<open>no-referrer\<close> and one request id are
  in the headers that were sent; the id is non-empty, at most 128 bytes of harmless characters, and it is the
  client's own when that one was fine. The answer to an unclean path and the metrics handler come from
  outside; they leave these three headers alone.\<close>

theorem responses_hardened:
  assumes "polite redirect" "\<And>h. so_MetricsHandler obs = Some h \<Longrightarrow> polite h" "length (mw_random env) = 16"
    "newRouter (claim_creator tx) obs checks redirect ctx env r s empty_writer = Some sv"
  shows "\<exists>rid. request_id_ok rid \<and> header_is ''X-Request-Id'' [rid] (sv_writer sv) \<and>
    header_is ''X-Content-Type-Options'' [''nosniff''] (sv_writer sv) \<and>
    header_is ''Referrer-Policy'' [''no-referrer''] (sv_writer sv) \<and>
    (request_id_ok (trim_space (header_get (rq_header r) ''X-Request-Id'')) \<longrightarrow>
      rid = trim_space (header_get (rq_header r) ''X-Request-Id''))"
proof -
  let ?env = "env\<lparr>mw_observers := [so_RequestObserver obs]\<rparr>"
  have run: "withMiddleware ?env (router_mux (claim_creator tx) obs checks redirect ctx) r s empty_writer = Some sv"
    using assms(4) by (simp add: newRouter_def)
  have "rw_sent empty_writer = None" by (simp add: empty_writer_def)
  note heads = withMiddleware_headers[OF polite_router[OF assms(1,2)] this run]
  have "request_id_ok (chooseRequestID ?env r)" using assms(3) by (simp add: chooseRequestID_ok)
  moreover have "chooseRequestID ?env r = trim_space (header_get (rq_header r) ''X-Request-Id'')"
    if "request_id_ok (trim_space (header_get (rq_header r) ''X-Request-Id''))"
    using that
    by (auto simp: chooseRequestID_def sanitizeRequestID_def request_id_ok_def maxRequestIDLen_def Let_def list_ex_iff list_all_iff)
  ultimately show ?thesis using heads by blast
qed

text \<open>A redirect as \<^verbatim>\<open>http.Redirect\<close> writes it, and a server without metrics.\<close>

definition sample_redirect :: "(tick list \<times> db, http_event) handler" where
  "sample_redirect r s = respond [SetHeader ''Content-Type'' ''text/html; charset=utf-8'', SetHeader ''Location'' ''/livez'',
     WriteHeader 301, WriteBody []] [] s"

definition sample_observability :: "(tick list \<times> db) ServerObservability" where
  "sample_observability = \<lparr>so_MetricsHandler = None, so_RequestObserver = True, so_RewardClaimObserver = True\<rparr>"

lemma polite_redirect: "polite sample_redirect"
  by (auto simp: polite_def polite_calls_def sample_redirect_def respond_def protected_headers_def plain_call_def spares_def
      informational_def)

lemma live_served:
  "\<exists>sv. newRouter (claim_creator tx) sample_observability [] sample_redirect Live sample_mw_env live_probe s empty_writer = Some sv"
proof -
  have "mux_target_of (router_patterns False) live_probe = MuxPattern routeLivez" by code_simp
  then show ?thesis
    by (auto simp: newRouter_def withMiddleware_def requestID_middleware_def requestLogger_def secureHeaders_def router_mux_def
        sample_observability_def LiveHandler_def respond_def Let_def split: prod.splits)
qed

theorem responses_hardened_witness:
  "\<exists>sv rid. newRouter (claim_creator (sample_tx 1)) sample_observability [] sample_redirect Live sample_mw_env live_probe ([], empty_db)
      empty_writer = Some sv \<and>
    request_id_ok rid \<and> header_is ''X-Request-Id'' [rid] (sv_writer sv) \<and>
    header_is ''X-Content-Type-Options'' [''nosniff''] (sv_writer sv) \<and>
    header_is ''Referrer-Policy'' [''no-referrer''] (sv_writer sv)"
proof -
  obtain sv where sv: "newRouter (claim_creator (sample_tx 1)) sample_observability [] sample_redirect Live sample_mw_env live_probe
      ([], empty_db) empty_writer = Some sv"
    using live_served by blast
  have "length (mw_random sample_mw_env) = 16" by (simp add: sample_mw_env_def)
  from responses_hardened[OF polite_redirect _ this sv] sv show ?thesis by (auto simp: sample_observability_def)
qed

text \<open>The calls of the claim handler are one complete response, or none.\<close>

definition claim_statuses :: "int set" where
  "claim_statuses = {201, 400, 405, 409, 413, 415, 500, 503}"

lemma claim_statuses_final: "st \<in> claim_statuses \<Longrightarrow> final_status st"
  by (auto simp: claim_statuses_def final_status_def invalid_status_def informational_def)

lemma claims_calls_form:
  assumes "within_context ctx (tks, d)" "rewardClaimsHandler (claim_creator tx) b ctx r (tks, d) = Some out"
  shows "(out_calls out = [] \<and> ctx \<noteq> Live) \<or> (\<exists>hs st body. out_calls out = json_response hs st body \<and> st \<in> claim_statuses)"
proof -
  have documented: "st \<in> claim_statuses" if "documented_error e st code" for e st code
    using that by (auto simp: documented_error_def claim_statuses_def)
  have refused: "fst x \<in> claim_statuses" if "x \<in> set request_errors" for x
    using that by (auto simp: request_errors_def claim_statuses_def)
  have good: "res_StatusCode res \<in> claim_statuses" if "good_result res" for res
    using that by (auto simp: good_result_def claim_statuses_def)
  from api.handler_outcome[OF assms] show ?thesis
    unfolding answered_from_def error_answer_def write_result_response using documented refused good by blast
qed

text \<open>C23. The whole path of a claim request: what the claim handler decides, on the database as it is, is
  what the client gets from the server. The request is routed to it, the status and the body that reach the client are the
  handler's, the database is the one it left, nothing panics, and the request observer counts that
  status under the route. Without a response the request's own context had ended.\<close>

theorem api_serves_claims:
  assumes "rq_path r = ''/v1/reward-claims''" "rq_escaped_path r = ''/v1/reward-claims''"
    "within_context ctx (tks, d)" "mw_ctx_end env = ctx"
    "rewardClaimsHandler (claim_creator tx) (so_RewardClaimObserver obs) ctx r (tks, d) = Some out" "so_RequestObserver obs"
  shows "\<exists>sv st. newRouter (claim_creator tx) obs checks redirect ctx env r (tks, d) empty_writer = Some sv \<and>
    sv_panic sv = None \<and> sv_state sv = out_state out \<and>
    ObserveRequest ''/v1/reward-claims'' (rq_method r) st \<in> set (sv_events sv) \<and>
    ((out_calls out = [] \<and> ctx \<noteq> Live \<and> rw_sent (sv_writer sv) = None \<and> st = 0) \<or>
     (\<exists>hs body h. out_calls out = json_response hs st body \<and> st \<in> claim_statuses \<and>
        rw_sent (sv_writer sv) = Some (st, h) \<and> rw_body (sv_writer sv) = body))"
proof -
  let ?env = "env\<lparr>mw_observers := [so_RequestObserver obs]\<rparr>"
  let ?mux = "router_mux (claim_creator tx) obs checks redirect ctx"
  have mux: "?mux r (tks, d) = Some out"
    using claims_route[of r] assms(2,5) by (simp add: router_mux_def routes)
  have own: "out_panic out = None" using api.handler_outcome[OF assms(3,5)] by blast
  have plain: "list_all plain_call (out_calls out)"
    using politeD[OF polite_claims assms(5)] by (simp add: polite_calls_def)
  obtain p w' where serve: "reference_serve (middleware_headers (chooseRequestID ?env r) @ out_calls out) (out_panic out) empty_writer = (p, w')"
    by fastforce
  have "rw_sent empty_writer = None" by (simp add: empty_writer_def)
  note spec = withMiddleware_spec[where handler = ?mux and env = ?env, OF mux plain this serve refl]
  have route: "routeName r = ''/v1/reward-claims''" using assms(1) by (simp add: routeName_def routes)
  let ?v = "snd (run_calls server_call (middleware_headers (chooseRequestID ?env r)) empty_writer)"
  have v: "rw_sent ?v = None" "rw_body ?v = []" by (simp_all add: middleware_headers_def empty_writer_def)
  have ends: "(p, w') = reference_serve (out_calls out) None ?v"
    using serve own by (simp add: reference_serve_def middleware_headers_def)
  from claims_calls_form[OF assms(3,5)] show ?thesis
  proof (elim disjE exE conjE)
    assume calls: "out_calls out = []" "ctx \<noteq> Live"
    with ends v have "p = None" "rw_sent w' = None" by (simp_all add: reference_serve_def reference_end_def)
    with calls spec route assms(4,6) show ?thesis
      by (auto simp: newRouter_def observed_requests_def the_status_def)
  next
    fix hs st body
    assume calls: "out_calls out = json_response hs st body" "st \<in> claim_statuses"
    note sent = run_json_response[OF v(1) claim_statuses_final[OF calls(2)], of hs body]
    from ends v sent have "p = None" "\<exists>h. rw_sent w' = Some (st, h)" "rw_body w' = body"
      by (simp_all add: calls reference_serve_def reference_end_def)
    with calls spec route assms(4,6) show ?thesis
      by (auto simp: newRouter_def observed_requests_def the_status_def)
  qed
qed

theorem api_serves_claims_witness:
  "\<exists>sv st. newRouter (claim_creator (sample_tx 1)) sample_observability [] sample_redirect Live sample_mw_env sample_request
      (sample_ticks 6, empty_db) empty_writer = Some sv \<and>
    sv_panic sv = None \<and> sv_state sv = ([], sample_db) \<and>
    ObserveRequest ''/v1/reward-claims'' ''POST'' st \<in> set (sv_events sv) \<and>
    (\<exists>hs body h. write_result sample_result = json_response hs st body \<and> st \<in> claim_statuses \<and>
        rw_sent (sv_writer sv) = Some (st, h) \<and> rw_body (sv_writer sv) = body)"
proof -
  have within: "within_context Live (sample_ticks 6, empty_db)" by (simp add: within_context_def)
  have "rq_path sample_request = ''/v1/reward-claims''" "rq_escaped_path sample_request = ''/v1/reward-claims''"
    "rq_method sample_request = ''POST''" "mw_ctx_end sample_mw_env = Live" "so_RequestObserver sample_observability"
    "so_RewardClaimObserver sample_observability"
    by (simp_all add: sample_request_def sample_mw_env_def sample_observability_def)
  then show ?thesis
    using api_serves_claims[where obs = sample_observability and checks = "[]" and redirect = sample_redirect and ctx = Live
        and env = sample_mw_env and tx = "sample_tx 1" and r = sample_request and out = sample_outcome, OF _ _ within] http_sample_handler
    by (simp add: sample_outcome_def del: One_nat_def)
qed

end
