(* ===== verification/Observability.thy ===== *)
theory Observability
  imports Http_Serving Outbox_Worker "HOL-Library.Multiset"
begin

text \<open>
  \<^verbatim>\<open>internal/observability\<close>: the metrics of the two processes.

  Prometheus is not part of the sources. A metric vector is what its constructor is given; what an
  observer does is the list of calls it makes on its vectors: a counter that is incremented, or a
  histogram that gets a duration, under a list of label values. \<^verbatim>\<open>WithLabelValues\<close> panics when
  the values do not fit the label names or are not valid UTF-8, so that the calls have to be
  well-formed. A registry is a parameter: its \<^verbatim>\<open>Register\<close> takes a collector and may refuse it. A
  metrics value that may be \<^verbatim>\<open>nil\<close> is an option.
\<close>

section \<open>Registry\<close>

definition namespace :: go_string where "namespace = ''game_rewards''"

text \<open>The upper bounds of the buckets in milliseconds.\<close>

definition durationBuckets :: "int list" where
  "durationBuckets = [5, 10, 25, 50, 100, 250, 500, 1000, 2500, 5000, 10000]"

record metric_vec =
  mv_namespace :: go_string
  mv_subsystem :: go_string
  mv_name :: go_string
  mv_buckets :: "int list option"
  mv_labels :: "go_string list"

definition NewCounterVec :: "go_string \<Rightarrow> go_string \<Rightarrow> go_string list \<Rightarrow> metric_vec" where
  "NewCounterVec subsystem name labels =
     \<lparr>mv_namespace = namespace, mv_subsystem = subsystem, mv_name = name, mv_buckets = None, mv_labels = labels\<rparr>"

definition NewHistogramVec :: "go_string \<Rightarrow> go_string \<Rightarrow> go_string list \<Rightarrow> metric_vec" where
  "NewHistogramVec subsystem name labels =
     \<lparr>mv_namespace = namespace, mv_subsystem = subsystem, mv_name = name, mv_buckets = Some durationBuckets, mv_labels = labels\<rparr>"

datatype collector = GoCollector | ProcessCollector | VecCollector metric_vec

type_synonym 'r registerer = "collector \<Rightarrow> 'r \<Rightarrow> goerror option \<times> 'r"

datatype metric_call =
    CounterInc metric_vec "go_string list"
  | HistogramObserve metric_vec "go_string list" int

definition NewRegistry :: "'r registerer \<Rightarrow> 'r \<Rightarrow> (goerror + unit) \<times> 'r" where
  "NewRegistry Register reg0 =
     (case Register GoCollector reg0 of
        (Some err, reg) \<Rightarrow> (Inl (Wrapf ''register Go collector: %w'' err), reg)
      | (None, reg) \<Rightarrow>
          (case Register ProcessCollector reg of
             (Some err, reg') \<Rightarrow> (Inl (Wrapf ''register process collector: %w'' err), reg')
           | (None, reg') \<Rightarrow> (Inr (), reg')))"

fun register_all :: "'r registerer \<Rightarrow> collector list \<Rightarrow> 'r \<Rightarrow> goerror option \<times> 'r" where
  "register_all Register [] reg = (None, reg)"
| "register_all Register (c # cs) reg =
     (case Register c reg of
        (Some err, reg') \<Rightarrow> (Some err, reg')
      | (None, reg') \<Rightarrow> register_all Register cs reg')"

definition register :: "'r registerer option \<Rightarrow> metric_vec list \<Rightarrow> 'r \<Rightarrow> goerror option \<times> 'r" where
  "register registerer vecs reg =
     (case registerer of
        None \<Rightarrow> (Some (Plain ''metrics registerer must not be nil''), reg)
      | Some Register \<Rightarrow> register_all Register (map VecCollector vecs) reg)"

text \<open>\<^verbatim>\<open>http.Error\<close>, and the handler around the one of the library.\<close>

definition http_Error :: "go_string \<Rightarrow> int \<Rightarrow> writer_call list" where
  "http_Error msg code =
     [DelHeader ''Content-Length'', SetHeader ''Content-Type'' ''text/plain; charset=utf-8'',
      SetHeader ''X-Content-Type-Options'' ''nosniff'', WriteHeader code, WriteBody (msg @ [CHR 0x0A])]"

definition metrics_Handler :: "('s, 'e) handler \<Rightarrow> ('s, 'e) handler" where
  "metrics_Handler handler r s =
     (if rq_method r \<noteq> ''GET''
      then respond (SetHeader ''Allow'' ''GET'' # http_Error ''Method not allowed'' 405) [] s
      else handler r s)"

section \<open>HTTP metrics\<close>

record HTTPMetrics =
  hm_requests :: metric_vec
  hm_duration :: metric_vec

definition newHTTPMetrics :: HTTPMetrics where
  "newHTTPMetrics = \<lparr>
     hm_requests = NewCounterVec ''http'' ''requests_total'' [''route'', ''method'', ''status_code''],
     hm_duration = NewHistogramVec ''http'' ''request_duration_seconds'' [''route'', ''method'']\<rparr>"

definition NewHTTPMetrics :: "'r registerer option \<Rightarrow> 'r \<Rightarrow> (goerror + HTTPMetrics) \<times> 'r" where
  "NewHTTPMetrics registerer reg =
     (let metrics = newHTTPMetrics
      in case register registerer [hm_requests metrics, hm_duration metrics] reg of
           (Some err, reg') \<Rightarrow> (Inl err, reg')
         | (None, reg') \<Rightarrow> (Inr metrics, reg'))"

definition normalizeRoute :: "go_string \<Rightarrow> go_string" where
  "normalizeRoute route =
     (if route \<in> {''/livez'', ''/readyz'', ''/metrics'', ''/v1/reward-claims'', ''unknown''} then route else ''unknown'')"

definition normalizeMethod :: "go_string \<Rightarrow> go_string" where
  "normalizeMethod method = (if method \<in> {''GET'', ''POST''} then method else ''other'')"

definition HTTPMetrics_ObserveRequest ::
  "HTTPMetrics option \<Rightarrow> go_string \<Rightarrow> go_string \<Rightarrow> int \<Rightarrow> int \<Rightarrow> metric_call list" where
  "HTTPMetrics_ObserveRequest mo route0 method0 status duration =
     (case mo of
        None \<Rightarrow> []
      | Some m \<Rightarrow>
          (let route = normalizeRoute route0; method = normalizeMethod method0;
               statusCode = (if 100 \<le> status \<and> status \<le> 599 then show_int status else ''unknown'')
           in [CounterInc (hm_requests m) [route, method, statusCode],
               HistogramObserve (hm_duration m) [route, method] duration]))"

section \<open>Reward metrics\<close>

record RewardMetrics =
  rm_claims :: metric_vec
  rm_idempotency :: metric_vec

definition newRewardMetrics :: RewardMetrics where
  "newRewardMetrics = \<lparr>
     rm_claims = NewCounterVec ''reward_claim'' ''operations_total'' [''outcome''],
     rm_idempotency = NewCounterVec ''idempotency'' ''operations_total'' [''outcome'']\<rparr>"

definition NewRewardMetrics :: "'r registerer option \<Rightarrow> 'r \<Rightarrow> (goerror + RewardMetrics) \<times> 'r" where
  "NewRewardMetrics registerer reg =
     (let metrics = newRewardMetrics
      in case register registerer [rm_claims metrics, rm_idempotency metrics] reg of
           (Some err, reg') \<Rightarrow> (Inl err, reg')
         | (None, reg') \<Rightarrow> (Inr metrics, reg'))"

definition mapClaimSuccess :: "CreateClaimResult \<Rightarrow> go_string" where
  "mapClaimSuccess result =
     (if res_Replayed result
      then (if res_StatusCode result = 201 then ''replayed_created''
            else if res_StatusCode result = 409 then ''replayed_already_claimed''
            else ''internal_error'')
      else if res_StatusCode result = 201 then ''created''
      else if res_StatusCode result = 409 then ''already_claimed''
      else ''internal_error'')"

definition mapIdempotencySuccess :: "CreateClaimResult \<Rightarrow> go_string" where
  "mapIdempotencySuccess result = (if res_Replayed result then ''replayed'' else ''new'')"

definition RewardMetrics_ObserveRewardClaim ::
  "RewardMetrics option \<Rightarrow> goerror + CreateClaimResult \<Rightarrow> metric_call list" where
  "RewardMetrics_ObserveRewardClaim mo res =
     (case mo of
        None \<Rightarrow> []
      | Some m \<Rightarrow>
          (case res of
             Inr result \<Rightarrow>
               [CounterInc (rm_idempotency m) [mapIdempotencySuccess result],
                CounterInc (rm_claims m) [mapClaimSuccess result]]
           | Inl err \<Rightarrow>
               if errors_is err ErrIdempotencyKeyReused
               then [CounterInc (rm_claims m) [''idempotency_key_reused''], CounterInc (rm_idempotency m) [''key_reused'']]
               else if errors_is err Canceled \<or> errors_is err DeadlineExceeded
               then [CounterInc (rm_claims m) [''canceled''], CounterInc (rm_idempotency m) [''canceled'']]
               else if errors_is err RewardsErrUnavailable
               then [CounterInc (rm_claims m) [''unavailable''], CounterInc (rm_idempotency m) [''failed'']]
               else [CounterInc (rm_claims m) [''internal_error''], CounterInc (rm_idempotency m) [''failed'']]))"

section \<open>Worker metrics\<close>

record WorkerMetrics =
  wm_claims :: metric_vec
  wm_publishAttempts :: metric_vec
  wm_publishDuration :: metric_vec
  wm_published :: metric_vec
  wm_retries :: metric_vec
  wm_deadLetters :: metric_vec
  wm_leaseLosses :: metric_vec
  wm_operationErrors :: metric_vec

definition newWorkerMetrics :: WorkerMetrics where
  "newWorkerMetrics = \<lparr>
     wm_claims = NewCounterVec ''outbox'' ''claim_attempts_total'' [''outcome''],
     wm_publishAttempts = NewCounterVec ''outbox'' ''publish_attempts_total'' [''event_type'', ''outcome''],
     wm_publishDuration = NewHistogramVec ''outbox'' ''publish_duration_seconds'' [''event_type'', ''outcome''],
     wm_published = NewCounterVec ''outbox'' ''events_published_total'' [''event_type''],
     wm_retries = NewCounterVec ''outbox'' ''retries_scheduled_total'' [''event_type'', ''failure_reason''],
     wm_deadLetters = NewCounterVec ''outbox'' ''events_dead_lettered_total'' [''event_type'', ''failure_reason''],
     wm_leaseLosses = NewCounterVec ''outbox'' ''lease_losses_total'' [''event_type'', ''operation''],
     wm_operationErrors = NewCounterVec ''outbox'' ''operation_errors_total'' [''operation'']\<rparr>"

definition NewWorkerMetrics :: "'r registerer option \<Rightarrow> 'r \<Rightarrow> (goerror + WorkerMetrics) \<times> 'r" where
  "NewWorkerMetrics registerer reg =
     (let m = newWorkerMetrics
      in case register registerer
           [wm_claims m, wm_publishAttempts m, wm_publishDuration m, wm_published m, wm_retries m, wm_deadLetters m,
            wm_leaseLosses m, wm_operationErrors m] reg of
           (Some err, reg') \<Rightarrow> (Inl err, reg')
         | (None, reg') \<Rightarrow> (Inr m, reg'))"

text \<open>The strings of the claim outcomes; those of the other two types are \<open>outcome_string\<close> and
  \<open>operation_string\<close>.\<close>

primrec ClaimOutcome_string :: "ClaimOutcome \<Rightarrow> go_string" where
  "ClaimOutcome_string ClaimOutcomeClaimed = ''claimed''"
| "ClaimOutcome_string ClaimOutcomeEmpty = ''empty''"
| "ClaimOutcome_string ClaimOutcomeError = ''error''"

definition normalizeEventType :: "go_string \<Rightarrow> go_string" where
  "normalizeEventType eventType = (if eventType = ''RewardClaimed'' then ''reward_claimed'' else ''unknown'')"

definition normalizeClaimOutcome :: "go_string \<Rightarrow> go_string" where
  "normalizeClaimOutcome outcome =
     (if outcome \<in> set (map ClaimOutcome_string [ClaimOutcomeClaimed, ClaimOutcomeEmpty, ClaimOutcomeError])
      then outcome else ''error'')"

definition normalizePublishOutcome :: "go_string \<Rightarrow> go_string" where
  "normalizePublishOutcome outcome =
     (if outcome \<in> set (map outcome_string
        [PublishOutcomeSuccess, PublishOutcomeFailed, PublishOutcomeTimeout, PublishOutcomeCanceled])
      then outcome else ''failed'')"

definition normalizeFailureReason :: "go_string \<Rightarrow> go_string" where
  "normalizeFailureReason outcome =
     (if outcome \<in> set (map outcome_string [PublishOutcomeFailed, PublishOutcomeTimeout, PublishOutcomeCanceled])
      then outcome else ''unknown'')"

definition normalizeOperation :: "go_string \<Rightarrow> go_string" where
  "normalizeOperation oper =
     (if oper \<in> set (map operation_string
        [OperationClaim, OperationMarkPublished, OperationScheduleRetry, OperationMarkDeadLetter])
      then oper else ''unknown'')"

definition WorkerMetrics_ObserveClaim :: "WorkerMetrics option \<Rightarrow> go_string \<Rightarrow> metric_call list" where
  "WorkerMetrics_ObserveClaim mo outcome =
     (case mo of None \<Rightarrow> [] | Some m \<Rightarrow> [CounterInc (wm_claims m) [normalizeClaimOutcome outcome]])"

definition WorkerMetrics_ObservePublish :: "WorkerMetrics option \<Rightarrow> go_string \<Rightarrow> go_string \<Rightarrow> int \<Rightarrow> metric_call list" where
  "WorkerMetrics_ObservePublish mo eventType0 outcome duration =
     (case mo of
        None \<Rightarrow> []
      | Some m \<Rightarrow>
          (let eventType = normalizeEventType eventType0; publishOutcome = normalizePublishOutcome outcome
           in [CounterInc (wm_publishAttempts m) [eventType, publishOutcome],
               HistogramObserve (wm_publishDuration m) [eventType, publishOutcome] duration]))"

definition WorkerMetrics_ObservePublished :: "WorkerMetrics option \<Rightarrow> go_string \<Rightarrow> metric_call list" where
  "WorkerMetrics_ObservePublished mo eventType =
     (case mo of None \<Rightarrow> [] | Some m \<Rightarrow> [CounterInc (wm_published m) [normalizeEventType eventType]])"

definition WorkerMetrics_ObserveRetry :: "WorkerMetrics option \<Rightarrow> go_string \<Rightarrow> go_string \<Rightarrow> metric_call list" where
  "WorkerMetrics_ObserveRetry mo eventType outcome =
     (case mo of None \<Rightarrow> []
      | Some m \<Rightarrow> [CounterInc (wm_retries m) [normalizeEventType eventType, normalizeFailureReason outcome]])"

definition WorkerMetrics_ObserveDeadLetter :: "WorkerMetrics option \<Rightarrow> go_string \<Rightarrow> go_string \<Rightarrow> metric_call list" where
  "WorkerMetrics_ObserveDeadLetter mo eventType outcome =
     (case mo of None \<Rightarrow> []
      | Some m \<Rightarrow> [CounterInc (wm_deadLetters m) [normalizeEventType eventType, normalizeFailureReason outcome]])"

definition WorkerMetrics_ObserveLeaseLoss :: "WorkerMetrics option \<Rightarrow> go_string \<Rightarrow> go_string \<Rightarrow> metric_call list" where
  "WorkerMetrics_ObserveLeaseLoss mo eventType oper =
     (case mo of None \<Rightarrow> []
      | Some m \<Rightarrow> [CounterInc (wm_leaseLosses m) [normalizeEventType eventType, normalizeOperation oper]])"

definition WorkerMetrics_ObserveOperationError :: "WorkerMetrics option \<Rightarrow> go_string \<Rightarrow> metric_call list" where
  "WorkerMetrics_ObserveOperationError mo oper =
     (case mo of None \<Rightarrow> [] | Some m \<Rightarrow> [CounterInc (wm_operationErrors m) [normalizeOperation oper]])"

text \<open>The worker's observer: which method an observation calls.\<close>

fun observe :: "WorkerMetrics option \<Rightarrow> observation \<Rightarrow> metric_call list" where
  "observe mo (ObserveClaim oc) = WorkerMetrics_ObserveClaim mo (ClaimOutcome_string oc)"
| "observe mo (ObservePublish t oc d) = WorkerMetrics_ObservePublish mo t (outcome_string oc) d"
| "observe mo (ObservePublished t) = WorkerMetrics_ObservePublished mo t"
| "observe mo (ObserveRetry t oc) = WorkerMetrics_ObserveRetry mo t (outcome_string oc)"
| "observe mo (ObserveDeadLetter t oc) = WorkerMetrics_ObserveDeadLetter mo t (outcome_string oc)"
| "observe mo (ObserveLeaseLoss t oper) = WorkerMetrics_ObserveLeaseLoss mo t (operation_string oper)"
| "observe mo (ObserveOperationError oper) = WorkerMetrics_ObserveOperationError mo (operation_string oper)"

section \<open>Label values\<close>

text \<open>The values of the labels.\<close>

definition route_values :: "go_string list" where
  "route_values = [''/livez'', ''/readyz'', ''/metrics'', ''/v1/reward-claims'', ''unknown'']"

definition method_values :: "go_string list" where
  "method_values = [''GET'', ''POST'', ''other'']"

definition type_values :: "go_string list" where
  "type_values = [''reward_claimed'', ''unknown'']"

definition reason_values :: "go_string list" where
  "reason_values = [''failed'', ''timeout'', ''canceled'', ''unknown'']"

definition publish_values :: "go_string list" where
  "publish_values = [''success'', ''failed'', ''timeout'', ''canceled'']"

definition operation_values :: "go_string list" where
  "operation_values = [''claim'', ''mark_published'', ''schedule_retry'', ''mark_dead_letter'', ''unknown'']"

definition claim_values :: "go_string list" where
  "claim_values = [''created'', ''already_claimed'', ''replayed_created'', ''replayed_already_claimed'', ''idempotency_key_reused'', ''canceled'', ''unavailable'', ''internal_error'']"

definition idempotency_values :: "go_string list" where
  "idempotency_values = [''new'', ''replayed'', ''key_reused'', ''canceled'', ''failed'']"

definition poll_values :: "go_string list" where
  "poll_values = [''claimed'', ''empty'', ''error'']"

definition status_values :: "go_string list" where
  "status_values = ''unknown'' # map show_int [100..599]"

lemmas value_defs = route_values_def method_values_def type_values_def reason_values_def publish_values_def operation_values_def claim_values_def idempotency_values_def poll_values_def

text \<open>Every vector with the values each of its labels can take.\<close>

definition label_table :: "(metric_vec \<times> go_string list list) list" where
  "label_table =
     [(hm_requests newHTTPMetrics, [route_values, method_values, status_values]),
          (hm_duration newHTTPMetrics, [route_values, method_values]),
          (rm_claims newRewardMetrics, [claim_values]),
          (rm_idempotency newRewardMetrics, [idempotency_values]),
          (wm_claims newWorkerMetrics, [poll_values]),
          (wm_publishAttempts newWorkerMetrics, [type_values, publish_values]),
          (wm_publishDuration newWorkerMetrics, [type_values, publish_values]),
          (wm_published newWorkerMetrics, [type_values]),
          (wm_retries newWorkerMetrics, [type_values, reason_values]),
          (wm_deadLetters newWorkerMetrics, [type_values, reason_values]),
          (wm_leaseLosses newWorkerMetrics, [type_values, operation_values]),
          (wm_operationErrors newWorkerMetrics, [operation_values])]"

text \<open>A call that cannot panic and stays in the table: on one of the vectors and of its kind, with a
  valid value for each of its labels.\<close>

definition fits :: "metric_vec \<Rightarrow> go_string list \<Rightarrow> bool" where
  "fits v ls \<longleftrightarrow> length ls = length (mv_labels v) \<and> list_all valid_string ls \<and>
     (\<exists>ds. (v, ds) \<in> set label_table \<and> list_all2 (\<lambda>l d. l \<in> set d) ls ds)"

fun call_ok :: "metric_call \<Rightarrow> bool" where
  "call_ok (CounterInc v ls) \<longleftrightarrow> mv_buckets v = None \<and> fits v ls"
| "call_ok (HistogramObserve v ls d) \<longleftrightarrow> mv_buckets v = Some durationBuckets \<and> fits v ls"

declare newHTTPMetrics_def [metric_defs] newRewardMetrics_def [metric_defs] newWorkerMetrics_def [metric_defs]
  NewCounterVec_def [metric_defs] NewHistogramVec_def [metric_defs]

lemma fitsI:
  assumes "(v, ds) \<in> set label_table" "list_all2 (\<lambda>l d. l \<in> set d) ls ds" "length ls = length (mv_labels v)" "list_all valid_string ls"
  shows "fits v ls"
  using assms by (auto simp: fits_def)

text \<open>A value that is one of a list of ASCII strings.\<close>

definition ascii_values :: "go_string list \<Rightarrow> bool" where
  "ascii_values vs = list_all (list_all (\<lambda>c. byte_of c < 128)) vs"

lemma ascii_value_valid: "ascii_values vs \<Longrightarrow> v \<in> set vs \<Longrightarrow> valid_string v"
  by (auto simp: ascii_values_def list_all_iff intro: valid_string_ascii)

lemma show_int_valid: "valid_string (show_int i)"
  using valid_show_int[of i "[]"] by simp

lemma normal_values:
  "normalizeRoute x \<in> set route_values"
  "normalizeMethod x \<in> set method_values"
  "normalizeEventType x \<in> set type_values"
  "normalizeClaimOutcome x \<in> set poll_values"
  "normalizePublishOutcome x \<in> set publish_values"
  "normalizeFailureReason x \<in> set reason_values"
  "normalizeOperation x \<in> set operation_values"
  "mapClaimSuccess res \<in> set claim_values"
  "mapIdempotencySuccess res \<in> set idempotency_values"
  by (auto simp: normalizeRoute_def normalizeMethod_def normalizeEventType_def normalizeClaimOutcome_def normalizePublishOutcome_def
      normalizeFailureReason_def normalizeOperation_def mapClaimSuccess_def mapIdempotencySuccess_def value_defs)

lemma normal_valid [simp]:
  "valid_string (normalizeRoute x)" "valid_string (normalizeMethod x)" "valid_string (normalizeEventType x)"
  "valid_string (normalizeClaimOutcome x)" "valid_string (normalizePublishOutcome x)" "valid_string (normalizeFailureReason x)"
  "valid_string (normalizeOperation x)" "valid_string (mapClaimSuccess res)" "valid_string (mapIdempotencySuccess res)"
  by (rule ascii_value_valid[OF _ normal_values(1)] ascii_value_valid[OF _ normal_values(2)] ascii_value_valid[OF _ normal_values(3)]
      ascii_value_valid[OF _ normal_values(4)] ascii_value_valid[OF _ normal_values(5)] ascii_value_valid[OF _ normal_values(6)]
      ascii_value_valid[OF _ normal_values(7)] ascii_value_valid[OF _ normal_values(8)] ascii_value_valid[OF _ normal_values(9)];
      code_simp)+

lemma table_rows:
  "(hm_requests newHTTPMetrics, [route_values,
     method_values, status_values]) \<in> set label_table"
  "(hm_duration newHTTPMetrics, [route_values,
     method_values]) \<in> set label_table"
  "(rm_claims newRewardMetrics, [claim_values]) \<in> set label_table"
  "(rm_idempotency newRewardMetrics, [idempotency_values]) \<in> set label_table"
  "(wm_claims newWorkerMetrics, [poll_values]) \<in> set label_table"
  "(wm_publishAttempts newWorkerMetrics, [type_values, publish_values]) \<in> set label_table"
  "(wm_publishDuration newWorkerMetrics, [type_values, publish_values]) \<in> set label_table"
  "(wm_published newWorkerMetrics, [type_values]) \<in> set label_table"
  "(wm_retries newWorkerMetrics, [type_values, reason_values]) \<in> set label_table"
  "(wm_deadLetters newWorkerMetrics, [type_values, reason_values]) \<in> set label_table"
  "(wm_leaseLosses newWorkerMetrics, [type_values,
     operation_values]) \<in> set label_table"
  "(wm_operationErrors newWorkerMetrics, [operation_values]) \<in> set label_table"
  by (simp_all only: label_table_def list.set insert_iff HOL.simp_thms)

lemma status_value:
  "(if 100 \<le> i \<and> i \<le> 599 then show_int i else ''unknown'') \<in> set status_values"
  unfolding status_values_def list.set set_map set_upto by auto

lemma status_valid: "valid_string (if 100 \<le> i \<and> i \<le> 599 then show_int i else ''unknown'')"
  using show_int_valid ascii_value_valid[of type_values "''unknown''"] by (auto simp: value_defs ascii_values_def)

lemma length_status_values: "length status_values = 501"
  unfolding status_values_def list.size length_map length_upto by simp

lemmas row_fits = table_rows[THEN fitsI]

lemma http_calls_ok: "list_all call_ok (HTTPMetrics_ObserveRequest (Some newHTTPMetrics) route method status duration)"
  unfolding HTTPMetrics_ObserveRequest_def option.case Let_def list.pred_inject call_ok.simps
  by (intro conjI row_fits) (simp_all add: metric_defs normal_values status_value status_valid)

lemma reward_calls_ok: "list_all call_ok (RewardMetrics_ObserveRewardClaim (Some newRewardMetrics) res)"
proof -
  have ascii: "ascii_values claim_values" "ascii_values idempotency_values" by code_simp+
  have claims: "call_ok (CounterInc (rm_claims newRewardMetrics) [l])" if "l \<in> set claim_values" for l
    unfolding call_ok.simps using that ascii_value_valid[OF ascii(1)] by (intro conjI row_fits) (simp_all add: metric_defs)
  have idempotency: "call_ok (CounterInc (rm_idempotency newRewardMetrics) [l])" if "l \<in> set idempotency_values" for l
    unfolding call_ok.simps using that ascii_value_valid[OF ascii(2)] by (intro conjI row_fits) (simp_all add: metric_defs)
  have literals: "''idempotency_key_reused'' \<in> set claim_values" "''canceled'' \<in> set claim_values"
    "''unavailable'' \<in> set claim_values" "''internal_error'' \<in> set claim_values"
    "''key_reused'' \<in> set idempotency_values" "''canceled'' \<in> set idempotency_values" "''failed'' \<in> set idempotency_values"
    by (simp_all add: value_defs)
  show ?thesis
    unfolding RewardMetrics_ObserveRewardClaim_def option.case
    by (cases res) (simp_all add: claims idempotency literals normal_values del: call_ok.simps)
qed

lemma worker_calls_ok:
  "list_all call_ok (WorkerMetrics_ObserveClaim (Some newWorkerMetrics) outcome)"
  "list_all call_ok (WorkerMetrics_ObservePublish (Some newWorkerMetrics) eventType outcome duration)"
  "list_all call_ok (WorkerMetrics_ObservePublished (Some newWorkerMetrics) eventType)"
  "list_all call_ok (WorkerMetrics_ObserveRetry (Some newWorkerMetrics) eventType outcome)"
  "list_all call_ok (WorkerMetrics_ObserveDeadLetter (Some newWorkerMetrics) eventType outcome)"
  "list_all call_ok (WorkerMetrics_ObserveLeaseLoss (Some newWorkerMetrics) eventType oper)"
  "list_all call_ok (WorkerMetrics_ObserveOperationError (Some newWorkerMetrics) oper)"
  unfolding WorkerMetrics_ObserveClaim_def WorkerMetrics_ObservePublish_def WorkerMetrics_ObservePublished_def
    WorkerMetrics_ObserveRetry_def WorkerMetrics_ObserveDeadLetter_def WorkerMetrics_ObserveLeaseLoss_def
    WorkerMetrics_ObserveOperationError_def option.case Let_def list.pred_inject call_ok.simps
  by (intro conjI row_fits; simp add: metric_defs normal_values)+

lemma label_combinations: "sum_list (map (\<lambda>(v, ds). prod_list (map length ds)) label_table) = 7595"
  by (simp add: label_table_def length_status_values value_defs)

section \<open>Properties\<close>

text \<open>C34. The metrics of both processes are well-typed and bounded: whatever route, method, status, event
  type, outcome or error comes in, an observer only makes calls that its vectors accept (one valid UTF-8 value
  per label, counters and histograms never confused), and every value is from a fixed table. The table has
  7595 combinations of label values in all, so that no input can make a process grow its metrics.\<close>

theorem metrics_bounded:
  "list_all call_ok (HTTPMetrics_ObserveRequest (Some newHTTPMetrics) route method status duration) \<and>
   list_all call_ok (RewardMetrics_ObserveRewardClaim (Some newRewardMetrics) res) \<and>
   list_all call_ok (WorkerMetrics_ObserveClaim (Some newWorkerMetrics) outcome) \<and>
   list_all call_ok (WorkerMetrics_ObservePublish (Some newWorkerMetrics) eventType outcome duration) \<and>
   list_all call_ok (WorkerMetrics_ObservePublished (Some newWorkerMetrics) eventType) \<and>
   list_all call_ok (WorkerMetrics_ObserveRetry (Some newWorkerMetrics) eventType outcome) \<and>
   list_all call_ok (WorkerMetrics_ObserveDeadLetter (Some newWorkerMetrics) eventType outcome) \<and>
   list_all call_ok (WorkerMetrics_ObserveLeaseLoss (Some newWorkerMetrics) eventType oper) \<and>
   list_all call_ok (WorkerMetrics_ObserveOperationError (Some newWorkerMetrics) oper) \<and>
   sum_list (map (\<lambda>(v, ds). prod_list (map length ds)) label_table) = 7595"
  by (intro conjI http_calls_ok reward_calls_ok worker_calls_ok label_combinations)

text \<open>What the reward metrics count for a request.\<close>

fun claim_metrics :: "http_event list \<Rightarrow> metric_call list" where
  "claim_metrics [] = []"
| "claim_metrics (ObserveRewardClaim res # es) = RewardMetrics_ObserveRewardClaim (Some newRewardMetrics) res @ claim_metrics es"
| "claim_metrics (_ # es) = claim_metrics es"

text \<open>The response that belongs to the outcomes of the two counters.\<close>

inductive counted_as :: "go_string \<Rightarrow> go_string \<Rightarrow> writer_call list \<Rightarrow> bool" where
  "counted_as ''created'' ''new'' (json_response [] 201 body)"
| "counted_as ''already_claimed'' ''new'' (json_response [] 409 body)"
| "counted_as ''replayed_created'' ''replayed'' (json_response [(''Idempotent-Replayed'', ''true'')] 201 body)"
| "counted_as ''replayed_already_claimed'' ''replayed'' (json_response [(''Idempotent-Replayed'', ''true'')] 409 body)"
| "error_answer calls 409 ''idempotency_key_reused'' \<Longrightarrow> counted_as ''idempotency_key_reused'' ''key_reused'' calls"
| "error_answer calls 503 ''service_unavailable'' \<Longrightarrow> counted_as ''unavailable'' ''failed'' calls"
| "error_answer calls 500 ''internal_error'' \<Longrightarrow> counted_as ''internal_error'' ''failed'' calls"
| "counted_as ''canceled'' ''canceled'' []"

lemma claim_metrics_append: "claim_metrics (xs @ ys) = claim_metrics xs @ claim_metrics ys"
  by (induction xs rule: claim_metrics.induct) auto

lemma claim_metrics_log [simp]: "claim_metrics (logCreateClaimError e) = []"
  by (simp add: logCreateClaimError_def)

lemma success_counted:
  assumes "good_result res"
  shows "\<exists>oc ioc. mset (RewardMetrics_ObserveRewardClaim (Some newRewardMetrics) (Inr res)) =
      {#CounterInc (rm_claims newRewardMetrics) [oc], CounterInc (rm_idempotency newRewardMetrics) [ioc]#} \<and>
    counted_as oc ioc (write_result res)"
proof (intro exI conjI)
  show "mset (RewardMetrics_ObserveRewardClaim (Some newRewardMetrics) (Inr res)) =
      {#CounterInc (rm_claims newRewardMetrics) [mapClaimSuccess res],
        CounterInc (rm_idempotency newRewardMetrics) [mapIdempotencySuccess res]#}"
    by (simp add: RewardMetrics_ObserveRewardClaim_def add_mset_commute)
  show "counted_as (mapClaimSuccess res) (mapIdempotencySuccess res) (write_result res)"
    using assms
    by (auto simp: write_result_response good_result_def mapClaimSuccess_def mapIdempotencySuccess_def intro: counted_as.intros)
qed

lemma error_counted:
  assumes "known_error (ended_with ctx) e" "\<not> is_invalid_input e"
  shows "\<exists>oc ioc. mset (RewardMetrics_ObserveRewardClaim (Some newRewardMetrics) (Inl e)) =
      {#CounterInc (rm_claims newRewardMetrics) [oc], CounterInc (rm_idempotency newRewardMetrics) [ioc]#} \<and>
    counted_as oc ioc (if isRequestContextError ctx e then [] else writeCreateClaimError e)"
proof -
  consider (reused) m where "e = Wrapf m (Sentinel ErrIdempotencyKeyReused)"
    | (ctx) m x where "e = Wrapf m (Sentinel x)" "x \<in> ended_with ctx"
    | (db) m m' x where "e = Wrapf m (Wrapf m' (Sentinel x))" "x = RewardsErrUnavailable \<or> x = RewardsErrInternal"
    using assms by (auto simp: known_error_def claim_error_def)
  then show ?thesis
  proof cases
    case reused
    then have "\<not> isRequestContextError ctx e"
      by (cases ctx) (auto simp: isRequestContextError_def elim: ctx_sentinel.elims)
    with reused show ?thesis
      by (auto simp: RewardMetrics_ObserveRewardClaim_def writeCreateClaimError_def error_codes
          intro!: exI counted_as.intros(5) error_answerI[unfolded error_codes])
  next
    case ctx
    then obtain en c where "ctx = Ended en c" "x = ctx_sentinel en" by (auto dest: ended_with_cases)
    with ctx show ?thesis
      by (cases en) (auto simp: RewardMetrics_ObserveRewardClaim_def isRequestContextError_def intro!: exI counted_as.intros(8))
  next
    case db
    then have "\<not> isRequestContextError ctx e"
      by (cases ctx) (auto simp: isRequestContextError_def elim: ctx_sentinel.elims)
    with db show ?thesis
      by (auto simp: RewardMetrics_ObserveRewardClaim_def writeCreateClaimError_def error_codes
          intro!: exI counted_as.intros(6,7) error_answerI[unfolded error_codes])
  qed
qed

text \<open>A request is refused when it fails a check of the handler or its command one of the service; it then reaches
  no database.\<close>

definition refused_request :: "request \<Rightarrow> bool" where
  "refused_request r \<longleftrightarrow> (case check_request r of Inl _ \<Rightarrow> True | Inr cmd \<Rightarrow> \<not> command_ok cmd)"

text \<open>C35. The claim metrics tell what the clients got: a request that fails a check of the handler or the validation of the
  service counts nothing and gets a request error; every other one counts exactly one claim outcome and one
  idempotency outcome, and these belong to the response that was written. So the counter of created claims counts the answers 201
  that are no replays, the replayed outcomes those with the replay header, and so on; a request is counted as
  cancelled only when nothing was written.\<close>

theorem claim_metrics_match:
  assumes "within_context ctx (tks, d)" "rewardClaimsHandler (claim_creator tx) True ctx r (tks, d) = Some out"
  shows "if refused_request r then claim_metrics (out_events out) = [] \<and> answered_from request_errors (out_calls out)
    else (\<exists>oc ioc. mset (claim_metrics (out_events out)) =
        {#CounterInc (rm_claims newRewardMetrics) [oc], CounterInc (rm_idempotency newRewardMetrics) [ioc]#} \<and>
      counted_as oc ioc (out_calls out))"
proof (cases "check_request r")
  case (Inl calls)
  with assms(2) check_request_Inl[OF Inl] show ?thesis by (auto simp: handler_defs refused_request_def)
next
  case (Inr cmd)
  then have refused: "refused_request r \<longleftrightarrow> \<not> command_ok cmd" by (simp add: refused_request_def)
  from Inr assms(2) obtain res s' where res: "claim_creator tx cmd (tks, d) = Some (res, s')"
    by (auto simp: rewardClaimsHandler_def split: option.splits)
  show ?thesis
  proof (cases "command_ok cmd")
    case False
    then obtain m where "prepareCreateClaim cmd = Inl (InvalidInputError m)" using prepareCreateClaim_ok(2) by blast
    with res have "res = Inl (InvalidInputError m)" by (auto simp: claim_creator_def CreateClaim_def)
    with assms(2) Inr res have "claim_metrics (out_events out) = []" "out_calls out = writeError 400 ''invalid_request'' m"
      by (auto simp: handler_defs Let_def isRequestContextError_def writeCreateClaimError_def error_codes
          observe_claim_def claim_metrics_append is_ctx_error_def split: if_splits option.splits)
    with False refused show ?thesis by (auto simp: answered_from_def request_errors_def intro: error_answerI)
  next
    case True
    then obtain p where p: "prepareCreateClaim cmd = Inr p" using prepareCreateClaim_ok(1) by blast
    show ?thesis
    proof (cases res)
      case [simp]: (Inl e)
      note known = api.error_known[OF assms(1) res[unfolded Inl]]
      have ni: "\<not> is_invalid_input e"
        using res p known by (auto simp: claim_creator_def CreateClaim_def known_error_def claim_error_def split: option.splits sum.splits)
      with assms(2) Inr res have "claim_metrics (out_events out) = RewardMetrics_ObserveRewardClaim (Some newRewardMetrics) (Inl e)"
        "out_calls out = (if isRequestContextError ctx e then [] else writeCreateClaimError e)"
        by (auto simp: handler_defs Let_def observe_claim_def claim_metrics_append split: if_splits)
      with error_counted[OF known ni] True refused show ?thesis by auto
    next
      case [simp]: (Inr result)
      from assms(2) \<open>check_request r = Inr cmd\<close> res
      have "claim_metrics (out_events out) = RewardMetrics_ObserveRewardClaim (Some newRewardMetrics) (Inr result)"
        "out_calls out = write_result result"
        by (auto simp: handler_defs Let_def observe_claim_def)
      with success_counted[OF api.result_good[OF assms(1) res[unfolded Inr]]] True refused show ?thesis by auto
    qed
  qed
qed

theorem claim_metrics_match_witness:
  "\<exists>oc ioc. mset (claim_metrics (out_events sample_outcome)) =
        {#CounterInc (rm_claims newRewardMetrics) [oc], CounterInc (rm_idempotency newRewardMetrics) [ioc]#} \<and>
      counted_as oc ioc (out_calls sample_outcome)"
proof -
  have "within_context Live (sample_ticks 6, empty_db)" by (simp add: within_context_def)
  moreover have "claim_metrics (out_events sample_outcome) \<noteq> []"
    by (simp add: sample_outcome_def RewardMetrics_ObserveRewardClaim_def)
  ultimately show ?thesis using claim_metrics_match[OF _ http_sample_handler] by metis
qed

text \<open>How often a counter was incremented, in all and under one list of label values.\<close>

definition incs :: "metric_vec \<Rightarrow> metric_call list \<Rightarrow> int" where
  "incs v calls = sum_list (map (\<lambda>c. case c of CounterInc v' _ \<Rightarrow> of_bool (v' = v) | _ \<Rightarrow> 0) calls)"

definition incs_at :: "metric_vec \<Rightarrow> go_string list \<Rightarrow> metric_call list \<Rightarrow> int" where
  "incs_at v ls calls = sum_list (map (\<lambda>c. case c of CounterInc v' ls' \<Rightarrow> of_bool (v' = v \<and> ls' = ls) | _ \<Rightarrow> 0) calls)"

lemma incs_simps [simp]:
  "incs v [] = 0" "incs v (CounterInc v' ls # cs) = of_bool (v' = v) + incs v cs" "incs v (HistogramObserve v' ls d # cs) = incs v cs"
  "incs v (cs @ ds) = incs v cs + incs v ds"
  by (simp_all add: incs_def)

lemma incs_at_simps [simp]:
  "incs_at v ls [] = 0" "incs_at v ls (CounterInc v' ls' # cs) = of_bool (v' = v \<and> ls' = ls) + incs_at v ls cs"
  "incs_at v ls (HistogramObserve v' ls' d # cs) = incs_at v ls cs" "incs_at v ls (cs @ ds) = incs_at v ls cs + incs_at v ls ds"
  by (simp_all add: incs_at_def)

definition worker_calls :: "observation list \<Rightarrow> metric_call list" where
  "worker_calls obs = concat (map (observe (Some newWorkerMetrics)) obs)"

text \<open>Publish attempts that no later counter accounts for.\<close>

definition unsettled :: "metric_call list \<Rightarrow> int" where
  "unsettled calls =
     incs (wm_publishAttempts newWorkerMetrics) calls -
     (incs (wm_published newWorkerMetrics) calls + incs (wm_retries newWorkerMetrics) calls +
      incs (wm_deadLetters newWorkerMetrics) calls + incs (wm_leaseLosses newWorkerMetrics) calls +
      (incs (wm_operationErrors newWorkerMetrics) calls - incs_at (wm_operationErrors newWorkerMetrics) [''claim''] calls))"

lemma unsettled_append [simp]: "unsettled (cs @ ds) = unsettled cs + unsettled ds"
  by (simp add: unsettled_def)

lemma worker_calls_simps [simp]:
  "worker_calls [] = []" "worker_calls (ob # obs) = observe (Some newWorkerMetrics) ob @ worker_calls obs"
  "worker_calls (obs @ obs') = worker_calls obs @ worker_calls obs'"
  by (simp_all add: worker_calls_def)

lemma unsettled_observe [simp]:
  "unsettled [] = 0"
  "unsettled (observe (Some newWorkerMetrics) (ObserveClaim oc)) = 0"
  "unsettled (observe (Some newWorkerMetrics) (ObservePublish t poc d)) = 1"
  "unsettled (observe (Some newWorkerMetrics) (ObservePublished t)) = -1"
  "unsettled (observe (Some newWorkerMetrics) (ObserveRetry t poc)) = -1"
  "unsettled (observe (Some newWorkerMetrics) (ObserveDeadLetter t poc)) = -1"
  "unsettled (observe (Some newWorkerMetrics) (ObserveLeaseLoss t oper)) = -1"
  "unsettled (observe (Some newWorkerMetrics) (ObserveOperationError oper)) = (if oper = OperationClaim then 0 else -1)"
  by (cases oper; simp add: unsettled_def WorkerMetrics_ObserveClaim_def WorkerMetrics_ObservePublish_def
      WorkerMetrics_ObservePublished_def WorkerMetrics_ObserveRetry_def WorkerMetrics_ObserveDeadLetter_def
      WorkerMetrics_ObserveLeaseLoss_def WorkerMetrics_ObserveOperationError_def metric_defs normalizeOperation_def Let_def)+

declare observe.simps [simp del]

lemma transition_unsettled:
  assumes "transition_end env event oper msg ob res = (err, obs, s)" "oper \<noteq> OperationClaim"
    "unsettled (observe (Some newWorkerMetrics) ob) = -1"
  shows "unsettled (worker_calls obs) = -1 \<or>
    (unsettled (worker_calls obs) = 0 \<and> (\<exists>m c. err = Some (Wrapf m (Sentinel c)) \<and> c \<in> ctx_sentinel ` UNIV))"
  using assms
  by (auto simp: transition_end_def handleTransitionError_def is_ctx_error_def ctx_err_def split: prod.splits option.splits if_splits
      context_state.splits)

lemma settle_unsettled:
  assumes "settleEvent S w env event publishErr s = (err, obs, s')"
  shows "unsettled (worker_calls obs) = 0 \<or>
    (unsettled (worker_calls obs) = 1 \<and>
      (\<exists>c \<in> range ctx_sentinel. err = Some (Sentinel c) \<or> (\<exists>m. err = Some (Wrapf m (Sentinel c)))))"
proof -
  note ends = transition_unsettled[where oper = OperationMarkPublished and ob = "ObservePublished t" for t, simplified]
    transition_unsettled[where oper = OperationScheduleRetry and ob = "ObserveRetry t poc" for t poc, simplified]
    transition_unsettled[where oper = OperationMarkDeadLetter and ob = "ObserveDeadLetter t poc" for t poc, simplified]
  show ?thesis
  proof (cases publishErr)
    case None
    with assms show ?thesis by (auto simp: settleEvent_def Let_def split: prod.splits dest!: ends)
  next
    case (Some e)
    show ?thesis
    proof (cases "we_ctx_failed env")
      case Live
      with Some assms show ?thesis
        by (auto simp: settleEvent_def Let_def ctx_err_def split: prod.splits if_splits dest!: ends)
    next
      case (Ended en c)
      with Some assms show ?thesis by (auto simp: settleEvent_def Let_def ctx_err_def)
    qed
  qed
qed

text \<open>An attempt that stays open ends the loop.\<close>

lemma runOnce_unsettled:
  assumes "runOnce S w env s = (res, obs, s')"
  shows "unsettled (worker_calls obs) = 0 \<or>
    (unsettled (worker_calls obs) = 1 \<and> (\<exists>c \<in> range ctx_sentinel. res = Inl (Sentinel c) \<or> (\<exists>m. res = Inl (Wrapf m (Sentinel c)))))"
proof (cases "st_ClaimNext S (we_claim env) (w_workerID w) (w_lockTTL w) s")
  case (Pair r s1)
  have lease: "ErrLeaseLost \<noteq> ctx_sentinel x" for x by (cases x) simp_all
  show ?thesis
  proof (cases "\<exists>event. r = Inr (Some event)")
    case True
    then obtain event where r: "r = Inr (Some event)" ..
    obtain err obs' s2 where p: "processEvent S w env event s1 = (err, obs', s2)" by (metis prod_cases3)
    have obs: "obs = ObserveClaim ClaimOutcomeClaimed # obs'" using assms Pair r p by (auto simp: runOnce_def split: option.splits)
    from settle_unsettled[OF p[unfolded processEvent_def]] obs assms Pair r p lease show ?thesis
      by (auto simp: runOnce_def split: option.splits if_splits)
  next
    case False
    with assms Pair show ?thesis
      by (auto simp: runOnce_def split: sum.splits option.splits if_splits)
  qed
qed

lemma iteration_unsettled:
  assumes "run_iteration S w env s = (st, obs, s')"
  shows "unsettled (worker_calls obs) = 0 \<or> (unsettled (worker_calls obs) = 1 \<and> (\<exists>r. st = Returned r))"
proof -
  obtain res obs1 s1 where once: "runOnce S w env s = (res, obs1, s1)" by (metis prod_cases3)
  have "ErrStoreUnavailable \<noteq> ctx_sentinel x" for x by (cases x) simp_all
  with runOnce_unsettled[OF once] assms once show ?thesis
    by (auto simp: run_iteration_def split: sum.splits if_splits)
qed

lemma loop_unsettled:
  "run_loop S w wait script s = (st, obs, s') \<Longrightarrow>
     unsettled (worker_calls obs) = 0 \<or> (unsettled (worker_calls obs) = 1 \<and> (\<exists>r. st = Returned r))"
proof (induction script arbitrary: wait s st obs s')
  case (Cons ev script)
  show ?case
  proof (cases ev)
    case (TimerFired env)
    obtain st1 obs1 s1 where it: "run_iteration S w env s = (st1, obs1, s1)" by (metis prod_cases3)
    show ?thesis
    proof (cases st1)
      case (Polling wait')
      obtain st2 obs2 s2 where rest: "run_loop S w wait' script s1 = (st2, obs2, s2)" by (metis prod_cases3)
      from Cons.IH[OF rest] iteration_unsettled[OF it] Cons.prems TimerFired it Polling rest show ?thesis by auto
    next
      case (Returned r)
      with iteration_unsettled[OF it] Cons.prems TimerFired it show ?thesis by auto
    qed
  qed (use Cons.prems in auto)
qed simp

text \<open>C36. No publish attempt goes missing in the worker's metrics: over every run of the polling loop, whatever the
  store and the publisher do, the attempts are exactly the sum of the published events, the scheduled retries, the dead letters, the
  lost leases and the failed transitions. The one exception is an attempt that the shutdown interrupts, and
  then the loop has returned: there is at most one, and none while it polls.\<close>

theorem publish_accounting:
  assumes "run_loop S w wait script s = (st, obs, s')"
  shows "\<exists>open \<in> {0, 1}. (open = 1 \<longrightarrow> (\<exists>r. st = Returned r)) \<and>
    incs (wm_publishAttempts newWorkerMetrics) (worker_calls obs) =
      incs (wm_published newWorkerMetrics) (worker_calls obs) +
      incs (wm_retries newWorkerMetrics) (worker_calls obs) +
      incs (wm_deadLetters newWorkerMetrics) (worker_calls obs) +
      incs (wm_leaseLosses newWorkerMetrics) (worker_calls obs) +
      (incs (wm_operationErrors newWorkerMetrics) (worker_calls obs) -
       incs_at (wm_operationErrors newWorkerMetrics) [''claim''] (worker_calls obs)) + open"
  using loop_unsettled[OF assms] by (auto simp: unsettled_def)

theorem publish_accounting_witness:
  "\<exists>st obs d'. run_loop postgresStore sample_worker 0 [TimerFired (sample_work (sample_env 10) None)] sample_outbox = (st, obs, d') \<and>
    st = Polling 0 \<and> incs (wm_publishAttempts newWorkerMetrics) (worker_calls obs) = 1 \<and>
    (\<exists>open \<in> {0, 1}. open = 0 \<and>
      1 = incs (wm_published newWorkerMetrics) (worker_calls obs) +
        incs (wm_retries newWorkerMetrics) (worker_calls obs) +
        incs (wm_deadLetters newWorkerMetrics) (worker_calls obs) +
        incs (wm_leaseLosses newWorkerMetrics) (worker_calls obs) +
        (incs (wm_operationErrors newWorkerMetrics) (worker_calls obs) -
         incs_at (wm_operationErrors newWorkerMetrics) [''claim''] (worker_calls obs)) + open)"
proof -
  let ?run = "run_loop postgresStore sample_worker 0 [TimerFired (sample_work (sample_env 10) None)] sample_outbox"
  obtain st obs d' where run: "?run = (st, obs, d')" by (metis prod_cases3)
  have "fst ?run = Polling 0" "incs (wm_publishAttempts newWorkerMetrics) (worker_calls (fst (snd ?run))) = 1" by code_simp+
  with publish_accounting[OF run] run show ?thesis by auto
qed

end
