(* ===== verification/Cmd_Process.thy ===== *)
theory Cmd_Process
  imports Observability
begin

text \<open>
  What the two process entry points, \<^verbatim>\<open>cmd/api/main.go\<close> and \<^verbatim>\<open>cmd/worker/main.go\<close>, share.

  A process is a function of its environment: the variables, the context of the signals each time
  it is looked at, what the driver, the registry and the network answer. Its result is the exit
  code with the trace of what it did: opened and closed, started, logged as an error. A process that waits for ever has
  no result. The answers of the libraries are fields of the environment.
\<close>

datatype process_event =
    PoolOpened | PoolClosed
  | ListenerOpened | ListenerClosed
  | Started go_string
  | ErrorLogged string
  | ShutdownRequested
  | ServerShutdown | ServerClosed
  | WorkerReadyStored bool | WorkerCanceled

type_synonym process_result = "(int \<times> process_event list) option"

text \<open>\<open>pe_ctx n\<close> is the context at the n-th place where the code looks at it.\<close>

record ('c, 'p, 'r) process_env =
  pe_lookup :: lookupFunc
  pe_ctx :: "nat \<Rightarrow> context_state"
  pe_parse :: "string \<Rightarrow> goerror + 'c"
  pe_open :: "'c \<Rightarrow> goerror + 'p"
  pe_ping :: "'p \<Rightarrow> goerror option"
  pe_register :: "'r registerer"
  pe_registry :: 'r
  pe_listen :: "go_string \<Rightarrow> goerror option"

text \<open>The logger: its level and the attributes of every record.\<close>

record logger =
  lg_level :: int
  lg_attrs :: "(go_string \<times> go_string) list"

definition logger_With :: "go_string \<Rightarrow> go_string \<Rightarrow> logger \<Rightarrow> logger" where
  "logger_With k v l = l\<lparr>lg_attrs := lg_attrs l @ [(k, v)]\<rparr>"

text \<open>\<^verbatim>\<open>errors.Join\<close>: nil when every argument is.\<close>

definition errors_join :: "goerror option list \<Rightarrow> goerror option" where
  "errors_join es = (case List.map_filter id es of [] \<Rightarrow> None | xs \<Rightarrow> Some (Joined xs))"

text \<open>The result of \<^verbatim>\<open>Serve\<close> as the goroutines send it: a closed server is no error.\<close>

definition serve_result :: "goerror option \<Rightarrow> goerror option" where
  "serve_result err =
     (case err of None \<Rightarrow> None | Some e \<Rightarrow> if errors_is e ErrServerClosed then None else Some e)"

text \<open>A deferred call runs after the rest, however that ends.\<close>

definition deferred :: "process_event \<Rightarrow> process_result \<Rightarrow> process_result" where
  "deferred ev res = map_option (\<lambda>(code, evs). (code, evs @ [ev])) res"

definition after_event :: "process_event \<Rightarrow> process_result \<Rightarrow> process_result" where
  "after_event ev res = map_option (\<lambda>(code, evs). (code, ev # evs)) res"

definition exit_with :: "int \<Rightarrow> process_event list \<Rightarrow> process_result" where
  "exit_with code evs = Some (code, evs)"

text \<open>Opening the pool and the first ping, the same in both processes; \<open>body\<close> is what follows.\<close>

definition with_database ::
  "('c, 'p, 'r, 'z) process_env_scheme \<Rightarrow> DatabaseConfig \<Rightarrow> ('p \<Rightarrow> process_result) \<Rightarrow> process_result" where
  "with_database env dbcfg body =
     (case OpenPool (pe_parse env) (pe_open env) (db_URL dbcfg) of
        Inl err \<Rightarrow>
          if is_ctx_error (pe_ctx env 1) err then exit_with 0 []
          else exit_with 1 [ErrorLogged ''open postgres pool'']
      | Inr dbPool \<Rightarrow> after_event PoolOpened (deferred PoolClosed
          (case Ping (pe_ping env) (Some dbPool) of
             Some err \<Rightarrow>
               if is_ctx_error (pe_ctx env 2) err then exit_with 0 []
               else exit_with 1 [ErrorLogged ''ping postgres'']
           | None \<Rightarrow> body dbPool)))"

text \<open>Listening on the server's address, with the looks at the context before and after.\<close>

definition with_listener ::
  "('c, 'p, 'r, 'z) process_env_scheme \<Rightarrow> http_server \<Rightarrow> string \<Rightarrow> process_result \<Rightarrow> process_result" where
  "with_listener env server msg body =
     (if ctx_err (pe_ctx env 3) \<noteq> None then exit_with 0 []
      else (case pe_listen env (srv_Addr server) of
          Some err \<Rightarrow> exit_with 1 [ErrorLogged msg]
        | None \<Rightarrow> after_event ListenerOpened (deferred ListenerClosed
            (if ctx_err (pe_ctx env 4) \<noteq> None then exit_with 0 [] else body))))"

section \<open>The registry\<close>

text \<open>What the documentation of \<^verbatim>\<open>Register\<close> promises: a collector is accepted when its descriptors are valid
  and none of its metrics is registered yet. The descriptor of a vector is valid when its full name
  and its label names have the form the library asks for, the label names are distinct, none is reserved, and
  those of a histogram are not \<open>le\<close>. The two collectors of the library have the
  prefixes \<open>go\<close> and \<open>process\<close>. \<open>contents\<close> reads the collectors of a registry.\<close>

definition fq_name :: "metric_vec \<Rightarrow> go_string" where
  "fq_name v = mv_namespace v @ ''_'' @ mv_subsystem v @ ''_'' @ mv_name v"

definition name_start :: "char \<Rightarrow> bool" where
  "name_start c \<longleftrightarrow> (CHR ''a'' \<le> c \<and> c \<le> CHR ''z'') \<or> (CHR ''A'' \<le> c \<and> c \<le> CHR ''Z'') \<or> c = CHR ''_''"

definition name_char :: "char \<Rightarrow> bool" where
  "name_char c \<longleftrightarrow> name_start c \<or> (CHR ''0'' \<le> c \<and> c \<le> CHR ''9'')"

definition name_valid :: "go_string \<Rightarrow> bool" where
  "name_valid n \<longleftrightarrow> n \<noteq> [] \<and> name_start (hd n) \<and> list_all name_char n \<and> take 2 n \<noteq> ''__''"

fun collector_valid :: "collector \<Rightarrow> bool" where
  "collector_valid (VecCollector v) \<longleftrightarrow>
     mv_namespace v \<noteq> [] \<and> mv_subsystem v \<noteq> [] \<and> mv_name v \<noteq> [] \<and> name_valid (fq_name v) \<and>
     list_all name_valid (mv_labels v) \<and> distinct (mv_labels v) \<and>
     (mv_buckets v = None \<or> ''le'' \<notin> set (mv_labels v))"
| "collector_valid _ \<longleftrightarrow> True"

fun clashes :: "collector \<Rightarrow> collector \<Rightarrow> bool" where
  "clashes (VecCollector v) (VecCollector v') \<longleftrightarrow> fq_name v = fq_name v'"
| "clashes (VecCollector v) GoCollector \<longleftrightarrow> take 3 (fq_name v) = ''go_''"
| "clashes (VecCollector v) ProcessCollector \<longleftrightarrow> take 8 (fq_name v) = ''process_''"
| "clashes GoCollector (VecCollector v) \<longleftrightarrow> take 3 (fq_name v) = ''go_''"
| "clashes ProcessCollector (VecCollector v) \<longleftrightarrow> take 8 (fq_name v) = ''process_''"
| "clashes GoCollector ProcessCollector \<longleftrightarrow> False"
| "clashes ProcessCollector GoCollector \<longleftrightarrow> False"
| "clashes c c' \<longleftrightarrow> True"

definition registry_law :: "'r registerer \<Rightarrow> ('r \<Rightarrow> collector list) \<Rightarrow> bool" where
  "registry_law Register contents \<longleftrightarrow>
     (\<forall>c reg. collector_valid c \<and> list_all (\<lambda>c'. \<not> clashes c c') (contents reg) \<longrightarrow>
        (\<exists>reg'. Register c reg = (None, reg') \<and> contents reg' = c # contents reg))"

lemma registry_lawE:
  assumes "registry_law Register contents" "collector_valid c" "list_all (\<lambda>c'. \<not> clashes c c') (contents reg)"
  obtains reg' where "Register c reg = (None, reg')" "contents reg' = c # contents reg"
  using assms unfolding registry_law_def by blast

fun fresh_in :: "collector list \<Rightarrow> collector list \<Rightarrow> bool" where
  "fresh_in [] old \<longleftrightarrow> True"
| "fresh_in (c # cs) old \<longleftrightarrow> collector_valid c \<and> list_all (\<lambda>c'. \<not> clashes c c') old \<and> fresh_in cs (c # old)"

lemma register_all_fresh:
  assumes "registry_law Register contents"
  shows "fresh_in cs (contents reg) \<Longrightarrow>
    \<exists>reg'. register_all Register cs reg = (None, reg') \<and> contents reg' = rev cs @ contents reg"
proof (induction cs arbitrary: reg)
  case (Cons c cs)
  from Cons.prems have "collector_valid c" "list_all (\<lambda>c'. \<not> clashes c c') (contents reg)" by simp_all
  with assms obtain reg1 where c: "Register c reg = (None, reg1)" "contents reg1 = c # contents reg" by (rule registry_lawE)
  with Cons.IH[of reg1] Cons.prems show ?case by auto
qed simp

lemmas vec_valid_defs = fq_name_def name_valid_def name_char_def name_start_def namespace_def

lemma NewRegistry_ok:
  assumes "registry_law Register contents" "contents reg = []"
  obtains reg' where "NewRegistry Register reg = (Inr (), reg')" "contents reg' = [ProcessCollector, GoCollector]"
proof -
  obtain reg1 where 1: "Register GoCollector reg = (None, reg1)" "contents reg1 = GoCollector # contents reg"
    using registry_lawE[OF assms(1), of GoCollector reg] assms(2) by auto
  obtain reg2 where "Register ProcessCollector reg1 = (None, reg2)" "contents reg2 = ProcessCollector # contents reg1"
    using registry_lawE[OF assms(1), of ProcessCollector reg1] 1 assms(2) by auto
  with 1 that assms(2) show ?thesis by (simp add: NewRegistry_def)
qed

lemma register_vecs:
  assumes "registry_law Register contents" "fresh_in (map VecCollector vs) (contents reg)"
  shows "\<exists>reg'. register (Some Register) vs reg = (None, reg') \<and> contents reg' = rev (map VecCollector vs) @ contents reg"
  using register_all_fresh[OF assms] by (auto simp: register_def)

lemma NewHTTPMetrics_ok:
  assumes "registry_law Register contents" "contents reg = [ProcessCollector, GoCollector]"
  obtains reg' where "NewHTTPMetrics (Some Register) reg = (Inr newHTTPMetrics, reg')"
    "contents reg' = rev (map VecCollector [hm_requests newHTTPMetrics, hm_duration newHTTPMetrics]) @ [ProcessCollector, GoCollector]"
proof -
  have "\<exists>reg'. register (Some Register) [hm_requests newHTTPMetrics, hm_duration newHTTPMetrics] reg = (None, reg') \<and>
      contents reg' = rev (map VecCollector [hm_requests newHTTPMetrics, hm_duration newHTTPMetrics]) @ contents reg"
    by (rule register_vecs[OF assms(1)]) (simp add: assms(2) metric_defs vec_valid_defs)
  with that assms(2) show ?thesis by (auto simp: NewHTTPMetrics_def Let_def)
qed

section \<open>Well-formed traces\<close>

text \<open>Every resource that was opened has been closed once, the listener before the pool; and an error was
  logged exactly when the exit code is 1.\<close>

definition is_pool_event :: "process_event \<Rightarrow> bool" where
  "is_pool_event ev \<longleftrightarrow> ev \<in> {PoolOpened, PoolClosed}"

definition is_listener_event :: "process_event \<Rightarrow> bool" where
  "is_listener_event ev \<longleftrightarrow> ev \<in> {ListenerOpened, ListenerClosed}"

definition resources :: "process_event list \<Rightarrow> process_event list" where
  "resources evs = filter (\<lambda>ev. is_pool_event ev \<or> is_listener_event ev) evs"

definition errors_logged :: "process_event list \<Rightarrow> string list" where
  "errors_logged evs = List.map_filter (\<lambda>ev. case ev of ErrorLogged m \<Rightarrow> Some m | _ \<Rightarrow> None) evs"

definition orderly :: "string set \<Rightarrow> int \<times> process_event list \<Rightarrow> bool" where
  "orderly msgs res \<longleftrightarrow>
     (case res of (code, evs) \<Rightarrow>
        set (errors_logged evs) \<subseteq> msgs \<and>
        ((code = 0 \<and> errors_logged evs = []) \<or> (code = 1 \<and> errors_logged evs \<noteq> [])))"

lemma trace_simps [simp]:
  "errors_logged [] = []" "errors_logged (ErrorLogged m # evs) = m # errors_logged evs"
  "(\<And>m. ev \<noteq> ErrorLogged m) \<Longrightarrow> errors_logged (ev # evs) = errors_logged evs"
  "errors_logged (xs @ ys) = errors_logged xs @ errors_logged ys"
  "resources [] = []" "resources (xs @ ys) = resources xs @ resources ys"
  "resources (ev # evs) = (if is_pool_event ev \<or> is_listener_event ev then ev # resources evs else resources evs)"
  by (auto simp: errors_logged_def resources_def List.map_filter_def split: process_event.splits)

lemma orderly_exit [simp]:
  "orderly msgs (0, [])" "m \<in> msgs \<Longrightarrow> orderly msgs (1, [ErrorLogged m])"
  by (simp_all add: orderly_def)

text \<open>A process that has run: it returned, in order, with nothing left open.\<close>

definition ended_well :: "string set \<Rightarrow> process_event list set \<Rightarrow> process_result \<Rightarrow> bool" where
  "ended_well msgs traces res \<longleftrightarrow> (\<exists>code evs. res = Some (code, evs) \<and> orderly msgs (code, evs) \<and> resources evs \<in> traces)"

declare exit_with_def [process_defs] after_event_def [process_defs] deferred_def [process_defs] orderly_def [process_defs]
  ended_well_def [process_defs] is_pool_event_def [process_defs] is_listener_event_def [process_defs]

lemma ended_well_exit [simp]:
  "ended_well msgs traces (exit_with 0 []) \<longleftrightarrow> [] \<in> traces"
  "m \<in> msgs \<Longrightarrow> ended_well msgs traces (exit_with 1 [ErrorLogged m]) \<longleftrightarrow> [] \<in> traces"
  by (simp_all add: ended_well_def exit_with_def is_pool_event_def is_listener_event_def)

lemma ended_well_mono: "ended_well msgs traces res \<Longrightarrow> msgs \<subseteq> msgs' \<Longrightarrow> traces \<subseteq> traces' \<Longrightarrow> ended_well msgs' traces' res"
  unfolding ended_well_def orderly_def by auto

lemma orderly_step:
  assumes "orderly msgs (code, evs)" "\<And>m. ev \<noteq> ErrorLogged m" "\<And>m. ev' \<noteq> ErrorLogged m"
  shows "orderly msgs (code, ev # evs @ [ev'])"
  using assms by (auto simp: orderly_def)

lemma ended_well_around:
  assumes "ended_well msgs traces res" "\<And>m. ev \<noteq> ErrorLogged m" "\<And>m. ev' \<noteq> ErrorLogged m"
    "is_pool_event ev \<or> is_listener_event ev" "is_pool_event ev' \<or> is_listener_event ev'"
  shows "ended_well msgs ((\<lambda>t. ev # t @ [ev']) ` traces) (after_event ev (deferred ev' res))"
  using assms orderly_step unfolding ended_well_def by (fastforce simp: after_event_def deferred_def)

definition pool_traces :: "process_event list set" where
  "pool_traces = {[], [PoolOpened, PoolClosed], [PoolOpened, ListenerOpened, ListenerClosed, PoolClosed]}"

lemma with_database_ended:
  assumes "\<And>dbPool. ended_well msgs {[], [ListenerOpened, ListenerClosed]} (body dbPool)"
    and "{''open postgres pool'', ''ping postgres''} \<subseteq> msgs"
  shows "ended_well msgs pool_traces (with_database env dbcfg body)"
proof (cases "OpenPool (pe_parse env) (pe_open env) (db_URL dbcfg)")
  case (Inl err)
  with assms(2) show ?thesis by (simp add: with_database_def pool_traces_def)
next
  case (Inr dbPool)
  let ?rest = "case Ping (pe_ping env) (Some dbPool) of
      Some err \<Rightarrow> if is_ctx_error (pe_ctx env 2) err then exit_with 0 [] else exit_with 1 [ErrorLogged ''ping postgres'']
    | None \<Rightarrow> body dbPool"
  have "ended_well msgs {[], [ListenerOpened, ListenerClosed]} ?rest"
    using assms by (auto split: option.splits)
  from ended_well_around[OF this, of PoolOpened PoolClosed] Inr show ?thesis
    by (auto simp: with_database_def pool_traces_def is_pool_event_def intro: ended_well_mono)
qed

lemma with_listener_ended:
  assumes "ended_well msgs {[]} body" "msg \<in> msgs"
  shows "ended_well msgs {[], [ListenerOpened, ListenerClosed]} (with_listener env server msg body)"
proof (cases "ctx_err (pe_ctx env 3) = None \<and> pe_listen env (srv_Addr server) = None")
  case True
  have "ended_well msgs {[]} (if ctx_err (pe_ctx env 4) \<noteq> None then exit_with 0 [] else body)" using assms(1) by simp
  from ended_well_around[OF this, of ListenerOpened ListenerClosed] True show ?thesis
    by (auto simp: with_listener_def is_listener_event_def intro: ended_well_mono)
next
  case False
  with assms(2) show ?thesis by (auto simp: with_listener_def split: option.splits)
qed

section \<open>A sample\<close>

text \<open>A registry that keeps the list of its collectors, and an environment with the defaults.\<close>

definition list_register :: "collector list registerer" where
  "list_register c reg =
     (if \<not> collector_valid c then (Some (Plain ''descriptor is invalid''), reg)
      else if list_ex (clashes c) reg then (Some (Plain ''duplicate metrics collector registration attempted''), reg)
      else (None, c # reg))"

lemma list_registry: "registry_law list_register (\<lambda>reg. reg)"
  by (auto simp: registry_law_def list_register_def list_ex_iff list_all_iff)

definition sample_process :: "(unit, unit, collector list) process_env" where
  "sample_process = \<lparr>pe_lookup = (\<lambda>_. None), pe_ctx = (\<lambda>_. Live), pe_parse = (\<lambda>_. Inr ()), pe_open = (\<lambda>_. Inr ()),
     pe_ping = (\<lambda>_. None), pe_register = list_register, pe_registry = [], pe_listen = (\<lambda>_. None)\<rparr>"

end
