(* ===== verification/Cmd_Api.thy ===== *)
theory Cmd_Api
  imports Cmd_Process
begin

text \<open>
  \<^verbatim>\<open>cmd/api/main.go\<close>: the API process, from the environment variables to the exit code, and how its
  parts are put together.
\<close>

section \<open>The program\<close>

text \<open>What the end of the API process depends on: which case of the \<^verbatim>\<open>select\<close> is taken, what
  \<^verbatim>\<open>Serve\<close> returns, if it does, and what \<^verbatim>\<open>Shutdown\<close> and \<^verbatim>\<open>Close\<close> return.\<close>

record ('c, 'p, 'r) api_env = "('c, 'p, 'r) process_env" +
  ae_ctx_first :: bool
  ae_serve :: "goerror option option"
  ae_shutdown :: "goerror option"
  ae_close :: "goerror option"

definition api_newLogger :: "APIConfig \<Rightarrow> logger" where
  "api_newLogger cfg = \<lparr>lg_level = log_Level (api_Log cfg),
     lg_attrs = [(''service'', api_ServiceName cfg), (''env'', api_AppEnv cfg)]\<rparr>"

definition stopHTTPServer ::
  "goerror option \<Rightarrow> goerror option \<Rightarrow> goerror option option \<Rightarrow> (goerror option \<times> process_event list) option" where
  "stopHTTPServer shutdown close serveResult =
     (let shutdownErr = shutdown;
          closeErr = (if shutdownErr \<noteq> None then close else None);
          evs = ServerShutdown # (if shutdownErr \<noteq> None then [ServerClosed] else [])
      in case serveResult of
           None \<Rightarrow> None
         | Some serverErr \<Rightarrow>
             Some (errors_join
               [map_option (Wrapf ''graceful http server shutdown: %w'') shutdownErr,
                map_option (Wrapf ''force close http server: %w'') closeErr,
                map_option (Wrapf ''http server stopped: %w'') serverErr], evs))"

text \<open>The checks of the API server; the ping sees the state of the process.\<close>

definition api_checks :: "('p \<Rightarrow> 's \<Rightarrow> goerror option) \<Rightarrow> 'p \<Rightarrow> 's Check list" where
  "api_checks ping dbPool = [\<lparr>ck_Name = ''postgres'', ck_Check = Some (\<lambda>s. Ping (\<lambda>p. ping p s) (Some dbPool))\<rparr>]"

text \<open>The observability of the API server; \<open>promhttp\<close> is the library's handler for the registry.\<close>

definition api_observability :: "('s, http_event) handler \<Rightarrow> 's ServerObservability" where
  "api_observability promhttp = \<lparr>so_MetricsHandler = Some (metrics_Handler promhttp), so_RequestObserver = True,
     so_RewardClaimObserver = True\<rparr>"

text \<open>From the registry to the server: each step may fail with the message that is logged.\<close>

definition api_build :: "('c, 'p, 'r, 'z) process_env_scheme \<Rightarrow> APIConfig \<Rightarrow> 'p \<Rightarrow> string + http_server" where
  "api_build env cfg dbPool =
     (case NewRegistry (pe_register env) (pe_registry env) of
        (Inl err, reg) \<Rightarrow> Inl ''create metrics registry''
      | (Inr _, reg) \<Rightarrow>
     (case NewHTTPMetrics (Some (pe_register env)) reg of
        (Inl err, reg1) \<Rightarrow> Inl ''register HTTP metrics''
      | (Inr httpMetrics, reg1) \<Rightarrow>
     (case NewRewardMetrics (Some (pe_register env)) reg1 of
        (Inl err, reg2) \<Rightarrow> Inl ''register reward metrics''
      | (Inr rewardMetrics, reg2) \<Rightarrow>
     (case NewService (Some dbPool) (db_QueryTimeout (api_Database cfg)) of
        Inl err \<Rightarrow> Inl ''create reward claim service''
      | Inr rewardService \<Rightarrow>
     (case NewServer (api_HTTP cfg) True True of
        Inl err \<Rightarrow> Inl ''create HTTP server''
      | Inr server \<Rightarrow> Inr server)))))"

text \<open>The \<^verbatim>\<open>select\<close> at the end.\<close>

definition api_serve :: "('c, 'p, 'r) api_env \<Rightarrow> process_result" where
  "api_serve env =
     after_event (Started ''http server'')
       (if ae_ctx_first env then
          (case stopHTTPServer (ae_shutdown env) (ae_close env) (map_option serve_result (ae_serve env)) of
             None \<Rightarrow> None
           | Some (Some err, evs) \<Rightarrow> exit_with 1 (ShutdownRequested # evs @ [ErrorLogged ''http server shutdown failed''])
           | Some (None, evs) \<Rightarrow> exit_with 0 (ShutdownRequested # evs))
        else (case map_option serve_result (ae_serve env) of
             None \<Rightarrow> None
           | Some (Some err) \<Rightarrow> exit_with 1 [ErrorLogged ''http server failed'']
           | Some None \<Rightarrow> exit_with 0 []))"

definition api_run :: "('c, 'p, 'r) api_env \<Rightarrow> process_result" where
  "api_run env =
     (if ctx_err (pe_ctx env 0) \<noteq> None then exit_with 0 []
      else (case LoadAPI (pe_lookup env) of
          Inl err \<Rightarrow> exit_with 1 [ErrorLogged ''load config'']
        | Inr cfg \<Rightarrow>
            with_database env (api_Database cfg) (\<lambda>dbPool.
              case api_build env cfg dbPool of
                Inl msg \<Rightarrow> exit_with 1 [ErrorLogged msg]
              | Inr server \<Rightarrow> with_listener env server ''listen on http address'' (api_serve env))))"

section \<open>Facts\<close>

lemma api_build_ok:
  assumes "registry_law (pe_register env) contents" "contents (pe_registry env) = []" "api_settings (pe_lookup env) cfg"
  obtains server where "api_build env cfg dbPool = Inr server" "NewServer (api_HTTP cfg) True True = Inr server"
proof -
  obtain reg where reg: "NewRegistry (pe_register env) (pe_registry env) = (Inr (), reg)" "contents reg = [ProcessCollector, GoCollector]"
    using NewRegistry_ok[OF assms(1,2)] .
  obtain reg1 where reg1: "NewHTTPMetrics (Some (pe_register env)) reg = (Inr newHTTPMetrics, reg1)"
    "contents reg1 = rev (map VecCollector [hm_requests newHTTPMetrics, hm_duration newHTTPMetrics]) @ [ProcessCollector, GoCollector]"
    using NewHTTPMetrics_ok[OF assms(1) reg(2)] .
  have "\<exists>reg2. register (Some (pe_register env)) [rm_claims newRewardMetrics, rm_idempotency newRewardMetrics] reg1 = (None, reg2) \<and>
      contents reg2 = rev (map VecCollector [rm_claims newRewardMetrics, rm_idempotency newRewardMetrics]) @ contents reg1"
    by (rule register_vecs[OF assms(1)]) (simp add: reg1(2) metric_defs vec_valid_defs)
  then obtain reg2 where reg2: "NewRewardMetrics (Some (pe_register env)) reg1 = (Inr newRewardMetrics, reg2)"
    by (auto simp: NewRewardMetrics_def Let_def)
  have "positive64 (db_QueryTimeout (api_Database cfg))"
    using assms(3) by (auto simp: api_settings_def intro: reads_database_positive)
  then have "NewService (Some dbPool) (db_QueryTimeout (api_Database cfg)) = Inr (dbPool, db_QueryTimeout (api_Database cfg))"
    by (simp add: NewService_def positive64_def)
  moreover obtain server where "NewServer (api_HTTP cfg) True True = Inr server" by (simp add: NewServer_def)
  ultimately show ?thesis
    using that reg reg1 reg2 by (simp add: api_build_def)
qed

text \<open>The metrics handler leaves the headers of the middleware alone when the library's does.\<close>

lemma polite_metrics: "polite promhttp \<Longrightarrow> polite (metrics_Handler promhttp)"
  by (auto simp: polite_def metrics_Handler_def respond_def http_Error_def polite_calls_def protected_headers_def plain_call_def
      spares_def informational_def split: if_splits)

definition api_errors :: "string set" where
  "api_errors = {''load config'', ''open postgres pool'', ''ping postgres'', ''listen on http address'', ''http server failed'',
     ''http server shutdown failed''}"

lemma stopHTTPServer_events:
  "stopHTTPServer shutdown close res = Some (err, evs) \<Longrightarrow> resources evs = [] \<and> errors_logged evs = []"
  by (auto simp: stopHTTPServer_def Let_def process_defs split: option.splits)

lemma api_serve_ended:
  assumes "ae_serve env \<noteq> None"
  shows "ended_well api_errors {[]} (api_serve env)"
proof (cases "ae_ctx_first env")
  case True
  from assms obtain err evs where stop: "stopHTTPServer (ae_shutdown env) (ae_close env) (map_option serve_result (ae_serve env)) = Some (err, evs)"
    by (auto simp: stopHTTPServer_def Let_def)
  with stopHTTPServer_events[OF stop] True show ?thesis
    by (cases err) (auto simp: api_serve_def process_defs api_errors_def)
next
  case False
  with assms show ?thesis
    by (auto simp: api_serve_def process_defs api_errors_def split: option.splits)
qed

section \<open>Properties\<close>

text \<open>C37. The API process from start to exit, for every environment: it returns; it exits with 1 exactly when it has
  logged an error and with 0 otherwise; the pool and the listener, if they were opened, are closed, in reverse
  order; and the only errors it can end with are those of the configuration, the database, the network and the server
  itself: a configuration that loads is always one from which the metrics, the service and the server can be built.
  The registry accepts collectors it has not seen, and \<^verbatim>\<open>Serve\<close> returns once the server is shut
  down.\<close>

theorem api_run_ends:
  assumes "registry_law (pe_register env) contents" "contents (pe_registry env) = []" "ae_serve env \<noteq> None"
  shows "ended_well api_errors pool_traces (api_run env)"
proof (cases "ctx_err (pe_ctx env 0) = None")
  case True
  show ?thesis
  proof (cases "LoadAPI (pe_lookup env)")
    case (Inl err)
    with True show ?thesis by (simp add: api_run_def api_errors_def pool_traces_def)
  next
    case (Inr cfg)
    then have settings: "api_settings (pe_lookup env) cfg" by (simp add: LoadAPI_iff)
    have "ended_well api_errors {[], [ListenerOpened, ListenerClosed]}
        (case api_build env cfg dbPool of Inl msg \<Rightarrow> exit_with 1 [ErrorLogged msg]
         | Inr server \<Rightarrow> with_listener env server ''listen on http address'' (api_serve env))" for dbPool
    proof -
      obtain server where "api_build env cfg dbPool = Inr server" using api_build_ok[OF assms(1,2) settings] .
      moreover have "''listen on http address'' \<in> api_errors" by (simp add: api_errors_def)
      ultimately show ?thesis using with_listener_ended[OF api_serve_ended[OF assms(3)], of "''listen on http address''" env] by simp
    qed
    from with_database_ended[OF this] True Inr show ?thesis by (simp add: api_run_def api_errors_def)
  qed
qed (simp add: api_run_def pool_traces_def)

definition sample_api :: "(unit, unit, collector list) api_env" where
  "sample_api = process_env.extend sample_process
     (api_env.fields True (Some (Some (Sentinel ErrServerClosed))) None None)"

theorem api_run_ends_witness:
  "ended_well api_errors pool_traces (api_run sample_api) \<and> map_option fst (api_run sample_api) = Some 0"
proof
  show "ended_well api_errors pool_traces (api_run sample_api)"
    by (rule api_run_ends[where contents = "\<lambda>reg. reg"])
       (simp_all add: sample_api_def sample_process_def process_env.defs api_env.defs list_registry)
  show "map_option fst (api_run sample_api) = Some 0" by code_simp
qed

end
