(* ===== verification/Admin_Http.thy ===== *)
theory Admin_Http
  imports Http_Serving
begin

text \<open>
  \<^verbatim>\<open>internal/adminhttp/server.go\<close>: the admin server of the worker process, which has its own
  recorder, middleware and error body. The struct of the recorder is the same as that of the API
  server. \<open>redirect\<close> is the multiplexer's answer to a path that is not clean.
\<close>

datatype admin_event =
    AdminObserveRequest go_string go_string int
  | AdminPanicLog
  | AdminRequestLog int go_string go_string int

section \<open>The status recorder\<close>

definition admin_recorder_WriteHeader :: "int \<Rightarrow> statusRecorder \<Rightarrow> panic option \<times> statusRecorder" where
  "admin_recorder_WriteHeader status r =
     (if sr_wroteHeader r then (None, r)
      else (case server_write_header status (sr_w r) of
          (Some p, w) \<Rightarrow> (Some p, r\<lparr>sr_w := w\<rparr>)
        | (None, w) \<Rightarrow> (None, r\<lparr>sr_w := w, sr_status := status, sr_wroteHeader := True\<rparr>)))"

definition admin_recorder_Write :: "go_string \<Rightarrow> statusRecorder \<Rightarrow> panic option \<times> statusRecorder" where
  "admin_recorder_Write body r =
     (let r1 = (if \<not> sr_wroteHeader r then snd (admin_recorder_WriteHeader 200 r) else r)
      in (None, r1\<lparr>sr_w := snd (server_call (WriteBody body) (sr_w r1))\<rparr>))"

fun admin_recorder_call :: "writer_call \<Rightarrow> statusRecorder \<Rightarrow> panic option \<times> statusRecorder" where
  "admin_recorder_call (WriteHeader status) r = admin_recorder_WriteHeader status r"
| "admin_recorder_call (WriteBody body) r = admin_recorder_Write body r"
| "admin_recorder_call c r = (None, r\<lparr>sr_w := snd (server_call c (sr_w r))\<rparr>)"

section \<open>Handlers and middleware\<close>

text \<open>The error body is a Go map; the encoder prints its keys in order.\<close>

definition admin_writeError :: "int \<Rightarrow> go_string \<Rightarrow> go_string \<Rightarrow> writer_call list" where
  "admin_writeError status code message =
     [SetHeader ''Content-Type'' ''application/json'', WriteHeader status,
      WriteBody (json_encode (JObject [(''error'',
        json_map [''code'', ''message''] [''code'' \<mapsto> code, ''message'' \<mapsto> message])]))]"

definition admin_notFound :: "('s, 'e) handler" where
  "admin_notFound r s = respond (admin_writeError 404 ''not_found'' ''Not found'') [] s"

definition admin_routeName :: "request \<Rightarrow> go_string" where
  "admin_routeName r =
     (if rq_path r = ''/livez'' \<or> rq_path r = ''/readyz'' \<or> rq_path r = ''/metrics'' then rq_path r else ''unknown'')"

definition admin_handleRecoveredPanic :: "panic option \<Rightarrow> statusRecorder \<Rightarrow> bool \<times> statusRecorder \<times> admin_event list" where
  "admin_handleRecoveredPanic recovered recorder =
     (case recovered of
        None \<Rightarrow> (False, recorder, [])
      | Some p \<Rightarrow>
          if p = ErrAbortHandler then (True, recorder\<lparr>sr_status := 0\<rparr>, [])
          else if sr_wroteHeader recorder then (True, recorder\<lparr>sr_status := 0\<rparr>, [AdminPanicLog])
          else (False,
            snd (run_calls admin_recorder_call
              (DelHeader ''Content-Length'' # admin_writeError 500 ''internal_error'' ''Internal server error'') recorder),
            [AdminPanicLog]))"

text \<open>The deferred function of \<^verbatim>\<open>requestLogger\<close>; the first argument says whether there is an observer.\<close>

definition admin_finish_request ::
  "bool \<Rightarrow> request \<Rightarrow> panic option \<Rightarrow> statusRecorder \<Rightarrow> panic option \<times> statusRecorder \<times> admin_event list" where
  "admin_finish_request observer r recovered recorder0 =
     (let (abort, recorder, logged) = admin_handleRecoveredPanic recovered recorder0;
          route = admin_routeName r;
          observed = (if observer then [AdminObserveRequest route (rq_method r) (sr_status recorder)] else []);
          level = (if sr_status recorder \<ge> 400 then LevelWarn else LevelDebug)
      in (if abort then Some ErrAbortHandler else None, recorder,
          logged @ observed @ [AdminRequestLog level (rq_method r) route (sr_status recorder)]))"

definition admin_requestLogger ::
  "bool \<Rightarrow> ('s, admin_event) handler \<Rightarrow> request \<Rightarrow> 's \<Rightarrow> ResponseWriter \<Rightarrow> ('s, admin_event) served option" where
  "admin_requestLogger observer hnd r s w =
     (case hnd r s of
        None \<Rightarrow> None
      | Some out \<Rightarrow>
          (let (panicked, recorder) = run_calls admin_recorder_call (out_calls out) \<lparr>sr_w = w, sr_status = 200, sr_wroteHeader = False\<rparr>;
               recovered = (case panicked of Some p \<Rightarrow> Some p | None \<Rightarrow> out_panic out);
               (panic, recorder', events) = admin_finish_request observer r recovered recorder
           in Some \<lparr>sv_writer = sr_w recorder', sv_events = out_events out @ events, sv_panic = panic,
                sv_state = out_state out\<rparr>))"

text \<open>\<^verbatim>\<open>secureHeaders\<close> stands outside the logger here: it sets its headers on the server's writer.\<close>

definition admin_secureHeaders ::
  "(request \<Rightarrow> 's \<Rightarrow> ResponseWriter \<Rightarrow> ('s, admin_event) served option) \<Rightarrow>
     request \<Rightarrow> 's \<Rightarrow> ResponseWriter \<Rightarrow> ('s, admin_event) served option" where
  "admin_secureHeaders hnd r s w =
     hnd r s (snd (run_calls server_call
       [SetHeader ''X-Content-Type-Options'' ''nosniff'', SetHeader ''Referrer-Policy'' ''no-referrer''] w))"

definition admin_middleware ::
  "bool \<Rightarrow> ('s, admin_event) handler \<Rightarrow> request \<Rightarrow> 's \<Rightarrow> ResponseWriter \<Rightarrow> ('s, admin_event) served option" where
  "admin_middleware observer hnd = admin_secureHeaders (admin_requestLogger observer hnd)"

definition admin_patterns :: "bool \<Rightarrow> go_string list" where
  "admin_patterns has_metrics = [''/livez'', ''/readyz''] @ (if has_metrics then [''/metrics''] else [])"

definition admin_mux ::
  "('s, admin_event) handler option \<Rightarrow> 's Check list \<Rightarrow> ('s, admin_event) handler \<Rightarrow> ('s, admin_event) handler" where
  "admin_mux metricsHandler checks redirect r s =
     (case mux_target_of (admin_patterns (metricsHandler \<noteq> None)) r of
        MuxRedirect \<Rightarrow> redirect r s
      | MuxFallback \<Rightarrow> admin_notFound r s
      | MuxPattern p \<Rightarrow>
          if p = ''/livez'' then LiveHandler r s
          else if p = ''/readyz'' then ReadyHandler checks r s
          else (case metricsHandler of Some h \<Rightarrow> h r s | None \<Rightarrow> admin_notFound r s))"

text \<open>\<^verbatim>\<open>NewServer\<close>: the settings and the handler.\<close>

definition admin_NewServer ::
  "HTTPConfig \<Rightarrow> ('s, admin_event) handler option \<Rightarrow> bool \<Rightarrow> 's Check list \<Rightarrow> ('s, admin_event) handler \<Rightarrow>
     http_server \<times> (request \<Rightarrow> 's \<Rightarrow> ResponseWriter \<Rightarrow> ('s, admin_event) served option)" where
  "admin_NewServer cfg metricsHandler observer checks redirect =
     (\<lparr>srv_Addr = http_Addr cfg, srv_ReadTimeout = http_ReadTimeout cfg, srv_ReadHeaderTimeout = http_ReadHeaderTimeout cfg,
        srv_WriteTimeout = http_WriteTimeout cfg, srv_IdleTimeout = http_IdleTimeout cfg,
        srv_MaxHeaderBytes = 32 * 1024, srv_MaxHeaderValueCount = 500\<rparr>,
      admin_middleware observer (admin_mux metricsHandler checks redirect))"

section \<open>What the server sends and records\<close>

interpretation admin_recorder: status_recorder admin_recorder_call
proof
  fix rec :: statusRecorder and c p rec'
  assume step: "in_step rec" and plain: "plain_call c" and call: "admin_recorder_call c rec = (p, rec')"
  show "server_call c (sr_w rec) = (p, sr_w rec')" "in_step rec'" "\<not> sr_wroteHeader rec' \<Longrightarrow> sr_status rec' = sr_status rec"
    using step plain call
    by (cases c; auto simp: in_step_def plain_call_def admin_recorder_WriteHeader_def admin_recorder_Write_def server_write_header_def
        Let_def split: option.splits if_splits prod.splits)+
qed

text \<open>Both servers write the same error bodies.\<close>

lemma admin_writeError_same: "admin_writeError status code message = writeError status code message"
proof -
  have "sort (remdups [''code'', ''message'']) = [''code'', ''message'']" by code_simp
  then show ?thesis by (simp add: admin_writeError_def writeError_def writeJSON_def errorResponse_def json_map_def)
qed

definition admin_panic_log :: "panic option \<Rightarrow> admin_event list" where
  "admin_panic_log recovered = (case recovered of Some (OtherPanic x) \<Rightarrow> [AdminPanicLog] | _ \<Rightarrow> [])"

lemma error_calls_plain: "list_all plain_call (DelHeader ''Content-Length'' # writeError 500 code msg)"
  by (simp add: plain_call_def writeError_def writeJSON_def informational_def)

lemma admin_recovered_end:
  assumes step: "in_step rec" and fresh: "\<not> sr_wroteHeader rec \<Longrightarrow> sr_status rec = 200"
    and hp: "admin_handleRecoveredPanic recovered rec = (abort, rec', logged)"
  shows "reference_end recovered (sr_w rec) = (if abort then Some ErrAbortHandler else None, sr_w rec')"
    and "sr_status rec' = (if abort then 0 else the_status Live (sr_w rec'))"
    and "logged = admin_panic_log recovered"
proof -
  let ?cs = "DelHeader ''Content-Length'' # writeError 500 ''internal_error'' ''Internal server error''"
  obtain q rec2 where run: "run_calls admin_recorder_call ?cs rec = (q, rec2)" by fastforce
  note tr = admin_recorder.run_transparent[OF step error_calls_plain run]
  have wrote: "sr_wroteHeader rec \<longleftrightarrow> rw_sent (sr_w rec) \<noteq> None" using step by (auto simp: in_step_def split: option.splits)
  have status: "sr_status v = the_status Live (sr_w v)" if "in_step v" "\<not> sr_wroteHeader v \<Longrightarrow> sr_status v = 200" for v
    using that by (auto simp: in_step_def the_status_def split: option.splits)
  have rec2: "sr_status rec2 = the_status Live (sr_w rec2)" if "\<not> sr_wroteHeader rec"
    using tr fresh that status by simp
  show "reference_end recovered (sr_w rec) = (if abort then Some ErrAbortHandler else None, sr_w rec')"
    and "sr_status rec' = (if abort then 0 else the_status Live (sr_w rec'))"
    and "logged = admin_panic_log recovered"
    using hp tr run wrote rec2 status[OF step fresh]
    by (auto simp: admin_handleRecoveredPanic_def reference_end_def admin_panic_log_def admin_writeError_same
        split: option.splits panic.splits if_splits)
qed

text \<open>What the observer and the log are told of a status.\<close>

definition admin_records :: "bool \<Rightarrow> request \<Rightarrow> int \<Rightarrow> admin_event list" where
  "admin_records observer r st =
     (if observer then [AdminObserveRequest (admin_routeName r) (rq_method r) st] else []) @
     [AdminRequestLog (if st \<ge> 400 then LevelWarn else LevelDebug) (rq_method r) (admin_routeName r) st]"

lemma admin_requestLogger_spec:
  assumes out: "hnd r s = Some out" and plain: "list_all plain_call (out_calls out)" and new: "rw_sent w = None"
    and serve: "reference_serve (out_calls out) (out_panic out) w = (panic, w')"
  shows "admin_requestLogger observer hnd r s w = Some \<lparr>sv_writer = w',
    sv_events = out_events out @ admin_panic_log (recovered_from (out_calls out) (out_panic out) w) @
      admin_records observer r (if panic = None then the_status Live w' else 0),
    sv_panic = panic, sv_state = out_state out\<rparr>"
proof -
  obtain q rec where run: "run_calls admin_recorder_call (out_calls out) \<lparr>sr_w = w, sr_status = 200, sr_wroteHeader = False\<rparr> = (q, rec)"
    by fastforce
  have step: "in_step \<lparr>sr_w = w, sr_status = 200, sr_wroteHeader = False\<rparr>" using new by (simp add: in_step_def)
  note tr = admin_recorder.run_transparent[OF step plain run]
  define recovered where "recovered = (case q of Some p \<Rightarrow> Some p | None \<Rightarrow> out_panic out)"
  obtain abort rec' logged where hp: "admin_handleRecoveredPanic recovered rec = (abort, rec', logged)" by (metis prod_cases3)
  have srv: "run_calls server_call (out_calls out) w = (q, sr_w rec)" using tr by simp
  then have rf: "recovered_from (out_calls out) (out_panic out) w = recovered" by (simp add: recovered_from_def recovered_def)
  have "reference_end recovered (sr_w rec) = (panic, w')"
    using serve srv by (simp add: reference_serve_def recovered_def split: option.splits)
  with admin_recovered_end[OF _ _ hp] tr
  have "panic = (if abort then Some ErrAbortHandler else None)" "sr_w rec' = w'" "logged = admin_panic_log recovered"
    "sr_status rec' = (if abort then 0 else the_status Live w')" by auto
  then show ?thesis
    using out run hp rf
    by (auto simp: admin_requestLogger_def admin_finish_request_def recovered_def[symmetric] admin_records_def Let_def)
qed

definition admin_headers :: "writer_call list" where
  "admin_headers = [SetHeader ''X-Content-Type-Options'' ''nosniff'', SetHeader ''Referrer-Policy'' ''no-referrer'']"

lemma admin_middleware_spec:
  assumes out: "hnd r s = Some out" and plain: "list_all plain_call (out_calls out)" and new: "rw_sent w = None"
    and serve: "reference_serve (admin_headers @ out_calls out) (out_panic out) w = (panic, w')"
  shows "admin_middleware observer hnd r s w = Some \<lparr>sv_writer = w',
    sv_events = out_events out @ admin_panic_log (recovered_from (admin_headers @ out_calls out) (out_panic out) w) @
      admin_records observer r (if panic = None then the_status Live w' else 0),
    sv_panic = panic, sv_state = out_state out\<rparr>"
proof -
  let ?w = "snd (run_calls server_call admin_headers w)"
  have "rw_sent ?w = None" using new by (simp add: admin_headers_def)
  moreover have "reference_serve (out_calls out) (out_panic out) ?w = (panic, w')"
    using serve by (simp add: reference_serve_def admin_headers_def)
  moreover have "recovered_from (admin_headers @ out_calls out) (out_panic out) w = recovered_from (out_calls out) (out_panic out) ?w"
    by (simp add: recovered_from_def admin_headers_def)
  ultimately show ?thesis
    using admin_requestLogger_spec[where hnd = hnd, OF out plain, of ?w panic w' observer]
    by (simp add: admin_middleware_def admin_secureHeaders_def admin_headers_def)
qed

lemma admin_route:
  assumes "rq_escaped_path r = path" "path = ''/livez'' \<or> path = ''/readyz''"
  shows "mux_target_of (admin_patterns b) r = MuxPattern path"
proof -
  have "clean_path ''/livez'' = ''/livez''" "clean_path ''/readyz'' = ''/readyz''"
    "mux_match (admin_patterns True) ''/livez'' = MuxPattern ''/livez''" "mux_match (admin_patterns False) ''/livez'' = MuxPattern ''/livez''"
    "mux_match (admin_patterns True) ''/readyz'' = MuxPattern ''/readyz''" "mux_match (admin_patterns False) ''/readyz'' = MuxPattern ''/readyz''"
    by code_simp+
  with assms show ?thesis by (cases b) (auto simp: mux_target_of_def)
qed

lemma admin_json:
  assumes hnd: "hnd r s = respond (json_response [] st body) [] s" and "final_status st"
  shows "admin_middleware observer hnd r s empty_writer = Some \<lparr>
    sv_writer = snd (run_calls server_call (admin_headers @ json_response [] st body) empty_writer),
    sv_events = admin_records observer r st, sv_panic = None, sv_state = s\<rparr> \<and>
    rw_sent (snd (run_calls server_call (admin_headers @ json_response [] st body) empty_writer)) =
      Some (st, (\<lambda>_. [])(''X-Content-Type-Options'' := [''nosniff''], ''Referrer-Policy'' := [''no-referrer''],
        ''Content-Type'' := [''application/json''])) \<and>
    rw_body (snd (run_calls server_call (admin_headers @ json_response [] st body) empty_writer)) = body"
proof -
  let ?out = "\<lparr>out_calls = json_response [] st body, out_events = [], out_panic = None, out_state = s\<rparr>"
  obtain v where v: "run_calls server_call admin_headers empty_writer = (None, v)" "rw_sent v = None" "rw_body v = []"
    "rw_header v = (\<lambda>_. [])(''X-Content-Type-Options'' := [''nosniff''], ''Referrer-Policy'' := [''no-referrer''])"
    by (rule that[of "empty_writer\<lparr>rw_header := (\<lambda>_. [])(''X-Content-Type-Options'' := [''nosniff''],
        ''Referrer-Policy'' := [''no-referrer''])\<rparr>"]) (simp_all add: admin_headers_def empty_writer_def)
  obtain v' where v': "run_calls server_call (admin_headers @ json_response [] st body) empty_writer = (None, v')"
    "rw_sent v' = Some (st, (rw_header v)(''Content-Type'' := [''application/json'']))" "rw_body v' = body"
    using run_json_response[OF v(2) assms(2), of "[]" body] v(1,3) by (simp add: run_calls_append set_headers_def)
  have out: "hnd r s = Some ?out" using hnd by (simp add: respond_def)
  have plain: "list_all plain_call (out_calls ?out)"
    using assms(2) by (simp add: plain_response final_status_def)
  have serve: "reference_serve (admin_headers @ out_calls ?out) (out_panic ?out) empty_writer = (None, v')"
    by (simp add: reference_serve_def v' reference_end_def)
  have new: "rw_sent empty_writer = None" by (simp add: empty_writer_def)
  note spec = admin_middleware_spec[where hnd = hnd, OF out plain new serve, of observer]
  have "recovered_from (admin_headers @ out_calls ?out) (out_panic ?out) empty_writer = None"
    by (simp add: recovered_from_def v')
  with spec v' have "admin_middleware observer hnd r s empty_writer =
      Some \<lparr>sv_writer = v', sv_events = admin_records observer r st, sv_panic = None, sv_state = s\<rparr>"
    by (simp add: admin_panic_log_def the_status_def)
  with v' v(4) show ?thesis by simp
qed

lemma admin_probe:
  assumes "rq_method r = ''GET''" "rq_path r = ''/readyz''" "rq_escaped_path r = ''/readyz''"
    and "st = (if list_all (\<lambda>c. \<exists>f. ck_Check c = Some f \<and> f s = None) checks then 200 else 503)"
  shows "\<exists>sv body. snd (admin_NewServer cfg metricsHandler observer checks redirect) r s empty_writer = Some sv \<and>
    sv_panic sv = None \<and> sv_state sv = s \<and>
    rw_sent (sv_writer sv) = Some (st, (\<lambda>_. [])(''X-Content-Type-Options'' := [''nosniff''],
      ''Referrer-Policy'' := [''no-referrer''], ''Content-Type'' := [''application/json''])) \<and>
    rw_body (sv_writer sv) = json_encode body \<and>
    sv_events sv = (if observer then [AdminObserveRequest ''/readyz'' ''GET'' st] else []) @
      [AdminRequestLog (if st = 503 then LevelWarn else LevelDebug) ''GET'' ''/readyz'' st]"
proof -
  have failed: "list_ex (check_failed s) checks \<longleftrightarrow> \<not> list_all (\<lambda>c. \<exists>f. ck_Check c = Some f \<and> f s = None) checks"
    by (induction checks) (auto simp: check_failed_def split: option.splits)
  have hnd: "\<exists>body. admin_mux metricsHandler checks redirect r s = respond (json_response [] st (json_encode body)) [] s"
    using admin_route[OF assms(3)] ReadyHandler_get[OF assms(1), of checks s] failed assms(4)
    by (auto simp: admin_mux_def)
  then obtain body where hnd: "admin_mux metricsHandler checks redirect r s = respond (json_response [] st (json_encode body)) [] s" ..
  have "final_status st" using assms(4) by (simp add: final_status_def invalid_status_def informational_def)
  from admin_json[where hnd = "admin_mux metricsHandler checks redirect", OF hnd this] assms show ?thesis
    by (auto simp: admin_NewServer_def admin_records_def admin_routeName_def)
qed

section \<open>Properties\<close>

text \<open>C33. A readiness probe of the worker, from the admin server's multiplexer to the bytes on the connection: it is answered
  200 exactly when every check is present and succeeds, and 503 otherwise, as one JSON response with the two
  hardening headers; the state is untouched, nothing panics, and observer and log get that status,
  the log as a warning when the worker is not ready.\<close>

theorem admin_readiness:
  assumes "rq_method r = ''GET''" "rq_path r = ''/readyz''" "rq_escaped_path r = ''/readyz''"
    and "st = (if list_all (\<lambda>c. \<exists>f. ck_Check c = Some f \<and> f s = None) checks then 200 else 503)"
  shows "\<exists>sv body. snd (admin_NewServer cfg metricsHandler observer checks redirect) r s empty_writer = Some sv \<and>
    sv_panic sv = None \<and> sv_state sv = s \<and>
    rw_sent (sv_writer sv) = Some (st, (\<lambda>_. [])(''X-Content-Type-Options'' := [''nosniff''],
      ''Referrer-Policy'' := [''no-referrer''], ''Content-Type'' := [''application/json''])) \<and>
    rw_body (sv_writer sv) = json_encode body \<and>
    sv_events sv = (if observer then [AdminObserveRequest ''/readyz'' ''GET'' st] else []) @
      [AdminRequestLog (if st = 503 then LevelWarn else LevelDebug) ''GET'' ''/readyz'' st]"
  using assms by (rule admin_probe)

definition sample_admin_config :: HTTPConfig where
  "sample_admin_config = \<lparr>http_Addr = '':8081'', http_ReadTimeout = 1, http_ReadHeaderTimeout = 1, http_WriteTimeout = 1,
     http_IdleTimeout = 1\<rparr>"

definition sample_worker_check :: "bool Check" where
  "sample_worker_check = \<lparr>ck_Name = ''worker'', ck_Check = Some (\<lambda>ready. if ready then None else Some (Plain ''not running''))\<rparr>"

theorem admin_readiness_witness:
  "\<exists>sv body. snd (admin_NewServer sample_admin_config None True [sample_worker_check] admin_notFound) (probe_request ''/readyz'') False
      empty_writer = Some sv \<and> sv_panic sv = None \<and> sv_state sv = False \<and>
    rw_sent (sv_writer sv) = Some (503, (\<lambda>_. [])(''X-Content-Type-Options'' := [''nosniff''],
      ''Referrer-Policy'' := [''no-referrer''], ''Content-Type'' := [''application/json''])) \<and>
    rw_body (sv_writer sv) = json_encode body \<and>
    sv_events sv = (if True then [AdminObserveRequest ''/readyz'' ''GET'' 503] else []) @
      [AdminRequestLog (if (503 :: int) = 503 then LevelWarn else LevelDebug) ''GET'' ''/readyz'' 503]"
  by (rule admin_readiness) (simp_all add: probe_request_def sample_worker_check_def)

end
