(* ===== verification/Cmd_Worker.thy ===== *)
theory Cmd_Worker
  imports Cmd_Process Admin_Http
begin

text \<open>
  \<^verbatim>\<open>cmd/worker/main.go\<close>: the worker process, from the environment variables to the exit code, its
  shutdown, and the readiness flag that its goroutines share.

  The two goroutines send their results on a channel; which one the \<^verbatim>\<open>select\<close> statements take, and when
  the shutdown context is done, is a script. The listener and the signals are as in the API process.
\<close>

section \<open>The program\<close>

record componentResult =
  cr_name :: go_string
  cr_err :: "goerror option"

datatype stop_choice = GotResult componentResult | StopCtxDone

datatype worker_select = SignalFirst | ResultFirst componentResult

record ('c, 'p, 'r) worker_env = "('c, 'p, 'r) process_env" +
  wp_random :: "8 word list"
  wp_select :: worker_select
  wp_shutdown :: "goerror option"
  wp_stop :: "stop_choice list"

definition workerInstanceIDBytes :: nat where "workerInstanceIDBytes = 16"

definition newWorkerID :: "8 word list \<Rightarrow> go_string" where
  "newWorkerID instanceID = ''worker-'' @ hex_encode instanceID"

definition worker_newLogger :: "config_WorkerConfig \<Rightarrow> logger" where
  "worker_newLogger cfg = \<lparr>lg_level = log_Level (wk_Log cfg),
     lg_attrs = [(''service'', wk_ServiceName cfg), (''env'', wk_AppEnv cfg)]\<rparr>"

text \<open>What the goroutines send.\<close>

definition worker_component :: "goerror option \<Rightarrow> componentResult" where
  "worker_component err = \<lparr>cr_name = ''worker'', cr_err = err\<rparr>"

definition admin_component :: "goerror option \<Rightarrow> componentResult" where
  "admin_component err = \<lparr>cr_name = ''admin_server'', cr_err = serve_result err\<rparr>"

text \<open>The loop of \<^verbatim>\<open>stopComponents\<close>: the joined errors of the components, or the timeout; without a
  further event it waits.\<close>

fun stop_loop :: "nat \<Rightarrow> stop_choice list \<Rightarrow> goerror option \<Rightarrow> (goerror + goerror option) option" where
  "stop_loop 0 script componentErr = Some (Inr componentErr)"
| "stop_loop (Suc remaining) [] componentErr = None"
| "stop_loop (Suc remaining) (GotResult result # script) componentErr =
     stop_loop remaining script
       (case cr_err result of
          None \<Rightarrow> componentErr
        | Some err \<Rightarrow> errors_join [componentErr, Some (Wrapf ''%s stopped: %w'' err)])"
| "stop_loop (Suc remaining) (StopCtxDone # script) componentErr =
     Some (Inl (Wrapf ''shutdown timed out: %w'' (Sentinel DeadlineExceeded)))"

definition stopComponents ::
  "goerror option \<Rightarrow> stop_choice list \<Rightarrow> nat \<Rightarrow> (goerror option \<times> process_event list) option" where
  "stopComponents shutdown script remaining =
     (let evs = [WorkerReadyStored False, WorkerCanceled, ServerShutdown]
      in case stop_loop remaining script None of
           None \<Rightarrow> None
         | Some (Inl timeout) \<Rightarrow> Some (Some timeout, evs @ [ServerClosed])
         | Some (Inr componentErr) \<Rightarrow>
             Some (errors_join [map_option (Wrapf ''shutdown worker admin server: %w'') shutdown, componentErr], evs))"

text \<open>The configuration of the worker.\<close>

definition worker_config :: "config_WorkerConfig \<Rightarrow> go_string \<Rightarrow> WorkerConfig" where
  "worker_config cfg workerID =
     (let ob = wk_Outbox cfg
      in \<lparr>wc_WorkerID = workerID, wc_PollInterval = oc_PollInterval ob, wc_LockTTL = oc_LockTTL ob,
          wc_PublishTimeout = oc_PublishTimeout ob, wc_MaxFailures = oc_MaxFailures ob,
          wc_BaseBackoff = oc_BaseBackoff ob, wc_MaxBackoff = oc_MaxBackoff ob\<rparr>)"

text \<open>The checks of the admin server: the state holds the readiness flag.\<close>

definition worker_checks :: "('p \<Rightarrow> 's \<Rightarrow> goerror option) \<Rightarrow> ('s \<Rightarrow> bool) \<Rightarrow> 'p \<Rightarrow> 's Check list" where
  "worker_checks ping workerReady dbPool =
     [\<lparr>ck_Name = ''postgres'', ck_Check = Some (\<lambda>s. Ping (\<lambda>p. ping p s) (Some dbPool))\<rparr>,
      \<lparr>ck_Name = ''worker'', ck_Check = Some (\<lambda>s. if \<not> workerReady s then Some (Plain ''worker loop is not running'') else None)\<rparr>]"

text \<open>From the registry to the worker: each step may fail with the message that is logged. The loggers are
  never nil.\<close>

definition worker_build ::
  "('c, 'p, 'r, 'z) process_env_scheme \<Rightarrow> 8 word list \<Rightarrow> config_WorkerConfig \<Rightarrow> 'p \<Rightarrow> string + Worker" where
  "worker_build env random cfg dbPool =
     (case NewRegistry (pe_register env) (pe_registry env) of
        (Inl err, reg) \<Rightarrow> Inl ''create metrics registry''
      | (Inr _, reg) \<Rightarrow>
     (case NewHTTPMetrics (Some (pe_register env)) reg of
        (Inl err, reg1) \<Rightarrow> Inl ''register HTTP metrics''
      | (Inr httpMetrics, reg1) \<Rightarrow>
     (case NewWorkerMetrics (Some (pe_register env)) reg1 of
        (Inl err, reg2) \<Rightarrow> Inl ''register worker metrics''
      | (Inr workerMetrics, reg2) \<Rightarrow>
     (case NewPostgresStore (Some dbPool) (db_QueryTimeout (wk_Database cfg)) of
        Inl err \<Rightarrow> Inl ''create outbox store''
      | Inr store \<Rightarrow>
     (case NewLoggingPublisher (Some (worker_newLogger cfg)) of
        Inl err \<Rightarrow> Inl ''create outbox publisher''
      | Inr publisher \<Rightarrow>
     (case NewWorker True True True (worker_config cfg (newWorkerID random)) of
        Inl err \<Rightarrow> Inl ''create outbox worker''
      | Inr worker \<Rightarrow> Inr worker))))))"

text \<open>The admin server: its handler, and its settings, which do not depend on the handlers.\<close>

definition worker_admin ::
  "config_WorkerConfig \<Rightarrow> ('s, admin_event) handler \<Rightarrow> ('p \<Rightarrow> 's \<Rightarrow> goerror option) \<Rightarrow> ('s \<Rightarrow> bool) \<Rightarrow> 'p \<Rightarrow>
     ('s, admin_event) handler \<Rightarrow> http_server \<times> (request \<Rightarrow> 's \<Rightarrow> ResponseWriter \<Rightarrow> ('s, admin_event) served option)" where
  "worker_admin cfg promhttp ping workerReady dbPool redirect =
     admin_NewServer (wk_AdminHTTP cfg) (Some (metrics_Handler promhttp)) True (worker_checks ping workerReady dbPool) redirect"

definition worker_server :: "config_WorkerConfig \<Rightarrow> http_server" where
  "worker_server cfg = fst (worker_admin cfg (admin_notFound :: (unit, admin_event) handler) (\<lambda>_ _. None) (\<lambda>_. True) () admin_notFound)"

lemma worker_server_settings: "fst (worker_admin cfg promhttp ping workerReady dbPool redirect) = worker_server cfg"
  by (simp add: worker_server_def worker_admin_def admin_NewServer_def)

text \<open>After the listener: the goroutines are started, and the \<^verbatim>\<open>select\<close>.\<close>

definition worker_serve :: "('c, 'p, 'r) worker_env \<Rightarrow> process_result" where
  "worker_serve env =
     after_event (Started ''outbox worker'') (after_event (Started ''worker admin server'') (deferred WorkerCanceled
       (case wp_select env of
          SignalFirst \<Rightarrow>
            (case stopComponents (wp_shutdown env) (wp_stop env) 2 of
               None \<Rightarrow> None
             | Some (Some err, evs) \<Rightarrow> exit_with 1 (ShutdownRequested # evs @ [ErrorLogged ''worker shutdown failed''])
             | Some (None, evs) \<Rightarrow> exit_with 0 (ShutdownRequested # evs))
        | ResultFirst result \<Rightarrow>
            (case stopComponents (wp_shutdown env) (wp_stop env) 1 of
               None \<Rightarrow> None
             | Some (err, evs) \<Rightarrow> exit_with 1 ([WorkerReadyStored False, ErrorLogged ''worker component failed''] @ evs @
                 (if err \<noteq> None then [ErrorLogged ''worker component cleanup failed''] else []))))))"

definition worker_run :: "('c, 'p, 'r) worker_env \<Rightarrow> process_result" where
  "worker_run env =
     (if ctx_err (pe_ctx env 0) \<noteq> None then exit_with 0 []
      else (case LoadWorker (pe_lookup env) of
          Inl err \<Rightarrow> exit_with 1 [ErrorLogged ''load config'']
        | Inr cfg \<Rightarrow>
            with_database env (wk_Database cfg) (\<lambda>dbPool.
              case worker_build env (wp_random env) cfg dbPool of
                Inl msg \<Rightarrow> exit_with 1 [ErrorLogged msg]
              | Inr worker \<Rightarrow> with_listener env (worker_server cfg) ''listen on worker admin address'' (worker_serve env))))"

section \<open>Startup and shutdown\<close>

lemma newWorkerID_ok:
  assumes "length random = workerInstanceIDBytes"
  shows "newWorkerID random \<noteq> []" "rune_count (newWorkerID random) \<le> maxWorkerIDLength"
proof -
  have "length (newWorkerID random) = 39" using assms by (simp add: newWorkerID_def workerInstanceIDBytes_def)
  then show "newWorkerID random \<noteq> []" "rune_count (newWorkerID random) \<le> maxWorkerIDLength"
    using rune_count_le_length[of "newWorkerID random"] by (auto simp: maxWorkerIDLength_def)
qed

lemma NewWorker_config:
  assumes "LoadWorker lookup = Inr cfg" "length random = workerInstanceIDBytes"
  obtains w where "NewWorker True True True (worker_config cfg (newWorkerID random)) = Inr w"
proof -
  from assms(1) have settings: "reads_outbox lookup (wk_Outbox cfg)" "reads_database lookup (wk_Database cfg)"
    "lease_budget (wk_Outbox cfg) (db_QueryTimeout (wk_Database cfg))" "oc_BaseBackoff (wk_Outbox cfg) \<le> oc_MaxBackoff (wk_Outbox cfg)"
    by (simp_all add: LoadWorker_iff worker_settings_def)
  with reads_outbox_positive[OF settings(1)] reads_database_positive[OF settings(2)] newWorkerID_ok[OF assms(2)] that show ?thesis
    by (auto simp: NewWorker_def worker_config_def newBackoffPolicy_def positive64_def lease_budget_def Let_def)
qed

lemma worker_build_ok:
  assumes "registry_law (pe_register env) contents" "contents (pe_registry env) = []" "LoadWorker lookup = Inr cfg"
    "length random = workerInstanceIDBytes"
  obtains w where "worker_build env random cfg dbPool = Inr w"
    "NewWorker True True True (worker_config cfg (newWorkerID random)) = Inr w"
proof -
  obtain reg where reg: "NewRegistry (pe_register env) (pe_registry env) = (Inr (), reg)" "contents reg = [ProcessCollector, GoCollector]"
    using NewRegistry_ok[OF assms(1,2)] .
  obtain reg1 where reg1: "NewHTTPMetrics (Some (pe_register env)) reg = (Inr newHTTPMetrics, reg1)"
    "contents reg1 = rev (map VecCollector [hm_requests newHTTPMetrics, hm_duration newHTTPMetrics]) @ [ProcessCollector, GoCollector]"
    using NewHTTPMetrics_ok[OF assms(1) reg(2)] .
  let ?m = newWorkerMetrics
  let ?vs = "[wm_claims ?m, wm_publishAttempts ?m, wm_publishDuration ?m, wm_published ?m, wm_retries ?m, wm_deadLetters ?m,
    wm_leaseLosses ?m, wm_operationErrors ?m]"
  have "\<exists>reg2. register (Some (pe_register env)) ?vs reg1 = (None, reg2) \<and> contents reg2 = rev (map VecCollector ?vs) @ contents reg1"
    by (rule register_vecs[OF assms(1)]) (simp add: reg1(2) metric_defs vec_valid_defs)
  then obtain reg2 where reg2: "NewWorkerMetrics (Some (pe_register env)) reg1 = (Inr ?m, reg2)"
    by (auto simp: NewWorkerMetrics_def Let_def)
  from assms(3) have "reads_database lookup (wk_Database cfg)" by (simp add: LoadWorker_iff worker_settings_def)
  from reads_database_positive(2)[OF this]
  have store: "NewPostgresStore (Some dbPool) (db_QueryTimeout (wk_Database cfg)) = Inr (dbPool, db_QueryTimeout (wk_Database cfg))"
    by (simp add: NewPostgresStore_def positive64_def)
  obtain w where "NewWorker True True True (worker_config cfg (newWorkerID random)) = Inr w" using NewWorker_config[OF assms(3,4)] .
  with that reg reg1 reg2 store show ?thesis by (simp add: worker_build_def NewLoggingPublisher_def)
qed

lemma errors_join_None [simp]: "errors_join es = None \<longleftrightarrow> list_all (\<lambda>e. e = None) es"
proof -
  have "List.map_filter id es = [] \<longleftrightarrow> list_all (\<lambda>e. e = None) es"
    by (induction es) (auto simp: List.map_filter_def)
  then show ?thesis by (auto simp: errors_join_def split: list.splits)
qed

fun clean_result :: "stop_choice \<Rightarrow> bool" where
  "clean_result (GotResult r) \<longleftrightarrow> cr_err r = None"
| "clean_result StopCtxDone \<longleftrightarrow> False"

lemma stop_loop_returns:
  "n \<le> length script \<Longrightarrow> \<exists>r. stop_loop n script acc = Some r \<and> (r = Inr None \<longleftrightarrow> acc = None \<and> list_all clean_result (take n script)) \<and>
     (\<forall>e. r = Inl e \<longrightarrow> \<not> list_all clean_result (take n script))"
proof (induction n script acc rule: stop_loop.induct)
  case (3 n result script acc)
  then show ?case by (cases "cr_err result") auto
qed auto

text \<open>When the shutdown is quick enough every event is a result; otherwise the first that is not ends it.\<close>

lemma stopComponents_returns:
  assumes "n \<le> length script"
  obtains err evs where "stopComponents shutdown script n = Some (err, [WorkerReadyStored False, WorkerCanceled, ServerShutdown] @ evs)"
    "err = None \<longleftrightarrow> shutdown = None \<and> list_all clean_result (take n script)" "evs = [] \<or> evs = [ServerClosed]"
proof -
  from stop_loop_returns[OF assms, of None] obtain r where r: "stop_loop n script None = Some r"
    "r = Inr None \<longleftrightarrow> list_all clean_result (take n script)" "\<And>e. r = Inl e \<Longrightarrow> \<not> list_all clean_result (take n script)" by auto
  show ?thesis
  proof (cases r)
    case (Inl e)
    with r that show ?thesis by (simp add: stopComponents_def Let_def)
  next
    case (Inr c)
    with r that[of "errors_join [map_option (Wrapf ''shutdown worker admin server: %w'') shutdown, c]" "[]"] show ?thesis
      by (auto simp: stopComponents_def Let_def)
  qed
qed

definition worker_errors :: "string set" where
  "worker_errors = {''load config'', ''open postgres pool'', ''ping postgres'', ''listen on worker admin address'',
     ''worker shutdown failed'', ''worker component failed'', ''worker component cleanup failed''}"

lemma worker_serve_ended:
  assumes "2 \<le> length (wp_stop env)"
  shows "ended_well worker_errors {[]} (worker_serve env)"
proof (cases "wp_select env")
  case SignalFirst
  obtain err evs where "stopComponents (wp_shutdown env) (wp_stop env) 2 = Some (err, [WorkerReadyStored False, WorkerCanceled, ServerShutdown] @ evs)"
    "evs = [] \<or> evs = [ServerClosed]" using stopComponents_returns[OF assms] .
  with SignalFirst show ?thesis
    by (cases err) (auto simp: worker_serve_def process_defs worker_errors_def)
next
  case (ResultFirst result)
  from assms have "1 \<le> length (wp_stop env)" by simp
  then obtain err evs where "stopComponents (wp_shutdown env) (wp_stop env) 1 = Some (err, [WorkerReadyStored False, WorkerCanceled, ServerShutdown] @ evs)"
    "evs = [] \<or> evs = [ServerClosed]" by (rule stopComponents_returns)
  with ResultFirst show ?thesis
    by (auto simp: worker_serve_def process_defs worker_errors_def)
qed

section \<open>The readiness flag\<close>

text \<open>The flag is shared by the worker's goroutine, which sets it from the callback of \<^verbatim>\<open>Run\<close> and
  clears it at its end, and the main goroutine, which clears it before it cancels the worker. The first is at
  one of the points of its code; \<^verbatim>\<open>Run\<close> looks at its context twice before the callback.\<close>

datatype worker_pc = WBegin | WChecked | WCallback | WLoop | WReturned | WSent | WExited

datatype main_pc = MSelect | MFailed | MStop | MStored | MWait | MExit

record ready_state =
  rs_ready :: bool
  rs_canceled :: bool
  rs_worker :: worker_pc
  rs_main :: main_pc

inductive ready_step :: "ready_state \<Rightarrow> ready_state \<Rightarrow> bool" where
  first_check: "rs_worker s = WBegin \<Longrightarrow> \<not> rs_canceled s \<Longrightarrow> ready_step s (s\<lparr>rs_worker := WChecked\<rparr>)"
| second_check: "rs_worker s = WChecked \<Longrightarrow> \<not> rs_canceled s \<Longrightarrow> ready_step s (s\<lparr>rs_worker := WCallback\<rparr>)"
| ended_early: "rs_worker s \<in> {WBegin, WChecked} \<Longrightarrow> rs_canceled s \<Longrightarrow> ready_step s (s\<lparr>rs_worker := WReturned\<rparr>)"
| onStarted: "rs_worker s = WCallback \<Longrightarrow> ready_step s (s\<lparr>rs_worker := WLoop, rs_ready := True\<rparr>)"
| loop_returns: "rs_worker s = WLoop \<Longrightarrow> ready_step s (s\<lparr>rs_worker := WReturned\<rparr>)"
| sends: "rs_worker s = WReturned \<Longrightarrow> ready_step s (s\<lparr>rs_worker := WSent\<rparr>)"
| exits: "rs_worker s = WSent \<Longrightarrow> ready_step s (s\<lparr>rs_worker := WExited, rs_ready := False\<rparr>)"
| signal: "rs_main s = MSelect \<Longrightarrow> ready_step s (s\<lparr>rs_main := MStop\<rparr>)"
| admin_result: "rs_main s = MSelect \<Longrightarrow> ready_step s (s\<lparr>rs_main := MFailed\<rparr>)"
| worker_result: "rs_main s = MSelect \<Longrightarrow> rs_worker s \<in> {WSent, WExited} \<Longrightarrow> ready_step s (s\<lparr>rs_main := MFailed\<rparr>)"
| clears_after_failure: "rs_main s = MFailed \<Longrightarrow> ready_step s (s\<lparr>rs_main := MStop, rs_ready := False\<rparr>)"
| clears: "rs_main s = MStop \<Longrightarrow> ready_step s (s\<lparr>rs_main := MStored, rs_ready := False\<rparr>)"
| cancels: "rs_main s = MStored \<Longrightarrow> ready_step s (s\<lparr>rs_main := MWait, rs_canceled := True\<rparr>)"
| stopped: "rs_main s = MWait \<Longrightarrow> ready_step s (s\<lparr>rs_main := MExit\<rparr>)"

definition ready_init :: "ready_state \<Rightarrow> bool" where
  "ready_init s \<longleftrightarrow> s = \<lparr>rs_ready = False, rs_canceled = False, rs_worker = WBegin, rs_main = MSelect\<rparr>"

definition ready_inv :: "ready_state \<Rightarrow> bool" where
  "ready_inv s \<longleftrightarrow> (rs_ready s \<longrightarrow> rs_worker s \<in> {WLoop, WReturned, WSent}) \<and>
     (rs_main s = MSelect \<longrightarrow> \<not> rs_canceled s \<and> (rs_worker s \<in> {WLoop, WReturned, WSent} \<longrightarrow> rs_ready s))"

lemma ready_inv_step: "ready_step s t \<Longrightarrow> ready_inv s \<Longrightarrow> ready_inv t"
  by (induction rule: ready_step.induct) (simp_all add: ready_inv_def)

interpretation readiness: invariant_system ready_init ready_step ready_inv
  by unfold_locales (simp add: ready_init_def ready_inv_def, rule ready_inv_step)

text \<open>When the goroutine of the worker has ended, or the worker is canceled with the flag off and is not in the middle
  of its callback, the flag stays off.\<close>

definition settled_off :: "ready_state \<Rightarrow> bool" where
  "settled_off s \<longleftrightarrow> \<not> rs_ready s \<and> (rs_worker s = WExited \<or> rs_canceled s \<and> rs_worker s \<noteq> WCallback)"

lemma settled_off_step: "ready_step s t \<Longrightarrow> settled_off s \<Longrightarrow> settled_off t"
  by (induction rule: ready_step.induct) (auto simp: settled_off_def)

lemma settled_off_steps: "ready_step\<^sup>*\<^sup>* s t \<Longrightarrow> settled_off s \<Longrightarrow> settled_off t"
  by (induction rule: rtranclp_induct) (auto intro: settled_off_step)

text \<open>Before that it need not: stopComponents stores False first and cancels second, and a worker that has passed
  its second check of the context in the meantime still runs its callback. The probe then reports the worker loop
  as active while the process is shutting down, until the loop sees the cancellation.\<close>

lemma ready_after_clear:
  "\<exists>s. reach ready_init ready_step s \<and> rs_main s = MWait \<and> rs_canceled s \<and> rs_ready s"
proof -
  let ?s = "\<lparr>rs_ready = False, rs_canceled = False, rs_worker = WBegin, rs_main = MSelect\<rparr>"
  have 0: "reach ready_init ready_step ?s" by (rule reach.intros) (simp add: ready_init_def)
  have 1: "reach ready_init ready_step (?s\<lparr>rs_main := MStop\<rparr>)"
    by (rule reach.intros(2)[OF 0 ready_step.signal]) simp
  have 2: "reach ready_init ready_step (?s\<lparr>rs_main := MStored\<rparr>)"
    using reach.intros(2)[OF 1 ready_step.clears] by simp
  have 3: "reach ready_init ready_step (?s\<lparr>rs_main := MStored, rs_worker := WChecked\<rparr>)"
    using reach.intros(2)[OF 2 ready_step.first_check] by simp
  have 4: "reach ready_init ready_step (?s\<lparr>rs_main := MStored, rs_worker := WCallback\<rparr>)"
    using reach.intros(2)[OF 3 ready_step.second_check] by simp
  have 5: "reach ready_init ready_step (?s\<lparr>rs_main := MWait, rs_canceled := True, rs_worker := WCallback\<rparr>)"
    using reach.intros(2)[OF 4 ready_step.cancels] by simp
  show ?thesis using reach.intros(2)[OF 5 ready_step.onStarted] by force
qed

section \<open>Properties\<close>

text \<open>C38. The worker process from start to exit, for every environment: it returns; it exits with 1 exactly when
  it has logged an error and with 0 otherwise; pool and listener are closed in reverse order; and a configuration that
  loads is always one from which the metrics, the store, the publisher and the worker can be built, so that the only
  errors it can end with are those of the configuration, the database, the network and its two components. The
  shutdown sees two events at most: a result of each component, or the end of its timeout.\<close>

theorem worker_run_ends:
  assumes "registry_law (pe_register env) contents" "contents (pe_registry env) = []"
    "length (wp_random env) = workerInstanceIDBytes" "2 \<le> length (wp_stop env)"
  shows "ended_well worker_errors pool_traces (worker_run env)"
proof (cases "ctx_err (pe_ctx env 0) = None")
  case True
  show ?thesis
  proof (cases "LoadWorker (pe_lookup env)")
    case (Inl err)
    with True show ?thesis by (simp add: worker_run_def worker_errors_def pool_traces_def)
  next
    case (Inr cfg)
    have msg: "''listen on worker admin address'' \<in> worker_errors" by (simp add: worker_errors_def)
    have "ended_well worker_errors {[], [ListenerOpened, ListenerClosed]}
        (case worker_build env (wp_random env) cfg dbPool of Inl msg \<Rightarrow> exit_with 1 [ErrorLogged msg]
         | Inr worker \<Rightarrow> with_listener env (worker_server cfg) ''listen on worker admin address'' (worker_serve env))" for dbPool
    proof -
      obtain w where "worker_build env (wp_random env) cfg dbPool = Inr w" using worker_build_ok[OF assms(1,2) Inr assms(3)] .
      with with_listener_ended[OF worker_serve_ended[OF assms(4)] msg, of env] show ?thesis by simp
    qed
    from with_database_ended[OF this] True Inr show ?thesis by (simp add: worker_run_def worker_errors_def)
  qed
qed (simp add: worker_run_def pool_traces_def)

text \<open>C39. The shutdown of the worker process ends: whatever order the results of the components and the end of the
  timeout come in, it takes no more events than there are components left and returns. It clears the
  readiness flag and cancels the worker before anything else, and it succeeds exactly when the admin server shut
  down in order and every remaining component returned without an error before the timeout.\<close>

theorem stopComponents_terminates:
  assumes "remaining \<le> length script"
  shows "\<exists>err evs. stopComponents shutdown script remaining = Some (err, [WorkerReadyStored False, WorkerCanceled, ServerShutdown] @ evs) \<and>
    stopComponents shutdown (take remaining script) remaining = stopComponents shutdown script remaining \<and>
    (err = None \<longleftrightarrow> shutdown = None \<and> list_all clean_result (take remaining script))"
proof -
  have "stop_loop n (take n xs) acc = stop_loop n xs acc" for n xs acc
    by (induction n xs acc rule: stop_loop.induct) auto
  then have "stopComponents shutdown (take remaining script) remaining = stopComponents shutdown script remaining"
    by (simp add: stopComponents_def)
  with stopComponents_returns[OF assms] show ?thesis by metis
qed

theorem stopComponents_terminates_witness:
  "\<exists>err evs. stopComponents None [GotResult (admin_component (Some (Sentinel ErrServerClosed))), StopCtxDone] 2 =
     Some (err, [WorkerReadyStored False, WorkerCanceled, ServerShutdown] @ evs) \<and> err \<noteq> None"
  using stopComponents_terminates[of 2 "[GotResult (admin_component (Some (Sentinel ErrServerClosed))), StopCtxDone]" None]
  by (auto simp: numeral_2_eq_2)

text \<open>C40. What a readiness probe of the worker says: in every state that the interleaved goroutines can reach, the admin
  server answers 200 exactly when the database answers and the readiness flag is set, 503 otherwise, and the probe
  changes nothing. The flag is set only between the start-up callback of \<open>Run\<close> and the end of the worker's goroutine, which is
  a little later than the return of its loop; until the main goroutine has left its select, it is set during all of that time. When
  the goroutine of the worker has ended, or the worker is canceled, the flag is off and the worker is not just about to
  run its callback, then the flag is off in every later state. (Without the last condition it can still be set: see
  \<open>ready_after_clear\<close>.)\<close>

theorem worker_probe_honest:
  assumes "reach ready_init ready_step s"
    "rq_method r = ''GET''" "rq_path r = ''/readyz''" "rq_escaped_path r = ''/readyz''"
  shows "\<exists>sv st h. snd (worker_admin cfg promhttp ping rs_ready dbPool redirect) r s empty_writer = Some sv \<and>
    sv_state sv = s \<and> rw_sent (sv_writer sv) = Some (st, h) \<and> st \<in> {200, 503} \<and>
    (st = 200 \<longleftrightarrow> ping dbPool s = None \<and> rs_ready s) \<and>
    (rs_ready s \<longrightarrow> rs_worker s \<in> {WLoop, WReturned, WSent}) \<and>
    (rs_main s = MSelect \<longrightarrow> (rs_ready s \<longleftrightarrow> rs_worker s \<in> {WLoop, WReturned, WSent})) \<and>
    (rs_worker s = WExited \<or> (rs_canceled s \<and> \<not> rs_ready s \<and> rs_worker s \<noteq> WCallback) \<longrightarrow>
      (\<forall>t. ready_step\<^sup>*\<^sup>* s t \<longrightarrow> \<not> rs_ready t))"
proof -
  let ?checks = "worker_checks ping rs_ready dbPool"
  define st :: int where "st = (if list_all (\<lambda>c. \<exists>f. ck_Check c = Some f \<and> f s = None) ?checks then 200 else 503)"
  have checks: "list_all (\<lambda>c. \<exists>f. ck_Check c = Some f \<and> f s = None) ?checks \<longleftrightarrow> ping dbPool s = None \<and> rs_ready s"
    by (simp add: worker_checks_def Ping_def)
  from checks have st: "st \<in> {200, 503}" "st = 200 \<longleftrightarrow> ping dbPool s = None \<and> rs_ready s" by (auto simp: st_def)
  from admin_probe[OF assms(2-4) st_def] obtain sv h where
    "snd (worker_admin cfg promhttp ping rs_ready dbPool redirect) r s empty_writer = Some sv"
    "sv_state sv = s" "rw_sent (sv_writer sv) = Some (st, h)"
    unfolding worker_admin_def by blast
  moreover have inv: "ready_inv s" using readiness.reach_inv[OF assms(1)] .
  moreover have "\<not> rs_ready t" if "rs_worker s = WExited \<or> (rs_canceled s \<and> \<not> rs_ready s \<and> rs_worker s \<noteq> WCallback)"
      "ready_step\<^sup>*\<^sup>* s t" for t
    using settled_off_steps[OF that(2)] that(1) inv by (auto simp: settled_off_def ready_inv_def)
  ultimately show ?thesis using st unfolding ready_inv_def by blast
qed

definition sample_worker_process :: "(unit, unit, collector list) worker_env" where
  "sample_worker_process = process_env.extend sample_process
     (worker_env.fields (replicate 16 0) SignalFirst None
        [GotResult (admin_component (Some (Sentinel ErrServerClosed))), GotResult (worker_component None)])"

theorem worker_run_ends_witness:
  "ended_well worker_errors pool_traces (worker_run sample_worker_process) \<and> map_option fst (worker_run sample_worker_process) = Some 0"
proof
  show "ended_well worker_errors pool_traces (worker_run sample_worker_process)"
    by (rule worker_run_ends[where contents = "\<lambda>reg. reg"])
       (simp_all add: sample_worker_process_def sample_process_def process_env.defs worker_env.defs list_registry workerInstanceIDBytes_def)
  show "map_option fst (worker_run sample_worker_process) = Some 0" by code_simp
qed

definition polling_state :: ready_state where
  "polling_state = \<lparr>rs_ready = True, rs_canceled = False, rs_worker = WLoop, rs_main = MSelect\<rparr>"

lemma polling_reach: "reach ready_init ready_step polling_state"
proof -
  let ?s = "\<lparr>rs_ready = False, rs_canceled = False, rs_worker = WBegin, rs_main = MSelect\<rparr>"
  have 0: "reach ready_init ready_step ?s" by (rule reach.intros) (simp add: ready_init_def)
  have 1: "reach ready_init ready_step (?s\<lparr>rs_worker := WChecked\<rparr>)"
    by (rule reach.intros(2)[OF 0 ready_step.first_check]) simp_all
  have 2: "reach ready_init ready_step (?s\<lparr>rs_worker := WCallback\<rparr>)"
    using reach.intros(2)[OF 1 ready_step.second_check] by simp
  show ?thesis using reach.intros(2)[OF 2 ready_step.onStarted] by (simp add: polling_state_def)
qed

definition sample_worker_config :: config_WorkerConfig where
  "sample_worker_config = (case LoadWorker (\<lambda>_. None) of Inr cfg \<Rightarrow> cfg)"

theorem worker_probe_honest_witness:
  "\<exists>sv h. snd (worker_admin sample_worker_config admin_notFound (\<lambda>_ _. None) rs_ready () admin_notFound) (probe_request ''/readyz'')
      polling_state empty_writer = Some sv \<and>
    sv_state sv = polling_state \<and> rw_sent (sv_writer sv) = Some (200, h)"
  using worker_probe_honest[OF polling_reach, of "probe_request ''/readyz''" sample_worker_config admin_notFound "\<lambda>_ _. None" "()" admin_notFound]
  by (fastforce simp: probe_request_def polling_state_def)

end
