(* ===== verification/Spec2Isabelle.thy ===== *)
theory Spec2Isabelle
  imports System_Runs Cmd_Api Cmd_Worker
begin

text \<open>
  A model of game-rewards-service, a Go service that grants rewards to players once, and proofs about it.

  \<^bold>\<open>The program.\<close> An API process takes claim requests over HTTP. Each request runs one PostgreSQL
  transaction that reserves the idempotency key, inserts the claim, inserts an event into the outbox and stores the
  response under the key. A worker process polls the outbox: it leases the oldest due event, publishes it,
  and marks it published, schedules a retry with exponential backoff, or moves it to the dead letters. Both
  processes have health and metrics endpoints, read their configuration from environment variables and
  shut down on a signal. The parts meet in the database, so that the correctness of the whole is about
  interleavings: of requests with the same key, of requests for the same reward, of workers with expired
  leases, and of all of them with failures of the connection at any call.

  \<^bold>\<open>Parameters.\<close> Code that is not in the repository is an argument: pgx (\<open>parse\<close>,
  \<open>open_with\<close>, \<open>ping\<close>, the errors of each call), the jsonb input of PostgreSQL, the publisher of the
  worker, Prometheus (\<open>Register\<close> and the handler of promhttp) and the redirect of the multiplexer. Random
  bytes, the clock, the variables, the results of the network and the choices of \<^verbatim>\<open>select\<close> are arguments
  as well; a run is a function of a script of them. What is assumed of such an argument is a hypothesis of the theorem that
  needs it, with a witness that gives a concrete one. Go's standard library is modelled as far as the sources use it.

  \<^bold>\<open>The language and its library.\<close>
  \<^item> \<open>Prelude\<close>: strings, error sums, \<open>reach\<close> and the locale \<open>invariant_system\<close>, the collections of facts.
  \<^item> \<open>Go_Strings\<close> (UTF-8 decoding, \<^verbatim>\<open>strings.TrimSpace\<close>, hexadecimal), \<open>Go_Errors\<close> (error
    trees, \<^verbatim>\<open>errors.Is\<close>, contexts), \<open>Go_Numbers\<close> (64-bit wrap-around, \<^verbatim>\<open>Atoi\<close>,
    \<^verbatim>\<open>ParseDuration\<close>), \<open>Go_Json\<close> and \<open>Go_Json_Decode\<close> (encoder, validator, strict decoder,
    round trip), \<open>Go_Sha256\<close>, \<open>Go_Mime\<close>, \<open>Go_Http\<close> (requests, response writers, panics), \<open>Go_Mux\<close>.

  \<^bold>\<open>The parts.\<close>
  \<^item> \<open>Schema\<close>, \<^verbatim>\<open>migrations/\<close>: the three tables as lists of rows with their CHECK constraints and unique
    indexes. A row carries the session whose transaction wrote it until that commits; a statement that meets
    such a row of another session waits.
  \<^item> \<open>Rewards\<close>, \<open>Reward_Store\<close>, \<open>Reward_Claims\<close>, \<open>Reward_Atomicity\<close>,
    \<^verbatim>\<open>internal/rewards\<close>: validation, identifiers, responses and events; every function of
    \<^verbatim>\<open>postgres.go\<close> over a script of ticks, one per driver call, with what the other sessions did before
    it, its fault if any, and the context. They show what \<open>CreateClaim\<close> does on every branch: it
    creates, reports a duplicate, replays, refuses a reused key; it is atomic under every error; and its errors are
    of known kinds.
  \<^item> \<open>Postgres\<close>, \<^verbatim>\<open>internal/postgres\<close>: which errors mean that the database is unavailable.
  \<^item> \<open>Outbox_Backoff\<close>, \<open>Outbox_Store\<close>, \<open>Outbox_Worker\<close>, \<^verbatim>\<open>internal/outbox\<close>: the delays, the
    four operations on leases with their SQL, the worker's iteration and loop. The locale
    \<open>lease_store\<close> is what the worker relies on; it is interpreted on the PostgreSQL store. The transitions are exact row by
    row, an iteration is specified on every branch, and the loop by the runs of iterations that let it go on.
  \<^item> \<open>Claim_Machine\<close>, \<open>System\<close>, \<open>System_Runs\<close>: the claim transaction as a step machine that
    refines \<open>createClaim\<close>, and the whole system: any number of requests and workers interleaved with lost
    connections, lost acknowledgements and clean-up. \<open>sys_inv\<close> is its invariant, shown one step at a time; the properties of this
    theory follow from it. A run in which clean-up spares a key (\<open>kept_step\<close>) repeats the answer stored under it.
  \<^item> \<open>Config\<close>, \<^verbatim>\<open>internal/config\<close>: what loads, exactly, and the limits that hold then.
  \<^item> \<open>Http_Response\<close>, \<open>Http_Claims\<close>, \<open>Http_Service\<close>, \<^verbatim>\<open>internal/httpapi\<close>: a
    handler gives the calls it makes on its writer, its events and the state. The locale \<open>claim_service\<close> is the
    interface of the service, interpreted on \<open>CreateClaim\<close>; from it follows what a client can see.
  \<^item> \<open>Http_Server\<close>, \<open>Http_Serving\<close>: middleware, router and server. The locale \<open>status_recorder\<close>
    says that a recorder is transparent and knows the status, for handlers that write no informational status; with it the middleware is shown equivalent to
    a reference without recorder, panics and aborts included.
  \<^item> \<open>Health\<close>, \<^verbatim>\<open>internal/health\<close>, and \<open>Admin_Http\<close>, \<^verbatim>\<open>internal/adminhttp\<close>:
    probes; the recorder of the admin server interprets the same locale.
  \<^item> \<open>Observability\<close>, \<^verbatim>\<open>internal/observability\<close>: the calls on the metric vectors are well-formed and
    bounded, agree with the responses, and account for every publish attempt.
  \<^item> \<open>Cmd_Process\<close>, \<open>Cmd_Api\<close>, \<open>Cmd_Worker\<close>, \<^verbatim>\<open>cmd/\<close>: each process from its environment to
    the exit code, with the trace of what it opened and closed; the shutdown; and the readiness flag as a
    step relation of the goroutines, in which it can be set again after the shutdown has cleared it.

  \<^bold>\<open>Bounds and loops.\<close> Durations, counts and delays are 64-bit integers with the wrap-around written
  out. Nothing has fuel: loops over data are recursive functions with termination proofs, and a loop that waits for the outside is
  a recursion on the script of what happens, which has no result, or is still polling, when the script
  ends. The theorems that something returns say how long a script is enough.

  \<^bold>\<open>Not modelled.\<close> The texts of log records, the durations put into histograms, \<^verbatim>\<open>main\<close> itself (signals
  and \<^verbatim>\<open>os.Exit\<close>), TCP and the HTTP wire format (with it the suppression of the body of an answer to HEAD), and the inside of the libraries named above. Of
  PostgreSQL the model has what the statements of the sources use: READ COMMITTED visibility at the level of rows, unique indexes,
  CHECK constraints, \<^verbatim>\<open>SKIP LOCKED\<close>; no deadlocks beyond the error a call may return.
\<close>

section \<open>Properties\<close>

text \<open>C1. Exactly one grant: in every reachable state, whatever the interleaving of requests, failures,
  lost commits and clean-up, no player has been told twice that the same reward was newly claimed,
  and each such answer stands for exactly one committed claim.\<close>

theorem reward_granted_once:
  assumes "reach sys_init (sys_run M W) s"
  shows "distinct (sys_fresh s) \<and> (\<forall>i \<in> set (sys_fresh s).
    \<exists>!c. c \<in> set (reward_claims (sys_db s)) \<and> rc_owner c = None \<and> rc_identity c = i)"
proof -
  have "req_inv s" using sys.reach_inv[OF assms] by (simp add: sys_inv_def)
  then have fresh: "fresh_ok (sys_fresh s) (sys_db s)" and uniq: "distinct (map rc_identity (reward_claims (sys_db s)))"
    by (auto simp: req_inv_def unique_rows_def)
  have "\<exists>!c. c \<in> set (reward_claims (sys_db s)) \<and> rc_owner c = None \<and> rc_identity c = i"
    if "i \<in> set (sys_fresh s)" for i
  proof -
    from fresh that obtain c where "c \<in> set (claims_of None (sys_db s))" "rc_identity c = i"
      unfolding fresh_ok_def by blast
    with uniq show ?thesis by (auto simp: claims_of_def dest: distinct_map_eqD)
  qed
  with fresh show ?thesis by (simp add: fresh_ok_def)
qed

theorem reward_granted_once_witness:
  "sys_fresh sample_state = [(''p1'', ''c1'', ''r1'')] \<and>
    (\<exists>!c. c \<in> set (reward_claims (sys_db sample_state)) \<and> rc_owner c = None \<and> rc_identity c = (''p1'', ''c1'', ''r1''))"
  using reward_granted_once[OF sample_reach] by (simp add: sample_state_def sample_params_def par_identity_def)

text \<open>C2. A committed claim has its event: in every reachable state each committed claim has a
  committed outbox event for it, or had one that the publisher accepted and that clean-up removed.\<close>

theorem claim_has_event:
  assumes "reach sys_init (sys_run M W) s" "c \<in> set (reward_claims (sys_db s))" "rc_owner c = None"
  shows "(\<exists>b \<in> set (outbox_events (sys_db s)). ob_owner b = None \<and> ob_aggregate_id b = rc_id c) \<or>
    (\<exists>e \<in> sys_accepted s. (e, rc_id c) \<in> sys_retired s)"
proof -
  have "sys_inv M s" using sys.reach_inv[OF assms(1)] .
  then have ok: "committed_ok (sys_retired s) (sys_db s)" and ret: "fst ` sys_retired s \<subseteq> sys_accepted s"
    by (auto simp: sys_inv_def req_inv_def dest: work_invD(3))
  have "c \<in> set (claims_of None (sys_db s))" using assms(2,3) by (simp add: claims_of_def)
  with ok consider "rc_id c \<in> snd ` sys_retired s" | b where "b \<in> set (events_of None (sys_db s))" "ob_aggregate_id b = rc_id c"
    unfolding committed_ok_def by blast
  then show ?thesis
  proof cases
    case 1
    with ret show ?thesis by force
  qed (auto simp: events_of_def)
qed

theorem claim_has_event_witness:
  "\<exists>c \<in> set (reward_claims (sys_db sample_state)).
     (\<exists>b \<in> set (outbox_events (sys_db sample_state)). ob_owner b = None \<and> ob_aggregate_id b = rc_id c) \<or>
     (\<exists>e \<in> sys_accepted sample_state. (e, rc_id c) \<in> sys_retired sample_state)"
proof (rule bexI)
  let ?c = "(inserted_claim_row (sample_tx 1) sample_params)\<lparr>rc_owner := None\<rparr>"
  show c: "?c \<in> set (reward_claims (sys_db sample_state))"
    by (simp add: sample_state_def sample_db_def created_db_def)
  show "(\<exists>b \<in> set (outbox_events (sys_db sample_state)). ob_owner b = None \<and> ob_aggregate_id b = rc_id ?c) \<or>
     (\<exists>e \<in> sys_accepted sample_state. (e, rc_id ?c) \<in> sys_retired sample_state)"
    by (rule claim_has_event[OF sample_reach c]) simp
qed

text \<open>C5. A committed idempotency key always carries a response that can be replayed: reading it never
  ends in the internal error of a missing or broken response, only in the replay or in the refusal
  of a key that was used for something else.\<close>

theorem committed_key_replayable:
  assumes "reach sys_init (sys_run M W) s" "k \<in> set (idem_keys (sys_db s))" "ik_owner k = None"
  shows "check_stored p k = Inl (Sentinel ErrIdempotencyKeyReused) \<or>
    (\<exists>res. check_stored p k = Inr res \<and> res_Replayed res \<and>
       ik_response_status k = Some (res_StatusCode res) \<and> ik_response_body k = Some (res_ResponseBody res))"
proof -
  have "committed_ok (sys_retired s) (sys_db s)"
    using sys.reach_inv[OF assms(1)] by (simp add: sys_inv_def req_inv_def)
  moreover have "k \<in> set (keys_of None (sys_db s))" using assms(2,3) by (simp add: keys_of_def)
  ultimately have "answered_row k" by (simp add: committed_ok_def)
  then obtain st b where "ik_response_status k = Some st" "ik_response_body k = Some b" "st = 201 \<or> st = 409"
      "valid_string b" "json_valid b" "b \<noteq> []"
    by (auto simp: answered_row_def split: option.splits)
  then show ?thesis
    by (auto simp: check_stored_def createClaimStatusCreated_def createClaimStatusConflict_def)
qed

theorem committed_key_replayable_witness:
  "\<exists>k \<in> set (idem_keys (sys_db sample_state)).
     check_stored sample_params k = Inl (Sentinel ErrIdempotencyKeyReused) \<or>
     (\<exists>res. check_stored sample_params k = Inr res \<and> res_Replayed res \<and>
        ik_response_status k = Some (res_StatusCode res) \<and> ik_response_body k = Some (res_ResponseBody res))"
proof (rule bexI)
  let ?k = "stored_created_row (sample_tx 1) sample_params"
  show k: "?k \<in> set (idem_keys (sys_db sample_state))"
    by (simp add: sample_state_def sample_db_def created_db_def)
  show "check_stored sample_params ?k = Inl (Sentinel ErrIdempotencyKeyReused) \<or>
     (\<exists>res. check_stored sample_params ?k = Inr res \<and> res_Replayed res \<and>
        ik_response_status ?k = Some (res_StatusCode res) \<and> ik_response_body ?k = Some (res_ResponseBody res))"
    by (rule committed_key_replayable[OF sample_reach k]) (simp add: stored_created_row_def)
qed

text \<open>C4. At-least-once delivery and bounded retries: in every reachable state an event that is marked
  as delivered was accepted by the publisher; a dead event has failed exactly the configured maximum
  of times, and every other event fewer times.\<close>

theorem outbox_states_sound:
  assumes "reach sys_init (sys_run M W) s" "lease_view (sys_db s) eid = Some l"
  shows "(case l of
     Delivered f \<Rightarrow> eid \<in> sys_accepted s \<and> 0 \<le> f \<and> f < M
   | Dead f \<Rightarrow> f = M
   | Waiting f \<Rightarrow> 0 \<le> f \<and> f < M
   | Leased w f \<Rightarrow> 0 \<le> f \<and> f < M)"
proof -
  have "work_inv M s" using sys.reach_inv[OF assms(1)] by (simp add: sys_inv_def)
  from work_invD(1)[OF this assms(2)] show ?thesis
    by (auto simp: lease_ok_def within_def split: lease.split)
qed

lemma sample_event_view:
  "lease_view (sys_db sample_state) (newUUIDV4 (replicate 16 1)) = Some (Waiting 0)"
  by (simp add: lease_view_def sample_state_def sample_db_def created_db_def empty_db_def lease_of_row_def
      inserted_outbox_row_def sample_tx_def)

theorem outbox_states_sound_witness:
  "lease_view (sys_db sample_state) (newUUIDV4 (replicate 16 1)) = Some (Waiting 0) \<and> (0 :: int) \<le> 0 \<and> (0 :: int) < 5"
  using outbox_states_sound[OF sample_reach sample_event_view] sample_event_view by simp

text \<open>C3. No event is lost: along every run of the system an event that is in the outbox stays there and
  only moves forward (its failures are never forgotten, delivered and dead are final), unless the
  publisher has accepted it; a dead event stays in any case.\<close>

theorem no_event_lost:
  assumes "reach sys_init (sys_run M W) s" "(sys_run M W)\<^sup>*\<^sup>* s t" "lease_view (sys_db s) eid = Some l"
  shows "(\<exists>l'. lease_view (sys_db t) eid = Some l' \<and> lease_progress l l') \<or>
    (eid \<in> sys_accepted t \<and> (\<forall>f. l \<noteq> Dead f))"
proof -
  have "events_kept s t"
    by (rule sys.steps_relation[OF assms(2) sys.reach_inv[OF assms(1)] events_kept_step events_kept_refl events_kept_trans])
  with assms(3) show ?thesis by (simp add: events_kept_def)
qed

theorem no_event_lost_witness:
  "\<exists>t. (sys_run 5 sample_workers)\<^sup>*\<^sup>* sample_state t \<and> sys_db t = expire_keys (\<lambda>_. True) sample_db \<and>
     ((\<exists>l'. lease_view (sys_db t) (newUUIDV4 (replicate 16 1)) = Some l' \<and> lease_progress (Waiting 0) l') \<or>
      newUUIDV4 (replicate 16 1) \<in> sys_accepted t)"
proof -
  let ?t = "sample_state\<lparr>sys_db := expire_keys (\<lambda>_. True) (sys_db sample_state)\<rparr>"
  have run: "(sys_run 5 sample_workers)\<^sup>*\<^sup>* sample_state ?t"
    using sample_workers_ok by (intro r_into_rtranclp) (auto simp: sys_run_def intro: cleanup_keys)
  moreover have "sys_db ?t = expire_keys (\<lambda>_. True) sample_db" by (simp add: sample_state_def)
  ultimately show ?thesis using no_event_lost[OF sample_reach run sample_event_view] by blast
qed

text \<open>C7. Idempotency under concurrency. A request returned a first answer for a command, and then the system ran on in any
  way: other requests, with the same key or not, workers, crashes, lost connections, clean-up of everything but this key. In
  each state that is reached the same command, sent on a free session and left alone for its four calls, returns the same status and
  bytes, marked as a replay, and changes nothing. And every request for the same command that has begun after
  the first answer, interleaved with whatever else, can return no other response than this one, and changes nothing.\<close>

theorem answers_repeated:
  assumes "reach sys_init (sys_run M W) s" "request_answers s sid p res t" "\<not> res_Replayed res"
    "workers_ok M W" "(kept_step M W (par_KeyHash p))\<^sup>*\<^sup>* t u"
  shows "(\<forall>tx cmd qs. prepareCreateClaim cmd = Inr p \<and> sys_req u (tx_sid tx) = None \<and> list_all quiet qs \<and> length qs = 4 \<longrightarrow>
      CreateClaim tx cmd qs (sys_db u) = Some (Inr (res\<lparr>res_Replayed := True\<rparr>), [], sys_db u)) \<and>
    (\<forall>sid' res' v. sys_req t sid' = None \<and> request_answers u sid' p res' v \<longrightarrow>
      res' = res\<lparr>res_Replayed := True\<rparr> \<and> sys_db v = sys_db u)"
proof (intro conjI allI impI; elim conjE)
  have s: "sys_inv M s" using sys.reach_inv[OF assms(1)] .
  have t: "sys_inv M t"
    by (rule sys.step_inv[OF s, of W]) (use request_answers_step[OF assms(2)] assms(4) in \<open>simp add: sys_run_def\<close>)
  have stored: "answer_stored p res t" using first_answer_stored[OF _ assms(2,3)] s by (simp add: sys_inv_def)
  have run: "req_inv u \<and> answer_stored p res u \<and> follows_answer p res (sys_req u i)" if "sys_req t i = None" for i
    using kept_run_follows[OF assms(5) t stored, of i] that by (simp add: sys_inv_def follows_answer_def)
  have "sys_req t sid = None" using assms(2) by (auto simp: request_answers_def)
  from run[OF this] have u: "req_inv u" "answer_stored p res u" by auto
  show "CreateClaim tx cmd qs (sys_db u) = Some (Inr (res\<lparr>res_Replayed := True\<rparr>), [], sys_db u)"
    if "prepareCreateClaim cmd = Inr p" "sys_req u (tx_sid tx) = None" "list_all quiet qs" "length qs = 4" for tx cmd qs
  proof -
    from answer_stored_under[OF u] have "replayable p res (sys_db u)" unfolding replayable_def by blast
    moreover from that(3,4) obtain q1 q2 q3 q4 where "qs = [q1, q2, q3, q4]" "quiet q1" "quiet q2" "quiet q3" "quiet q4"
      by (auto simp: eval_nat_numeral length_Suc_conv)
    ultimately show ?thesis
      using that(1) no_request_idle[OF u(1) that(2)]
      by (auto intro!: CreateClaim_prepared replayable_createClaim prepareCreateClaim_params_ok)
  qed
  fix sid' res' v
  assume begun: "sys_req t sid' = None" and ans: "request_answers u sid' p res' v"
  from u(1) ans obtain tx where "sys_req u sid' = Some (RReady tx p res')" by (rule answers_ready)
  with run[OF begun] show "res' = res\<lparr>res_Replayed := True\<rparr>" by (auto simp: follows_answer_def)
  then have "res_Replayed res'" by simp
  with replay_changes_nothing[OF u(1) ans] show "sys_db v = sys_db u" by simp
qed

theorem answers_repeated_witness:
  "CreateClaim (sample_tx 2) sample_cmd (sample_ticks 4) (sys_db sample_state) =
     Some (Inr (sample_result\<lparr>res_Replayed := True\<rparr>), [], sys_db sample_state)"
proof -
  obtain x where x: "reach sys_init (sys_run 5 sample_workers) x"
      "request_answers x (tx_sid (sample_tx 1)) sample_params sample_result sample_state"
    using sample_answers by blast
  from answers_repeated[OF x _ sample_workers_ok rtranclp.rtrancl_refl] sample_prepare show ?thesis
    by (simp add: sample_result_def created_result_def sample_state_def sample_start_def)
qed

end
